(* ===== verification/Prelude.thy ===== *)
theory Prelude
  imports Main "HOL-Library.Word"
begin

text \<open>
  What every component shares: the byte memory the C++ code reads and writes through
  raw pointers, the faults such accesses can have, the sequencing of fallible steps,
  little-endian and big-endian integers, C strings, and the codec interface (a decoder
  that undoes an encoder whatever follows it in the buffer) with the facts that any
  codec has.

  The platform is the one the sources are built for: 8-bit \<^verbatim>\<open>char\<close>, 16-bit
  \<^verbatim>\<open>short\<close>, 32-bit \<^verbatim>\<open>int\<close> and enumerations, 64-bit \<^verbatim>\<open>size_t\<close>, little-endian.
\<close>

named_theorems mem_simps \<open>characteristic equations of the byte memory operations\<close>
named_theorems wire_defs \<open>definitions of the message codecs\<close>

type_synonym byte = "8 word"
type_synonym bytes = "byte list"
type_synonym short = "16 word"
type_synonym cint = "32 word"
type_synonym size_t = "64 word"

section \<open>Faults and sequencing\<close>

text \<open>
  What C++ leaves undefined, or what ends the running handler with an exception, is a
  value of the model.
\<close>

datatype fault =
    OutOfBoundsRead
  | OutOfBoundsWrite
  | NullPointer
  | UseAfterFree
  | Uninitialised
  | BadAlloc

type_synonym 'a res = "fault + 'a"

definition rbind :: "'e + 'a \<Rightarrow> ('a \<Rightarrow> 'e + 'b) \<Rightarrow> 'e + 'b" where
  "rbind m f = (case m of Inl e \<Rightarrow> Inl e | Inr x \<Rightarrow> f x)"

lemma rbind_simps [simp]:
  "rbind (Inl e) f = Inl e"
  "rbind (Inr x) f = f x"
  by (simp_all add: rbind_def)

lemma rbind_Inr_iff: "rbind m f = Inr y \<longleftrightarrow> (\<exists>x. m = Inr x \<and> f x = Inr y)"
  by (cases m) auto

lemma rbind_Inl_iff: "rbind m f = Inl e \<longleftrightarrow> m = Inl e \<or> (\<exists>x. m = Inr x \<and> f x = Inl e)"
  by (cases m) auto

lemma rbind_assoc: "rbind (rbind m f) g = rbind m (\<lambda>x. rbind (f x) g)"
  by (cases m) auto

lemma rbind_Inr_right [simp]: "rbind m Inr = m"
  by (cases m) auto

lemma rbind_if: "rbind (if c then a else b) f = (if c then rbind a f else rbind b f)"
  by simp

section \<open>Byte memory\<close>

text \<open>
  A block of memory is the list of its bytes; a pointer into it is an offset.
  \<^verbatim>\<open>memcpy\<close> out of or into a block is in bounds or a fault.
\<close>

definition read_at :: "bytes \<Rightarrow> nat \<Rightarrow> nat \<Rightarrow> bytes res" where
  "read_at buf off n =
     (if off + n \<le> length buf then Inr (take n (drop off buf)) else Inl OutOfBoundsRead)"

definition write_at :: "bytes \<Rightarrow> nat \<Rightarrow> bytes \<Rightarrow> bytes res" where
  "write_at buf off bs =
     (if off + length bs \<le> length buf
      then Inr (take off buf @ bs @ drop (off + length bs) buf)
      else Inl OutOfBoundsWrite)"

text \<open>
  A run of \<^verbatim>\<open>memcpy\<close> calls that advances the destination pointer by the number of
  bytes just written.
\<close>

fun puts :: "bytes \<Rightarrow> nat \<Rightarrow> bytes list \<Rightarrow> bytes res" where
  "puts buf off [] = Inr buf"
| "puts buf off (c # cs) = rbind (write_at buf off c) (\<lambda>b. puts b (off + length c) cs)"

lemma read_at_append:
  "length pre = off \<Longrightarrow> length bs = n \<Longrightarrow> read_at (pre @ bs @ rest) off n = Inr bs"
  by (auto simp: read_at_def)

lemma read_at_fault: "read_at buf off n = Inl f \<longleftrightarrow> f = OutOfBoundsRead \<and> length buf < off + n"
  by (auto simp: read_at_def)

lemma write_at_length: "write_at buf off bs = Inr b \<Longrightarrow> length b = length buf"
  by (auto simp: write_at_def split: if_splits)

lemma write_at_append:
  "length pre = off \<Longrightarrow> length old = length bs \<Longrightarrow>
   write_at (pre @ old @ rest) off bs = Inr (pre @ bs @ rest)"
  by (auto simp: write_at_def)

text \<open>
  The successive writes either all fit, and then amount to one write of their
  concatenation, or one of them runs past the end of the block.
\<close>

lemma puts_concat:
  "off \<le> length buf \<Longrightarrow>
   puts buf off cs =
     (if off + length (concat cs) \<le> length buf
      then Inr (take off buf @ concat cs @ drop (off + length (concat cs)) buf)
      else Inl OutOfBoundsWrite)"
proof (induction cs arbitrary: buf off)
  case Nil
  then show ?case by simp
next
  case (Cons c cs)
  show ?case
  proof (cases "off + length c \<le> length buf")
    case True
    let ?b = "take off buf @ c @ drop (off + length c) buf"
    have len: "length ?b = length buf" using True by simp
    have "puts buf off (c # cs) = puts ?b (off + length c) cs"
      using True by (simp add: write_at_def)
    also have "\<dots> = (if off + length c + length (concat cs) \<le> length buf
        then Inr (take (off + length c) ?b @ concat cs
                  @ drop (off + length c + length (concat cs)) ?b)
        else Inl OutOfBoundsWrite)"
      using Cons.IH [of "off + length c" ?b] len True by (simp only: simp_thms)
    finally show ?thesis using True by (simp add: ac_simps)
  next
    case False
    then show ?thesis by (simp add: write_at_def)
  qed
qed

declare puts.simps(2) [simp del]

corollary puts_start:
  "puts buf 0 cs =
     (if length (concat cs) \<le> length buf
      then Inr (concat cs @ drop (length (concat cs)) buf)
      else Inl OutOfBoundsWrite)"
  by (simp add: puts_concat)

lemma puts_append:
  "puts buf off (cs @ ds) = rbind (puts buf off cs) (\<lambda>b. puts b (off + length (concat cs)) ds)"
  by (induction cs arbitrary: buf off) (simp_all add: puts.simps rbind_assoc add.assoc)

corollary puts_after:
  "length pre = off \<Longrightarrow> length (concat cs) \<le> length rest \<Longrightarrow>
   puts (pre @ rest) off cs = Inr (pre @ concat cs @ drop (length (concat cs)) rest)"
  by (simp add: puts_concat)

corollary puts_whole:
  "length old = length (concat cs) \<Longrightarrow>
   puts (old @ rest) 0 cs = Inr (concat cs @ rest)"
  by (simp add: puts_concat)

text \<open>
  \<^verbatim>\<open>memchr(p, 0, n)\<close> reads one byte after the other and stops at the first zero: the
  distance to it, or \<^verbatim>\<open>NULL\<close> after \<open>n\<close> bytes. Running off the block is a fault.
\<close>

fun memchr0 :: "bytes \<Rightarrow> nat \<Rightarrow> nat option res" where
  "memchr0 bs 0 = Inr None"
| "memchr0 [] (Suc n) = Inl OutOfBoundsRead"
| "memchr0 (b # bs) (Suc n) =
     (if b = 0 then Inr (Some 0) else rbind (memchr0 bs n) (\<lambda>r. Inr (map_option Suc r)))"

text \<open>
  The sources turn the result into a string without testing it: a \<^verbatim>\<open>NULL\<close> result is
  subtracted from the data pointer and used as a length.
\<close>

definition c_str_at :: "bytes \<Rightarrow> nat \<Rightarrow> nat \<Rightarrow> bytes res" where
  "c_str_at buf off n =
     (if length buf < off then Inl OutOfBoundsRead
      else rbind (memchr0 (drop off buf) n)
        (\<lambda>r. case r of None \<Rightarrow> Inl NullPointer | Some k \<Rightarrow> read_at buf off k))"

definition c_str :: "bytes \<Rightarrow> bytes" where
  "c_str s = s @ [0]"

lemma length_c_str [simp]: "length (c_str s) = length s + 1"
  by (simp add: c_str_def)

lemma memchr0_found:
  "0 \<notin> set s \<Longrightarrow> length s < n \<Longrightarrow> memchr0 (s @ 0 # rest) n = Inr (Some (length s))"
proof (induction s arbitrary: n)
  case Nil
  then show ?case by (cases n) auto
next
  case (Cons b s)
  then obtain m where "n = Suc m" and "length s < m" by (cases n) auto
  with Cons show ?case by auto
qed

lemma memchr0_not_found:
  "0 \<notin> set (take n s) \<Longrightarrow> n \<le> length s \<Longrightarrow> memchr0 s n = Inr None"
proof (induction s arbitrary: n)
  case Nil
  then show ?case by simp
next
  case (Cons b s)
  then show ?case by (cases n) auto
qed

lemma memchr0_runs_off:
  "0 \<notin> set s \<Longrightarrow> length s < n \<Longrightarrow> memchr0 s n = Inl OutOfBoundsRead"
proof (induction s arbitrary: n)
  case Nil
  then show ?case by (cases n) auto
next
  case (Cons b s)
  then show ?case by (cases n) auto
qed

lemma c_str_at_found:
  "length pre = off \<Longrightarrow> 0 \<notin> set s \<Longrightarrow> length s < n \<Longrightarrow>
   c_str_at (pre @ c_str s @ rest) off n = Inr s"
  by (auto simp: c_str_at_def c_str_def memchr0_found read_at_def)

lemma c_str_at_too_long:
  "length pre = off \<Longrightarrow> 0 \<notin> set s \<Longrightarrow> n \<le> length s \<Longrightarrow>
   c_str_at (pre @ c_str s @ rest) off n = Inl NullPointer"
proof -
  assume a: "length pre = off" "0 \<notin> set s" "n \<le> length s"
  then have "memchr0 (s @ 0 # rest) n = Inr None"
    by (intro memchr0_not_found) (auto dest: in_set_takeD)
  with a show ?thesis by (auto simp: c_str_at_def c_str_def)
qed

lemmas [mem_simps] = read_at_append write_at_append puts_whole c_str_at_found

section \<open>Integers in memory\<close>

text \<open>
  \<open>le_encode n v\<close>: the low \<open>n\<close> bytes of \<open>v\<close>, least significant first: what
  \<^verbatim>\<open>memcpy(p, &v, n)\<close> copies out of an integer object of at least \<open>n\<close> bytes.
\<close>

fun le_encode :: "nat \<Rightarrow> nat \<Rightarrow> bytes" where
  "le_encode 0 v = []"
| "le_encode (Suc n) v = word_of_nat v # le_encode n (v div 256)"

fun le_decode :: "bytes \<Rightarrow> nat" where
  "le_decode [] = 0"
| "le_decode (b # bs) = unat b + 256 * le_decode bs"

lemma length_le_encode [simp]: "length (le_encode n v) = n"
  by (induction n arbitrary: v) auto

lemma unat_bound: "unat (w :: 'a::len word) < 2 ^ LENGTH('a)"
  by (rule unsigned_less)

lemma unat_byte_of_nat: "unat (word_of_nat v :: byte) = v mod 256"
  by (simp add: unat_of_nat)

lemma le_decode_encode: "le_decode (le_encode n v) = v mod 256 ^ n"
proof (induction n arbitrary: v)
  case 0
  then show ?case by simp
next
  case (Suc n)
  have "v mod (256 * 256 ^ n) = 256 * (v div 256 mod 256 ^ n) + v mod 256"
    by (rule mod_mult2_eq)
  then show ?case by (simp add: Suc unat_byte_of_nat)
qed

lemma le_decode_lt: "le_decode bs < 256 ^ length bs"
proof (induction bs)
  case Nil
  then show ?case by simp
next
  case (Cons b bs)
  have "unat b < 256" using unat_bound [of b] by simp
  with Cons show ?case by simp
qed

lemma le_encode_decode: "le_encode (length bs) (le_decode bs) = bs"
proof (induction bs)
  case Nil
  then show ?case by simp
next
  case (Cons b bs)
  have b: "unat b < 256" using unat_bound [of b] by simp
  then have "(unat b + 256 * le_decode bs) div 256 = le_decode bs" by simp
  moreover have "(word_of_nat (unat b + 256 * le_decode bs) :: byte) = b"
    by (rule word_unat_eq_iff [THEN iffD2]) (use b in \<open>simp only: unat_byte_of_nat, simp\<close>)
  ultimately show ?case using Cons by simp
qed

text \<open>Whole words.\<close>

definition le16 :: "short \<Rightarrow> bytes" where "le16 w = le_encode 2 (unat w)"
definition le32 :: "cint \<Rightarrow> bytes" where "le32 w = le_encode 4 (unat w)"
definition le64 :: "size_t \<Rightarrow> bytes" where "le64 w = le_encode 8 (unat w)"

lemma length_le [simp]: "length (le16 a) = 2" "length (le32 b) = 4" "length (le64 c) = 8"
  by (simp_all add: le16_def le32_def le64_def)

lemma word_of_le_decode [simp]:
  "word_of_nat (le_decode (le16 a)) = a"
  "word_of_nat (le_decode (le32 b)) = b"
  "word_of_nat (le_decode (le64 c)) = c"
  using unat_bound [of a] unat_bound [of b] unat_bound [of c]
  by (simp_all add: le16_def le32_def le64_def le_decode_encode)

lemma le_decode_words [simp]:
  "le_decode (le16 a) = unat a"
  "le_decode (le32 b) = unat b"
  "le_decode (le64 c) = unat c"
  using unat_bound [of a] unat_bound [of b] unat_bound [of c]
  by (simp_all add: le16_def le32_def le64_def le_decode_encode)

text \<open>Reading an integer field through \<^verbatim>\<open>memcpy(&field, p, sizeof(field))\<close>.\<close>

definition get16 :: "bytes \<Rightarrow> nat \<Rightarrow> short res" where
  "get16 buf off = rbind (read_at buf off 2) (\<lambda>b. Inr (word_of_nat (le_decode b)))"

definition get32 :: "bytes \<Rightarrow> nat \<Rightarrow> cint res" where
  "get32 buf off = rbind (read_at buf off 4) (\<lambda>b. Inr (word_of_nat (le_decode b)))"

lemma get_start [mem_simps]:
  "get16 (le16 a @ rest) 0 = Inr a"
  "get32 (le32 b @ rest) 0 = Inr b"
  by (simp_all add: get16_def get32_def read_at_def)

lemma get_append [mem_simps]:
  "length pre = off \<Longrightarrow> get16 (pre @ le16 a @ rest) off = Inr a"
  "length pre = off \<Longrightarrow> get32 (pre @ le32 b @ rest) off = Inr b"
  by (simp_all add: get16_def get32_def read_at_append)

lemma get16_exact: "length bs = 2 \<Longrightarrow> get16 (bs @ rest) 0 = Inr (word_of_nat (le_decode bs))"
  using read_at_append [of "[]" 0 bs 2 rest] by (simp add: get16_def)

lemma le16_inj: "le16 a = le16 b \<longleftrightarrow> a = b"
  by (metis word_of_le_decode(1))

lemma le32_inj: "le32 a = le32 b \<longleftrightarrow> a = b"
  by (metis word_of_le_decode(2))

section \<open>The codec interface\<close>

text \<open>
  An encoder and a decoder of one kind of value: decoding what was encoded gives the value
  back and leaves exactly the bytes that followed, whatever they are. \<open>valid\<close> says which
  values the encoder represents. Everything a protocol built from such fields needs follows
  once: injectivity, no encoding being a proper prefix of another, and sequences of values.
\<close>

locale codec =
  fixes valid :: "'a \<Rightarrow> bool"
    and enc :: "'a \<Rightarrow> bytes"
    and dec :: "bytes \<Rightarrow> 'e + 'a \<times> bytes"
  assumes dec_enc: "valid x \<Longrightarrow> dec (enc x @ rest) = Inr (x, rest)"
begin

lemma enc_inj:
  assumes "valid x" and "valid y" and "enc x @ r = enc y @ s"
  shows "x = y \<and> r = s"
proof -
  have "Inr (x, r) = dec (enc x @ r)" using dec_enc [OF assms(1)] by (rule sym)
  also have "\<dots> = dec (enc y @ s)" using assms(3) by (rule arg_cong)
  also have "\<dots> = Inr (y, s)" using assms(2) by (rule dec_enc)
  finally show ?thesis by simp
qed

lemma enc_prefix_free:
  assumes "valid x" and "valid y" and "enc y = enc x @ s"
  shows "x = y \<and> s = []"
  using enc_inj [OF assms(1,2), of s "[]"] assms(3) by simp

fun dec_list :: "nat \<Rightarrow> bytes \<Rightarrow> 'e + 'a list \<times> bytes" where
  "dec_list 0 bs = Inr ([], bs)"
| "dec_list (Suc n) bs =
     rbind (dec bs) (\<lambda>(x, bs'). rbind (dec_list n bs') (\<lambda>(xs, bs''). Inr (x # xs, bs'')))"

lemma dec_list_enc:
  "list_all valid xs \<Longrightarrow>
   dec_list (length xs) (concat (map enc xs) @ rest) = Inr (xs, rest)"
  by (induction xs) (auto simp: dec_enc)

lemma enc_list_inj:
  assumes "list_all valid xs" and "list_all valid ys" and "length xs = length ys"
    and "concat (map enc xs) @ r = concat (map enc ys) @ s"
  shows "xs = ys \<and> r = s"
proof -
  have "Inr (xs, r) = dec_list (length xs) (concat (map enc xs) @ r)"
    using dec_list_enc [OF assms(1)] by (rule sym)
  also have "\<dots> = dec_list (length ys) (concat (map enc ys) @ s)"
    using assms(3,4) by (rule arg_cong2)
  also have "\<dots> = Inr (ys, s)" using assms(2) by (rule dec_list_enc)
  finally show ?thesis by simp
qed

end

text \<open>The two field codecs of the wire protocol: fixed-width integers and C strings.\<close>

definition dec16 :: "bytes \<Rightarrow> fault + short \<times> bytes" where
  "dec16 bs = rbind (get16 bs 0) (\<lambda>w. Inr (w, drop 2 bs))"

definition dec32 :: "bytes \<Rightarrow> fault + cint \<times> bytes" where
  "dec32 bs = rbind (get32 bs 0) (\<lambda>w. Inr (w, drop 4 bs))"

definition dec_c_str :: "nat \<Rightarrow> bytes \<Rightarrow> fault + bytes \<times> bytes" where
  "dec_c_str n bs = rbind (c_str_at bs 0 n) (\<lambda>s. Inr (s, drop (length s + 1) bs))"

definition c_str_ok :: "nat \<Rightarrow> bytes \<Rightarrow> bool" where
  "c_str_ok n s \<longleftrightarrow> 0 \<notin> set s \<and> length s < n"

interpretation short_field: codec "\<lambda>_. True" le16 dec16
  by unfold_locales (simp add: dec16_def get_start)

interpretation int_field: codec "\<lambda>_. True" le32 dec32
  by unfold_locales (simp add: dec32_def get_start)

interpretation str_field: codec "c_str_ok n" c_str "dec_c_str n" for n
proof
  fix s rest
  assume "c_str_ok n s"
  then have "c_str_at (c_str s @ rest) 0 n = Inr s"
    using c_str_at_found [of "[]" 0 s n rest] by (simp add: c_str_ok_def)
  then show "dec_c_str n (c_str s @ rest) = Inr (s, rest)"
    by (simp add: dec_c_str_def c_str_def)
qed

section \<open>Uninitialised storage\<close>

text \<open>
  A block from \<^verbatim>\<open>new char[n]\<close> holds whatever the heap held: the contents come from an
  arbitrary function of the position.
\<close>

definition fresh_block :: "(nat \<Rightarrow> byte) \<Rightarrow> nat \<Rightarrow> bytes" where
  "fresh_block junk n = map junk [0..<n]"

lemma length_fresh_block [simp]: "length (fresh_block junk n) = n"
  by (simp add: fresh_block_def)

text \<open>Characters of a source literal as bytes.\<close>

definition ascii :: "string \<Rightarrow> bytes" where
  "ascii s = map of_char s"

section \<open>Decimal text\<close>

text \<open>\<^verbatim>\<open>std::to_string\<close> of an integer.\<close>

fun dec_digits :: "nat \<Rightarrow> string" where
  "dec_digits n =
     (if n < 10 then [char_of (48 + n)] else dec_digits (n div 10) @ [char_of (48 + n mod 10)])"

declare dec_digits.simps [simp del]

definition std_to_string :: "int \<Rightarrow> string" where
  "std_to_string i = (if i < 0 then CHR ''-'' # dec_digits (nat (- i)) else dec_digits (nat i))"

end
