(* ===== verification/Server_Messages.thy ===== *)
theory Server_Messages
  imports Prelude
begin

unbundle bit_operations_syntax

text \<open>
  The middleware's message classes (\<^verbatim>\<open>middleware-cpp/server/protocol/messages\<close>): the
  enumerations, the request and response objects, and for each message its \<^verbatim>\<open>decode\<close>,
  \<^verbatim>\<open>process\<close> and \<^verbatim>\<open>encode\<close>. A request is decoded from the connection's receive buffer
  at an offset; a response is encoded into the same buffer from offset 0. \<open>response_encoder\<close>
  is the contract the connection relies on when it writes a response, and each of the three
  messages is an instance of it.

  The gauge updates of the sources (elapsed times) have no influence on the messages and are
  left out.
\<close>

section \<open>Enumerations and constants (message.h, namelookup.h, security.h)\<close>

datatype MessageType =
  SRV_MSG_UNDEFINED | SRV_MSG_ATTACH | SRV_MSG_GET_BY_NAME | SRV_MSG_NAME_LOOKUP

fun MessageType_value :: "MessageType \<Rightarrow> cint" where
  "MessageType_value SRV_MSG_UNDEFINED = 0"
| "MessageType_value SRV_MSG_ATTACH = 1"
| "MessageType_value SRV_MSG_GET_BY_NAME = 4"
| "MessageType_value SRV_MSG_NAME_LOOKUP = 11"

lemma MessageType_value_inj: "MessageType_value a = MessageType_value b \<longleftrightarrow> a = b"
  by (cases a; cases b) simp_all

datatype LookupType =
    SDB_GET_FIRST | SDB_GET_LAST | SDB_GET_EQUAL | SDB_GET_LESS | SDB_GET_LE
  | SDB_GET_GREATER | SDB_GET_GE | SDB_GET_NEXT | SDB_GET_PREV

fun LookupType_value :: "LookupType \<Rightarrow> cint" where
  "LookupType_value SDB_GET_FIRST = 1"
| "LookupType_value SDB_GET_LAST = 2"
| "LookupType_value SDB_GET_EQUAL = 3"
| "LookupType_value SDB_GET_LESS = 4"
| "LookupType_value SDB_GET_LE = 5"
| "LookupType_value SDB_GET_GREATER = 6"
| "LookupType_value SDB_GET_GE = 7"
| "LookupType_value SDB_GET_NEXT = 8"
| "LookupType_value SDB_GET_PREV = 9"

definition APP_NAME_SIZE :: nat where "APP_NAME_SIZE = 32"
definition USER_NAME_SIZE :: nat where "USER_NAME_SIZE = 32"
definition SEC_NAME_SIZE :: nat where "SEC_NAME_SIZE = 32"
definition RESPONSE_FIELD_SIZE :: nat where "RESPONSE_FIELD_SIZE = 25"

text \<open>
  \<^verbatim>\<open>memcpy(&e, p, sizeof(short))\<close> into a four-byte enumeration: the two low bytes are
  replaced, the two high bytes keep their value.
\<close>

definition set_low16 :: "cint \<Rightarrow> short \<Rightarrow> cint" where
  "set_low16 old v = (old AND NOT (mask 16)) OR ucast v"

lemma set_low16_0 [simp]: "set_low16 0 v = ucast v"
  by (simp add: set_low16_def)

lemma set_low16_low: "ucast (set_low16 old v) = v"
  by (rule bit_word_eqI) (auto simp: set_low16_def bit_simps)

text \<open>What a message asks its surroundings to do when it is processed.\<close>

datatype effect =
    PostWrite
  | GetSecurityAsync bytes
  | LookupAsync bytes short

section \<open>Attach (attach.h)\<close>

record AttachResponse =
  ar_size :: short
  ar_version_revision :: short
  ar_server_features :: cint

record AttachRequest =
  aq_user_name :: bytes
  aq_app_name :: bytes
  aq_version :: short
  aq_revision :: short

record SrvAttach =
  sa_request :: AttachRequest
  sa_response :: "AttachResponse option"

definition new_SrvAttach :: SrvAttach where
  "new_SrvAttach = \<lparr>sa_request = \<lparr>aq_user_name = [], aq_app_name = [], aq_version = 0,
     aq_revision = 0\<rparr>, sa_response = None\<rparr>"

definition new_AttachResponse :: "short \<Rightarrow> cint \<Rightarrow> AttachResponse" where
  "new_AttachResponse versionRevision serverFeatures =
     \<lparr>ar_size = 2 + 2 + 4, ar_version_revision = versionRevision,
      ar_server_features = serverFeatures\<rparr>"

definition SrvAttach_decode :: "bytes \<Rightarrow> nat \<Rightarrow> SrvAttach \<Rightarrow> SrvAttach res" where
  "SrvAttach_decode buf data m =
     rbind (c_str_at buf data USER_NAME_SIZE) (\<lambda>user.
     let data = data + length user + 1 in
     rbind (c_str_at buf data APP_NAME_SIZE) (\<lambda>app.
     let data = data + length app + 1 in
     rbind (get16 buf data) (\<lambda>version.
     let data = data + 2 in
     rbind (get16 buf data) (\<lambda>revision.
     Inr (m\<lparr>sa_request := \<lparr>aq_user_name = user, aq_app_name = app, aq_version = version,
                            aq_revision = revision\<rparr>\<rparr>)))))"

definition attach_server_features :: cint where
  "attach_server_features =
     ((((1 OR 0x00000008) OR 0x00008000) OR 0x00200000) OR 0x00010000)"

definition SrvAttach_process :: "SrvAttach \<Rightarrow> SrvAttach \<times> effect" where
  "SrvAttach_process m =
     (m\<lparr>sa_response := Some (new_AttachResponse 269 attach_server_features)\<rparr>, PostWrite)"

definition SrvAttach_encode :: "SrvAttach \<Rightarrow> bytes \<Rightarrow> (size_t \<times> bytes) res" where
  "SrvAttach_encode m buf =
     (case sa_response m of
        None \<Rightarrow> Inl NullPointer
      | Some r \<Rightarrow>
          rbind (puts buf 0 [le16 (ar_size r), le16 (ar_version_revision r),
                             le32 (ar_server_features r)])
            (\<lambda>b. Inr (scast (ar_size r), b)))"

section \<open>Get by name (getbyname.h, security.h)\<close>

text \<open>
  \<^verbatim>\<open>Security::blob\<close> is a pointer to bytes owned by somebody else; a heap maps the addresses
  of the live byte arrays to their contents.
\<close>

type_synonym addr = nat
type_synonym heap = "addr \<Rightarrow> bytes option"

definition deref :: "heap \<Rightarrow> addr \<Rightarrow> nat \<Rightarrow> bytes res" where
  "deref h a n = (case h a of None \<Rightarrow> Inl UseAfterFree | Some bs \<Rightarrow> read_at bs 0 n)"

record Security =
  sec_name :: bytes
  sec_type :: cint
  sec_lastTransactionId :: cint
  sec_updateCount :: cint
  sec_timeUpdated :: cint
  sec_dateCreated :: short
  sec_dbIDUpdated :: short
  sec_versionInfo :: short
  sec_blobSize :: cint
  sec_blob :: addr

definition GBN_ERROR :: short where "GBN_ERROR = 0"
definition GBN_SUCCESS :: short where "GBN_SUCCESS = 1"

record GetByNameResponse =
  gr_size :: size_t
  gr_status :: short
  gr_error_type :: short
  gr_sec :: "Security option"

record SrvMsgGetByName =
  gq_security_name :: bytes
  gm_response :: "GetByNameResponse option"

definition new_SrvMsgGetByName :: SrvMsgGetByName where
  "new_SrvMsgGetByName = \<lparr>gq_security_name = [], gm_response = None\<rparr>"

definition new_GetByNameResponse ::
    "short \<Rightarrow> short \<Rightarrow> Security option \<Rightarrow> GetByNameResponse res" where
  "new_GetByNameResponse status errorType sec =
     (let size = 4 + 2 in
      if status = GBN_ERROR
      then Inr \<lparr>gr_size = size + 2, gr_status = status, gr_error_type = errorType,
                gr_sec = sec\<rparr>
      else (case sec of
              None \<Rightarrow> Inl NullPointer
            | Some s \<Rightarrow>
                Inr \<lparr>gr_size = size + (word_of_nat (length (sec_name s))
                                       + word_of_nat RESPONSE_FIELD_SIZE),
                     gr_status = status, gr_error_type = errorType, gr_sec = sec\<rparr>))"

definition GetByName_decode ::
    "bytes \<Rightarrow> nat \<Rightarrow> SrvMsgGetByName \<Rightarrow> SrvMsgGetByName res" where
  "GetByName_decode buf data m =
     rbind (c_str_at buf data SEC_NAME_SIZE) (\<lambda>name. Inr (m\<lparr>gq_security_name := name\<rparr>))"

definition GetByName_process :: "SrvMsgGetByName \<Rightarrow> SrvMsgGetByName \<times> effect" where
  "GetByName_process m = (m, GetSecurityAsync (gq_security_name m))"

text \<open>The completion the repository calls: a null security becomes an error response.\<close>

definition GetByName_handler ::
    "SrvMsgGetByName \<Rightarrow> Security option \<Rightarrow> (SrvMsgGetByName \<times> effect) res" where
  "GetByName_handler m security =
     rbind (case security of
              Some s \<Rightarrow> new_GetByNameResponse GBN_SUCCESS 0 (Some s)
            | None \<Rightarrow> new_GetByNameResponse GBN_ERROR 0 None)
       (\<lambda>r. Inr (m\<lparr>gm_response := Some r\<rparr>, PostWrite))"

definition security_fields :: "Security \<Rightarrow> bytes list" where
  "security_fields sec =
     [c_str (sec_name sec), le_encode 2 (unat (sec_type sec)),
      le32 (sec_lastTransactionId sec), le32 (sec_timeUpdated sec),
      le32 (sec_updateCount sec), le16 (sec_dateCreated sec), le16 (sec_dbIDUpdated sec),
      le16 (sec_versionInfo sec), le32 (sec_blobSize sec)]"

text \<open>
  \<^verbatim>\<open>encode\<close> ends with \<^verbatim>\<open>delete sec\<close>. The deletion is not part of the result: a response is
  encoded once, by the write that its completion posted, and the next completion replaces it before
  anything reads it again.
\<close>

definition GetByName_encode ::
    "heap \<Rightarrow> SrvMsgGetByName \<Rightarrow> bytes \<Rightarrow> (size_t \<times> bytes) res" where
  "GetByName_encode h m buf =
     (case gm_response m of
        None \<Rightarrow> Inl NullPointer
      | Some r \<Rightarrow>
          let s = gr_size r + (case gr_sec r of None \<Rightarrow> 0 | Some sec \<Rightarrow> scast (sec_blobSize sec));
              head = [le_encode 4 (unat s), le16 (gr_status r)]
          in if gr_status r = GBN_ERROR
             then rbind (puts buf 0 (head @ [le16 (gr_error_type r)])) (\<lambda>b. Inr (s, b))
             else (case gr_sec r of
                     None \<Rightarrow> Inl NullPointer
                   | Some sec \<Rightarrow>
                       let fields = head @ security_fields sec;
                           n = unat (scast (sec_blobSize sec) :: size_t)
                       in rbind (puts buf 0 fields) (\<lambda>b.
                          rbind (deref h (sec_blob sec) n) (\<lambda>blob.
                          rbind (puts b (length (concat fields)) [blob]) (\<lambda>b'.
                          Inr (s, b'))))))"

section \<open>Name lookup (namelookup.h)\<close>

record NameLookupRequest =
  nq_type :: cint
  nq_count :: short
  nq_prefix :: bytes

record NameLookupResponse =
  nr_size :: size_t
  nr_count :: short
  nr_security_names :: "bytes list"

record SRVMsgNameLookup =
  nm_request :: NameLookupRequest
  nm_response :: "NameLookupResponse option"

definition new_SRVMsgNameLookup :: SRVMsgNameLookup where
  "new_SRVMsgNameLookup =
     \<lparr>nm_request = \<lparr>nq_type = 0, nq_count = 0, nq_prefix = []\<rparr>, nm_response = None\<rparr>"

definition new_NameLookupResponse :: "short \<Rightarrow> bytes list \<Rightarrow> NameLookupResponse" where
  "new_NameLookupResponse count names =
     \<lparr>nr_size = foldl (\<lambda>size security. size + (word_of_nat (length security) + 1)) (4 + 2) names,
      nr_count = count, nr_security_names = names\<rparr>"

definition NameLookup_decode ::
    "bytes \<Rightarrow> nat \<Rightarrow> SRVMsgNameLookup \<Rightarrow> SRVMsgNameLookup res" where
  "NameLookup_decode buf data m =
     rbind (get16 buf data) (\<lambda>t.
     let index = 2 in
     rbind (get16 buf (data + index)) (\<lambda>count.
     let index = index + 2 in
     rbind (c_str_at buf (data + index) SEC_NAME_SIZE) (\<lambda>prefix.
     Inr (m\<lparr>nm_request := \<lparr>nq_type = set_low16 (nq_type (nm_request m)) t,
                            nq_count = count, nq_prefix = prefix\<rparr>\<rparr>))))"

definition NameLookup_process :: "SRVMsgNameLookup \<Rightarrow> SRVMsgNameLookup \<times> effect" where
  "NameLookup_process m =
     (m, LookupAsync (nq_prefix (nm_request m)) (nq_count (nm_request m)))"

definition NameLookup_handler ::
    "SRVMsgNameLookup \<Rightarrow> bytes list \<Rightarrow> SRVMsgNameLookup \<times> effect" where
  "NameLookup_handler m names =
     (m\<lparr>nm_response := Some (new_NameLookupResponse (word_of_nat (length names)) names)\<rparr>,
      PostWrite)"

definition NameLookup_encode ::
    "SRVMsgNameLookup \<Rightarrow> bytes \<Rightarrow> (size_t \<times> bytes) res" where
  "NameLookup_encode m buf =
     (case nm_response m of
        None \<Rightarrow> Inl NullPointer
      | Some r \<Rightarrow>
          let s = nr_size r in
          rbind (puts buf 0 ([le_encode 4 (unat s), le16 (nr_count r)]
                             @ map c_str (nr_security_names r)))
            (\<lambda>b. Inr (s, b)))"

section \<open>The contract of an encoder\<close>

text \<open>
  \<^verbatim>\<open>Message::encode\<close> as \<^verbatim>\<open>Connection::write\<close> uses it: it lays down one frame at the
  start of the buffer, returns the frame's length, and leaves the rest of the buffer alone;
  a frame longer than the buffer is written past its end.
\<close>

locale response_encoder =
  fixes encode :: "'m \<Rightarrow> bytes \<Rightarrow> (size_t \<times> bytes) res"
    and ready :: "'m \<Rightarrow> bool"
    and frame :: "'m \<Rightarrow> bytes"
  assumes encode_fits: "ready m \<Longrightarrow> length (frame m) \<le> length buf \<Longrightarrow>
      encode m buf =
        Inr (word_of_nat (length (frame m)), frame m @ drop (length (frame m)) buf)"
    and encode_overflow: "ready m \<Longrightarrow> length buf < length (frame m) \<Longrightarrow>
      encode m buf = Inl OutOfBoundsWrite"
    and frame_small: "ready m \<Longrightarrow> length (frame m) < 2 ^ 32"
begin

lemma encode_length:
  assumes "ready m" and "encode m buf = Inr (n, b)"
  shows "length b = length buf"
  using assms encode_fits [of m buf] encode_overflow [of m buf]
  by (cases "length (frame m) \<le> length buf") auto

text \<open>What the connection hands to the socket is the frame, nothing more and nothing less.\<close>

lemma encode_sends_frame:
  assumes "ready m" and "encode m buf = Inr (n, b)"
  shows "read_at b 0 (unat n) = Inr (frame m)"
proof -
  have fits: "length (frame m) \<le> length buf"
    using assms encode_overflow [of m buf] by (cases "length buf < length (frame m)") auto
  have "length (frame m) < 2 ^ 64" using frame_small [OF assms(1)] by simp
  then have "unat n = length (frame m)"
    using assms encode_fits [OF assms(1) fits] by (auto simp: unat_of_nat)
  then show ?thesis
    using assms encode_fits [OF assms(1) fits] by (auto simp: read_at_def)
qed

lemma encode_ok_iff:
  assumes "ready m"
  shows "(\<exists>n b. encode m buf = Inr (n, b)) \<longleftrightarrow> length (frame m) \<le> length buf"
proof (cases "length (frame m) \<le> length buf")
  case True
  then show ?thesis using encode_fits [OF assms] by simp
next
  case False
  then show ?thesis using encode_overflow [OF assms, of buf] by simp
qed

end

subsection \<open>Attach\<close>

definition attach_ready :: "SrvAttach \<Rightarrow> bool" where
  "attach_ready m \<longleftrightarrow> (\<exists>v f. sa_response m = Some (new_AttachResponse v f))"

definition attach_frame :: "SrvAttach \<Rightarrow> bytes" where
  "attach_frame m =
     (case sa_response m of
        None \<Rightarrow> []
      | Some r \<Rightarrow> le16 8 @ le16 (ar_version_revision r) @ le32 (ar_server_features r))"

interpretation attach_enc: response_encoder SrvAttach_encode attach_ready attach_frame
  by unfold_locales
     (auto simp: attach_ready_def attach_frame_def SrvAttach_encode_def new_AttachResponse_def
        puts_start)

subsection \<open>Get by name\<close>

text \<open>
  Ready to be encoded: the response came from the completion handler, a security's blob is
  live and as long as \<^verbatim>\<open>blobSize\<close> says, and the sizes are those of an object that exists.
\<close>

definition blob_live :: "heap \<Rightarrow> Security \<Rightarrow> bytes \<Rightarrow> bool" where
  "blob_live h sec blob \<longleftrightarrow>
     h (sec_blob sec) = Some blob \<and> length blob < 2 ^ 30 \<and> length (sec_name sec) < 2 ^ 30
     \<and> sec_blobSize sec = word_of_nat (length blob)"

definition gbn_ready :: "heap \<Rightarrow> SrvMsgGetByName \<Rightarrow> bool" where
  "gbn_ready h m \<longleftrightarrow>
     (\<exists>security m'. GetByName_handler m' security = Inr (m, PostWrite)
        \<and> (\<forall>sec. security = Some sec \<longrightarrow> (\<exists>blob. blob_live h sec blob)))"

definition success_frame :: "Security \<Rightarrow> bytes \<Rightarrow> bytes" where
  "success_frame sec blob =
     le_encode 4 (6 + (length (sec_name sec) + RESPONSE_FIELD_SIZE) + length blob)
     @ le16 GBN_SUCCESS @ concat (security_fields sec) @ blob"

definition error_frame :: bytes where
  "error_frame = le_encode 4 8 @ le16 GBN_ERROR @ le16 0"

definition gbn_frame :: "heap \<Rightarrow> SrvMsgGetByName \<Rightarrow> bytes" where
  "gbn_frame h m =
     (case gm_response m of
        None \<Rightarrow> []
      | Some r \<Rightarrow>
          (case gr_sec r of
             None \<Rightarrow> error_frame
           | Some sec \<Rightarrow> success_frame sec (case h (sec_blob sec) of None \<Rightarrow> [] | Some b \<Rightarrow> b)))"

lemma length_security_fields:
  "length (concat (security_fields sec)) = length (sec_name sec) + RESPONSE_FIELD_SIZE"
  by (simp add: security_fields_def RESPONSE_FIELD_SIZE_def)

lemma length_success_frame:
  "length (success_frame sec blob) =
     6 + (length (sec_name sec) + RESPONSE_FIELD_SIZE) + length blob"
  by (simp add: success_frame_def length_security_fields)

lemma length_error_frame: "length error_frame = 8"
  by (simp add: error_frame_def)

lemma scast_blob_size:
  assumes "n < 2 ^ 30"
  shows "(scast (word_of_nat n :: cint) :: size_t) = word_of_nat n"
proof -
  have "sint (word_of_nat n :: cint) = int n"
    using assms by (simp add: signed_of_nat signed_take_bit_int_eq_self)
  then show ?thesis
    by (simp add: scast_eq)
qed

text \<open>The size the response computes is the length of the frame, never wrapped around.\<close>

lemma response_size_is_frame_size:
  assumes "n < 2 ^ 30" and "k < 2 ^ 30"
  shows "4 + 2 + (word_of_nat n + word_of_nat RESPONSE_FIELD_SIZE)
           + (scast (word_of_nat k :: cint) :: size_t) =
         word_of_nat (6 + (n + RESPONSE_FIELD_SIZE) + k)"
  by (simp add: scast_blob_size [OF assms(2)])

lemma le_encode_word64:
  "n < 2 ^ 64 \<Longrightarrow> le_encode k (unat (word_of_nat n :: size_t)) = le_encode k n"
  by (simp add: unat_of_nat)

lemma unat_size_of_nat: "n < 2 ^ 64 \<Longrightarrow> unat (word_of_nat n :: size_t) = n"
  by (simp add: unat_of_nat)

lemma GetByName_encode_success:
  assumes r: "gm_response m = Some r" "new_GetByNameResponse GBN_SUCCESS 0 (Some sec) = Inr r"
    and live: "blob_live h sec blob"
  shows "GetByName_encode h m buf =
     (let f = success_frame sec blob in
      if length f \<le> length buf
      then Inr (word_of_nat (length f), f @ drop (length f) buf)
      else Inl OutOfBoundsWrite)"
proof -
  have blob: "h (sec_blob sec) = Some blob" "length blob < 2 ^ 30"
      "length (sec_name sec) < 2 ^ 30" "sec_blobSize sec = word_of_nat (length blob)"
    using live by (auto simp: blob_live_def)
  let ?n = "6 + (length (sec_name sec) + RESPONSE_FIELD_SIZE) + length blob"
  let ?fields = "[le_encode 4 (unat (word_of_nat ?n :: size_t)), le16 GBN_SUCCESS]
                 @ security_fields sec"
  have resp: "gr_status r = GBN_SUCCESS" "gr_sec r = Some sec"
      "gr_size r = 4 + 2 + (word_of_nat (length (sec_name sec)) + word_of_nat RESPONSE_FIELD_SIZE)"
    using r(2) by (auto simp: new_GetByNameResponse_def GBN_ERROR_def GBN_SUCCESS_def Let_def)
  have size: "gr_size r + scast (sec_blobSize sec) = (word_of_nat ?n :: size_t)"
    unfolding resp(3) blob(4) by (rule response_size_is_frame_size [OF blob(3,2)])
  have n: "unat (scast (sec_blobSize sec) :: size_t) = length blob"
    unfolding blob(4) scast_blob_size [OF blob(2)] using blob(2) by (intro unat_size_of_nat) simp
  have "?n < 2 ^ 64" using blob(2,3) by (simp add: RESPONSE_FIELD_SIZE_def)
  then have sz: "unat (word_of_nat ?n :: size_t) = ?n" by (rule unat_size_of_nat)
  have fields: "concat (?fields @ [blob]) = success_frame sec blob"
    unfolding sz by (simp add: success_frame_def)
  have "GetByName_encode h m buf =
      rbind (puts buf 0 (?fields @ [blob])) (\<lambda>b. Inr (word_of_nat ?n, b))"
    unfolding GetByName_encode_def puts_append [of _ _ ?fields]
    by (simp only: r(1) option.case Let_def resp(1,2) size n deref_def blob(1))
       (simp add: GBN_ERROR_def GBN_SUCCESS_def read_at_def rbind_assoc)
  then show ?thesis
    by (simp only: puts_start fields length_success_frame Let_def rbind_if rbind_simps)
qed

lemma GetByName_encode_error:
  assumes "gm_response m = Some r" and "new_GetByNameResponse GBN_ERROR 0 None = Inr r"
  shows "GetByName_encode h m buf =
     (if length error_frame \<le> length buf
      then Inr (word_of_nat (length error_frame), error_frame @ drop (length error_frame) buf)
      else Inl OutOfBoundsWrite)"
  using assms
  by (auto simp: GetByName_encode_def new_GetByNameResponse_def puts_start error_frame_def)

text \<open>A response is ready exactly when the handler made it, for a security or for none.\<close>

lemma gbn_ready_cases:
  assumes "gbn_ready h m"
  obtains (found) sec blob r where "gm_response m = Some r" "blob_live h sec blob"
      "new_GetByNameResponse GBN_SUCCESS 0 (Some sec) = Inr r"
      "gbn_frame h m = success_frame sec blob"
    | (missing) r where "gm_response m = Some r"
      "new_GetByNameResponse GBN_ERROR 0 None = Inr r" "gbn_frame h m = error_frame"
proof -
  from assms obtain security m' where
      h: "GetByName_handler m' security = Inr (m, PostWrite)" and
      l: "\<forall>sec. security = Some sec \<longrightarrow> (\<exists>blob. blob_live h sec blob)"
    by (auto simp: gbn_ready_def)
  show thesis
  proof (cases security)
    case None
    with h obtain r where "new_GetByNameResponse GBN_ERROR 0 None = Inr r" "gm_response m = Some r"
      by (auto simp: GetByName_handler_def rbind_Inr_iff)
    then show thesis
      by (intro missing) (auto simp: gbn_frame_def new_GetByNameResponse_def)
  next
    case (Some sec)
    with l obtain blob where live: "blob_live h sec blob" by auto
    from h Some obtain r where "new_GetByNameResponse GBN_SUCCESS 0 (Some sec) = Inr r"
        "gm_response m = Some r"
      by (auto simp: GetByName_handler_def rbind_Inr_iff)
    with live show thesis
      by (intro found)
         (auto simp: gbn_frame_def new_GetByNameResponse_def GBN_SUCCESS_def GBN_ERROR_def
           blob_live_def Let_def)
  qed
qed

interpretation gbn_enc: response_encoder "GetByName_encode h" "gbn_ready h" "gbn_frame h" for h
proof
  fix m buf
  assume ready: "gbn_ready h m"
  show "length (gbn_frame h m) \<le> length buf \<Longrightarrow> GetByName_encode h m buf =
      Inr (word_of_nat (length (gbn_frame h m)), gbn_frame h m @ drop (length (gbn_frame h m)) buf)"
    using ready
    by (cases rule: gbn_ready_cases)
       (simp_all add: GetByName_encode_success GetByName_encode_error Let_def)
  show "length buf < length (gbn_frame h m) \<Longrightarrow>
      GetByName_encode h m buf = Inl OutOfBoundsWrite"
    using ready
    by (cases rule: gbn_ready_cases)
       (simp_all add: GetByName_encode_success GetByName_encode_error Let_def)
  show "length (gbn_frame h m) < 2 ^ 32"
    using ready
    by (cases rule: gbn_ready_cases)
       (auto simp: length_success_frame length_error_frame blob_live_def RESPONSE_FIELD_SIZE_def)
qed

subsection \<open>Name lookup\<close>

definition names_length :: "bytes list \<Rightarrow> nat" where
  "names_length names = length (concat (map c_str names))"

definition lookup_frame_of :: "bytes list \<Rightarrow> bytes" where
  "lookup_frame_of names =
     le_encode 4 (6 + names_length names) @ le16 (word_of_nat (length names))
     @ concat (map c_str names)"

definition lookup_ready :: "SRVMsgNameLookup \<Rightarrow> bool" where
  "lookup_ready m \<longleftrightarrow>
     (\<exists>names m'. NameLookup_handler m' names = (m, PostWrite) \<and> names_length names < 2 ^ 30)"

definition lookup_frame :: "SRVMsgNameLookup \<Rightarrow> bytes" where
  "lookup_frame m =
     (case nm_response m of None \<Rightarrow> [] | Some r \<Rightarrow> lookup_frame_of (nr_security_names r))"

lemma length_lookup_frame_of: "length (lookup_frame_of names) = 6 + names_length names"
  by (simp add: lookup_frame_of_def names_length_def)

lemma lookup_size_fold:
  "foldl (\<lambda>size security. size + (word_of_nat (length security) + 1)) (s :: size_t) names =
   s + word_of_nat (names_length names)"
  by (induction names arbitrary: s) (simp_all add: names_length_def)

lemma nr_size_new: "nr_size (new_NameLookupResponse c names) = word_of_nat (6 + names_length names)"
  by (simp add: new_NameLookupResponse_def lookup_size_fold)

lemma lookup_ready_cases:
  assumes "lookup_ready m"
  obtains names where "names_length names < 2 ^ 30" "lookup_frame m = lookup_frame_of names"
    "nm_response m = Some (new_NameLookupResponse (word_of_nat (length names)) names)"
  using assms
  by (auto simp: lookup_ready_def NameLookup_handler_def lookup_frame_def
      new_NameLookupResponse_def)

lemma NameLookup_encode_frame:
  assumes "nm_response m = Some (new_NameLookupResponse (word_of_nat (length names)) names)"
    and "names_length names < 2 ^ 30"
  shows "NameLookup_encode m buf =
     (let f = lookup_frame_of names in
      if length f \<le> length buf
      then Inr (word_of_nat (length f), f @ drop (length f) buf)
      else Inl OutOfBoundsWrite)"
proof -
  have "unat (word_of_nat (6 + names_length names) :: size_t) = 6 + names_length names"
    using assms(2) by (intro unat_size_of_nat) simp
  then have head: "concat ([le_encode 4 (unat (word_of_nat (6 + names_length names) :: size_t)),
      le16 (word_of_nat (length names))] @ map c_str names) = lookup_frame_of names"
    by (simp add: lookup_frame_of_def)
  have fields: "nr_count (new_NameLookupResponse c names) = c"
      "nr_security_names (new_NameLookupResponse c names) = names" for c
    by (simp_all add: new_NameLookupResponse_def)
  show ?thesis
    unfolding NameLookup_encode_def assms(1) option.case Let_def nr_size_new fields puts_start head
    by (simp add: length_lookup_frame_of)
qed

interpretation lookup_enc: response_encoder NameLookup_encode lookup_ready lookup_frame
proof
  fix m buf
  assume ready: "lookup_ready m"
  show "length (lookup_frame m) \<le> length buf \<Longrightarrow> NameLookup_encode m buf =
      Inr (word_of_nat (length (lookup_frame m)), lookup_frame m @ drop (length (lookup_frame m)) buf)"
    using ready by (cases rule: lookup_ready_cases) (simp_all add: NameLookup_encode_frame Let_def)
  show "length buf < length (lookup_frame m) \<Longrightarrow> NameLookup_encode m buf = Inl OutOfBoundsWrite"
    using ready by (cases rule: lookup_ready_cases) (simp_all add: NameLookup_encode_frame Let_def)
  show "length (lookup_frame m) < 2 ^ 32"
    using ready by (cases rule: lookup_ready_cases) (auto simp: length_lookup_frame_of)
qed

section \<open>Decoding well-formed requests\<close>

text \<open>
  A request laid out as the protocol has it is decoded to its fields, whatever stands before
  it in the buffer (the header and the message type) and whatever follows.
\<close>

lemma SrvAttach_decode_wire:
  assumes "c_str_ok USER_NAME_SIZE user" and "c_str_ok APP_NAME_SIZE app"
    and "length pre = data"
  shows "SrvAttach_decode (pre @ c_str user @ c_str app @ le16 v @ le16 r @ rest) data m =
    Inr (m\<lparr>sa_request := \<lparr>aq_user_name = user, aq_app_name = app, aq_version = v,
                           aq_revision = r\<rparr>\<rparr>)"
proof -
  let ?buf = "pre @ c_str user @ c_str app @ le16 v @ le16 r @ rest"
  have 1: "c_str_at ?buf data USER_NAME_SIZE = Inr user"
    using assms by (intro c_str_at_found) (auto simp: c_str_ok_def)
  have 2: "c_str_at ?buf (data + length user + 1) APP_NAME_SIZE = Inr app"
    using assms c_str_at_found [of "pre @ c_str user" "data + length user + 1" app APP_NAME_SIZE]
    by (auto simp: c_str_ok_def)
  have 3: "get16 ?buf (data + length user + 1 + length app + 1) = Inr v"
    using assms get_append(1) [of "pre @ c_str user @ c_str app"] by simp
  have 4: "get16 ?buf (data + length user + 1 + length app + 1 + 2) = Inr r"
    using assms get_append(1) [of "pre @ c_str user @ c_str app @ le16 v"] by simp
  show ?thesis by (simp only: SrvAttach_decode_def Let_def 1 2 3 4 rbind_simps)
qed

lemma GetByName_decode_wire:
  assumes "c_str_ok SEC_NAME_SIZE name" and "length pre = data"
  shows "GetByName_decode (pre @ c_str name @ rest) data m = Inr (m\<lparr>gq_security_name := name\<rparr>)"
  using assms by (simp add: GetByName_decode_def c_str_at_found c_str_ok_def)

lemma NameLookup_decode_wire:
  assumes "c_str_ok SEC_NAME_SIZE prefix" and "length pre = data" and "length ty = 2"
  shows "NameLookup_decode (pre @ ty @ le16 count @ c_str prefix @ rest) data m =
    Inr (m\<lparr>nm_request :=
        \<lparr>nq_type = set_low16 (nq_type (nm_request m)) (word_of_nat (le_decode ty)),
         nq_count = count, nq_prefix = prefix\<rparr>\<rparr>)"
proof -
  let ?buf = "pre @ ty @ le16 count @ c_str prefix @ rest"
  have 1: "get16 ?buf data = Inr (word_of_nat (le_decode ty))"
    using assms(2,3) by (simp add: get16_def read_at_append)
  have 2: "get16 ?buf (data + 2) = Inr count"
    using assms get_append(1) [of "pre @ ty"] by simp
  have 3: "c_str_at ?buf (data + (2 + 2)) SEC_NAME_SIZE = Inr prefix"
    using assms c_str_at_found [of "pre @ ty @ le16 count" "data + (2 + 2)" prefix SEC_NAME_SIZE]
    by (auto simp: c_str_ok_def)
  show ?thesis by (simp only: NameLookup_decode_def Let_def 1 2 3 rbind_simps)
qed

text \<open>
  A name of 32 bytes or more has no terminator within the bytes searched: the decoder then
  computes with a null pointer.
\<close>

lemma GetByName_decode_long:
  assumes "0 \<notin> set name" and "SEC_NAME_SIZE \<le> length name" and "length pre = data"
  shows "GetByName_decode (pre @ c_str name @ rest) data m = Inl NullPointer"
  using assms by (simp add: GetByName_decode_def c_str_at_too_long)

end
