(* ===== verification/Client_Messages.thy ===== *)
theory Client_Messages
  imports Server_Messages
begin

text \<open>
  The load-test client (\<^verbatim>\<open>client-cpp/client\<close>): its own copies of the enumerations and
  message classes, the encoding of the requests, the decoding of the responses, and the three
  operations of \<^verbatim>\<open>Client\<close>, each of which sends a request and reads the reply.

  Storage from \<^verbatim>\<open>new\<close> and automatic variables are uninitialised: \<open>junk\<close> gives the
  contents of a fresh byte block, \<open>uninit\<close> those of a fresh \<^verbatim>\<open>Security\<close>. A request is sent
  from a heap block; \<open>beyond\<close> are the bytes that happen to be readable after it, none for a
  program that keeps to its own storage.
\<close>

section \<open>Enumerations (client messages/message.h, lookup.h)\<close>

datatype cl_MessageType =
  CL_MSG_UNDEFINED | CL_MSG_ATTACH | CL_MSG_GET_BY_NAME | CL_MSG_NAME_LOOKUP

fun cl_MessageType_value :: "cl_MessageType \<Rightarrow> cint" where
  "cl_MessageType_value CL_MSG_UNDEFINED = 0"
| "cl_MessageType_value CL_MSG_ATTACH = 1"
| "cl_MessageType_value CL_MSG_GET_BY_NAME = 4"
| "cl_MessageType_value CL_MSG_NAME_LOOKUP = 11"

datatype cl_LookupType =
    CL_GET_FIRST | CL_GET_LAST | CL_GET_EQUAL | CL_GET_LESS | CL_GET_LE
  | CL_GET_GREATER | CL_GET_GE | CL_GET_NEXT | CL_GET_PREV

fun cl_LookupType_value :: "cl_LookupType \<Rightarrow> cint" where
  "cl_LookupType_value CL_GET_FIRST = 1"
| "cl_LookupType_value CL_GET_LAST = 2"
| "cl_LookupType_value CL_GET_EQUAL = 3"
| "cl_LookupType_value CL_GET_LESS = 4"
| "cl_LookupType_value CL_GET_LE = 5"
| "cl_LookupType_value CL_GET_GREATER = 6"
| "cl_LookupType_value CL_GET_GE = 7"
| "cl_LookupType_value CL_GET_NEXT = 8"
| "cl_LookupType_value CL_GET_PREV = 9"

definition CL_SEC_NAME_SIZE :: nat where "CL_SEC_NAME_SIZE = 32"

text \<open>
  \<^verbatim>\<open>new char[n]\<close> with the signed or converted length the sources compute: a length that no
  object can have throws.
\<close>

definition c_new :: "(nat \<Rightarrow> byte) \<Rightarrow> size_t \<Rightarrow> bytes res" where
  "c_new junk n = (if unat n < 2 ^ 63 then Inr (fresh_block junk (unat n)) else Inl BadAlloc)"

lemma c_new_ok: "n < 2 ^ 63 \<Longrightarrow> c_new junk (word_of_nat n) = Inr (fresh_block junk n)"
  by (simp add: c_new_def unat_of_nat)

section \<open>Attach (client messages/attach.h)\<close>

record cl_AttachRequest =
  ca_user_name :: bytes
  ca_app_name :: bytes
  ca_version :: short
  ca_revision :: short
  ca_msgType :: cint
  ca_size :: short

definition new_cl_AttachRequest ::
    "bytes \<Rightarrow> bytes \<Rightarrow> short \<Rightarrow> short \<Rightarrow> cl_AttachRequest" where
  "new_cl_AttachRequest userName appName version revision =
     \<lparr>ca_user_name = userName, ca_app_name = appName, ca_version = version,
      ca_revision = revision, ca_msgType = cl_MessageType_value CL_MSG_ATTACH,
      ca_size = word_of_nat (length userName + 1 + length appName + 1 + 2 + 2 + 4 + 2)\<rparr>"

definition cl_AttachRequest_encode :: "(nat \<Rightarrow> byte) \<Rightarrow> cl_AttachRequest \<Rightarrow> bytes res" where
  "cl_AttachRequest_encode junk a =
     rbind (c_new junk (scast (ca_size a) + 2)) (\<lambda>data.
     puts data 0
       [le16 (ca_size a), le_encode 2 (unat (ca_msgType a)), c_str (ca_user_name a),
        c_str (ca_app_name a), le16 (ca_version a), le16 (ca_revision a)])"

record cl_AttachResponse =
  cr_version_revision :: short
  cr_server_features :: cint

definition cl_AttachResponse_decode :: "bytes \<Rightarrow> cl_AttachResponse res" where
  "cl_AttachResponse_decode data =
     rbind (get16 data 0) (\<lambda>v.
     rbind (get32 data 2) (\<lambda>f.
     Inr \<lparr>cr_version_revision = v, cr_server_features = f\<rparr>))"

section \<open>Get by name (client messages/getbyname.h, security.h)\<close>

record cl_GetByNameRequest =
  cg_security_name :: bytes
  cg_size :: cint
  cg_msgType :: cint

definition new_cl_GetByNameRequest :: "bytes \<Rightarrow> cl_GetByNameRequest" where
  "new_cl_GetByNameRequest securityName =
     \<lparr>cg_security_name = securityName,
      cg_size = word_of_nat (4 + 4 + length securityName + 1),
      cg_msgType = cl_MessageType_value CL_MSG_GET_BY_NAME\<rparr>"

definition cl_GetByNameRequest_encode :: "(nat \<Rightarrow> byte) \<Rightarrow> cl_GetByNameRequest \<Rightarrow> bytes res" where
  "cl_GetByNameRequest_encode junk r =
     rbind (c_new junk (scast (cg_size r))) (\<lambda>data.
     puts data 0
       [le32 (cg_size r), le_encode 2 (unat (cg_msgType r)), c_str (cg_security_name r)])"

text \<open>The blob pointer of a \<^verbatim>\<open>Security\<close> nobody has set yet is \<open>None\<close>.\<close>

record cl_Security =
  cs_name :: bytes
  cs_type :: cint
  cs_lastTransactionId :: cint
  cs_updateCount :: cint
  cs_timeUpdated :: cint
  cs_dateCreated :: short
  cs_dbIDUpdated :: short
  cs_versionInfo :: short
  cs_blobSize :: cint
  cs_blob :: "bytes option"

definition new_cl_Security :: "cl_Security \<Rightarrow> cl_Security" where
  "new_cl_Security uninit = uninit\<lparr>cs_name := [], cs_blob := None\<rparr>"

text \<open>\<^verbatim>\<open>~Security\<close> is \<^verbatim>\<open>delete[] blob\<close>, also on a pointer nobody has set.\<close>

definition delete_cl_Security :: "cl_Security \<Rightarrow> unit res" where
  "delete_cl_Security s = (case cs_blob s of None \<Rightarrow> Inl Uninitialised | Some b \<Rightarrow> Inr ())"

record cl_GetByNameResponse =
  cgr_status :: short
  cgr_error_type :: "short option"
  cgr_sec :: cl_Security

definition cl_GetByNameResponse_decode ::
    "cl_Security \<Rightarrow> bytes \<Rightarrow> cl_GetByNameResponse res" where
  "cl_GetByNameResponse_decode uninit d =
     (let sec = new_cl_Security uninit in
      rbind (get16 d 0) (\<lambda>status.
      let p = 2 in
      if status = 0
      then rbind (get16 d p) (\<lambda>e.
           Inr \<lparr>cgr_status = status, cgr_error_type = Some e, cgr_sec = sec\<rparr>)
      else
        rbind (c_str_at d p CL_SEC_NAME_SIZE) (\<lambda>name. let p = p + length name + 1 in
        rbind (get16 d p) (\<lambda>ty. let p = p + 2 in
        rbind (get32 d p) (\<lambda>lastTransactionId. let p = p + 4 in
        rbind (get32 d p) (\<lambda>timeUpdated. let p = p + 4 in
        rbind (get32 d p) (\<lambda>updateCount. let p = p + 4 in
        rbind (get16 d p) (\<lambda>dateCreated. let p = p + 2 in
        rbind (get16 d p) (\<lambda>dbIDUpdated. let p = p + 2 in
        rbind (get16 d p) (\<lambda>versionInfo. let p = p + 2 in
        rbind (get32 d p) (\<lambda>blobSize. let p = p + 4 in
        rbind (if unat (scast blobSize :: size_t) < 2 ^ 63
               then read_at d p (unat (scast blobSize :: size_t)) else Inl BadAlloc) (\<lambda>blob.
        Inr \<lparr>cgr_status = status, cgr_error_type = None,
             cgr_sec = sec\<lparr>cs_name := name, cs_type := set_low16 (cs_type sec) ty,
               cs_lastTransactionId := lastTransactionId, cs_updateCount := updateCount,
               cs_timeUpdated := timeUpdated, cs_dateCreated := dateCreated,
               cs_dbIDUpdated := dbIDUpdated, cs_versionInfo := versionInfo,
               cs_blobSize := blobSize, cs_blob := Some blob\<rparr>\<rparr>))))))))))))"

section \<open>Name lookup (client messages/lookup.h)\<close>

record cl_NameLookupRequest =
  cn_size :: cint
  cn_type :: cint
  cn_count :: short
  cn_prefix :: bytes
  cn_msgType :: cint

definition new_cl_NameLookupRequest ::
    "cl_LookupType \<Rightarrow> short \<Rightarrow> bytes \<Rightarrow> cl_NameLookupRequest" where
  "new_cl_NameLookupRequest type count prefix =
     \<lparr>cn_size = word_of_nat (4 + 4 + 2 + 2 + length prefix + 1),
      cn_type = cl_LookupType_value type, cn_count = count, cn_prefix = prefix,
      cn_msgType = cl_MessageType_value CL_MSG_NAME_LOOKUP\<rparr>"

text \<open>
  The lookup type is copied to \<^verbatim>\<open>data\<close>, not to \<^verbatim>\<open>data + index\<close>: it lands on the size
  field, and the two bytes the server reads it from stay as the heap had them.
\<close>

definition cl_NameLookupRequest_encode ::
    "(nat \<Rightarrow> byte) \<Rightarrow> cl_NameLookupRequest \<Rightarrow> bytes res" where
  "cl_NameLookupRequest_encode junk r =
     rbind (c_new junk (scast (cn_size r))) (\<lambda>data.
     rbind (write_at data 0 (le32 (cn_size r))) (\<lambda>data. let index = 4 in
     rbind (write_at data index (le_encode 2 (unat (cn_msgType r)))) (\<lambda>data.
     let index = index + 2 in
     rbind (write_at data 0 (le_encode 2 (unat (cn_type r)))) (\<lambda>data.
     let index = index + 2 in
     rbind (write_at data index (le16 (cn_count r))) (\<lambda>data. let index = index + 2 in
     write_at data index (c_str (cn_prefix r)))))))"

record cl_NameLookupResponse =
  cnr_count :: short
  cnr_security_names :: "bytes list"

fun cl_read_names :: "nat \<Rightarrow> bytes \<Rightarrow> nat \<Rightarrow> bytes list res" where
  "cl_read_names 0 d p = Inr []"
| "cl_read_names (Suc n) d p =
     rbind (c_str_at d p CL_SEC_NAME_SIZE) (\<lambda>securityName.
     rbind (cl_read_names n d (p + length securityName + 1)) (\<lambda>names.
     Inr (securityName # names)))"

definition cl_NameLookupResponse_decode :: "bytes \<Rightarrow> cl_NameLookupResponse res" where
  "cl_NameLookupResponse_decode d =
     rbind (get16 d 0) (\<lambda>count.
     rbind (cl_read_names (nat (sint count)) d 2) (\<lambda>names.
     Inr \<lparr>cnr_count = count, cnr_security_names = names\<rparr>))"

section \<open>The client's operations (client.h)\<close>

text \<open>
  \<^verbatim>\<open>asio::read\<close> into a buffer of \<open>n\<close> bytes from the bytes still to come: all of them, or,
  at the end of the stream, as many as there are, the rest of the buffer staying as it was.
\<close>

definition asio_read :: "(nat \<Rightarrow> byte) \<Rightarrow> bytes \<Rightarrow> nat \<Rightarrow> bytes \<times> bytes" where
  "asio_read junk stream n =
     (take n stream @ fresh_block junk (n - length stream), drop n stream)"

text \<open>
  \<^verbatim>\<open>asio::write(socket, asio::buffer(request.encode(), request.size + sizeof(size_t)))\<close>.
\<close>

definition asio_write :: "bytes \<Rightarrow> bytes \<Rightarrow> size_t \<Rightarrow> bytes res" where
  "asio_write beyond block n = read_at (block @ beyond) 0 (unat n)"

definition Client_attach_send :: "(nat \<Rightarrow> byte) \<Rightarrow> bytes \<Rightarrow> bytes res" where
  "Client_attach_send junk beyond =
     (let a = new_cl_AttachRequest (ascii ''Rahul'') (ascii ''secdb'') 1 2 in
      rbind (cl_AttachRequest_encode junk a) (\<lambda>block.
      asio_write beyond block (scast (ca_size a) + 8)))"

definition Client_lookup_send :: "(nat \<Rightarrow> byte) \<Rightarrow> bytes \<Rightarrow> bytes \<Rightarrow> short \<Rightarrow> bytes res" where
  "Client_lookup_send junk beyond prefix count =
     (let request = new_cl_NameLookupRequest CL_GET_GE count prefix in
      rbind (cl_NameLookupRequest_encode junk request) (\<lambda>block.
      asio_write beyond block (scast (cn_size request) + 8)))"

definition Client_getSecurity_send :: "(nat \<Rightarrow> byte) \<Rightarrow> bytes \<Rightarrow> bytes \<Rightarrow> bytes res" where
  "Client_getSecurity_send junk beyond name =
     (let request = new_cl_GetByNameRequest name in
      rbind (cl_GetByNameRequest_encode junk request) (\<lambda>block.
      asio_write beyond block (scast (cg_size request) + 8)))"

text \<open>
  The replies: a size field, then as many bytes as it announces beyond itself. A size smaller
  than the field wraps around to a length no array can have. With \<open>failed\<close> the second read ended in an
  error other than the end of the stream: nothing is decoded, and the object that is returned has its
  initial fields, or is a pointer nobody has set.
\<close>

definition Client_attach_recv ::
    "bool \<Rightarrow> (nat \<Rightarrow> byte) \<Rightarrow> bytes \<Rightarrow> (cl_AttachResponse \<times> bytes) res" where
  "Client_attach_recv failed junk stream =
     (let (h, stream) = asio_read junk stream 2;
          response_size = (word_of_nat (le_decode h) :: short);
          n = (scast response_size - 2 :: size_t) in
      rbind (c_new junk n) (\<lambda>_.
      let (res_buf, stream) = asio_read junk stream (unat n) in
      if failed
      then Inr (\<lparr>cr_version_revision = 269,
                 cr_server_features = word_of_nat (le_decode (fresh_block junk 4))\<rparr>, stream)
      else rbind (cl_AttachResponse_decode res_buf) (\<lambda>res. Inr (res, stream))))"

definition Client_lookup_recv ::
    "bool \<Rightarrow> (nat \<Rightarrow> byte) \<Rightarrow> bytes \<Rightarrow> (bytes list \<times> bytes) res" where
  "Client_lookup_recv failed junk stream =
     (let (h, stream) = asio_read junk stream 4;
          response_size = (word_of_nat (le_decode h) :: cint);
          n = (scast response_size - 4 :: size_t) in
      rbind (c_new junk n) (\<lambda>_.
      let (res_buf, stream) = asio_read junk stream (unat n) in
      if failed then Inl Uninitialised
      else rbind (cl_NameLookupResponse_decode res_buf) (\<lambda>res.
      Inr (cnr_security_names res, stream))))"

definition Client_getSecurity_recv ::
    "bool \<Rightarrow> (nat \<Rightarrow> byte) \<Rightarrow> cl_Security \<Rightarrow> bytes \<Rightarrow> (cl_Security \<times> bytes) res" where
  "Client_getSecurity_recv failed junk uninit stream =
     (let (h, stream) = asio_read junk stream 4;
          response_size = (word_of_nat (le_decode h) :: cint);
          n = (scast response_size - 4 :: size_t) in
      rbind (c_new junk n) (\<lambda>_.
      let (res_buf, stream) = asio_read junk stream (unat n) in
      if failed then Inl Uninitialised
      else rbind (cl_GetByNameResponse_decode uninit res_buf) (\<lambda>res.
      Inr (cgr_sec res, stream))))"

section \<open>Layout of the requests\<close>

lemma scast_small:
  assumes "n < 2 ^ 15"
  shows "(scast (word_of_nat n :: short) :: size_t) = word_of_nat n"
proof -
  have "sint (word_of_nat n :: short) = int n"
    using assms by (simp add: signed_of_nat signed_take_bit_int_eq_self)
  then show ?thesis by (simp add: scast_eq)
qed

lemma type_bytes:
  "le_encode 2 (unat (1 :: cint)) = le16 1" "le_encode 2 (unat (4 :: cint)) = le16 4"
  "le_encode 2 (unat (11 :: cint)) = le16 11"
  by (simp_all add: le16_def)

text \<open>Filling the front of a fresh block leaves the rest of it uninitialised.\<close>

lemma fill_fresh_block:
  assumes "length (concat cs) \<le> n" and "n < 2 ^ 63"
  shows "rbind (c_new junk (word_of_nat n)) (\<lambda>d. puts d 0 cs) =
         Inr (concat cs @ map junk [length (concat cs)..<n])"
  using assms by (simp add: c_new_ok puts_start fresh_block_def drop_map drop_upt)

text \<open>
  The attach request: header, type, the two names, version and revision; four bytes of the
  block stay uninitialised.
\<close>

lemma cl_AttachRequest_encode_layout:
  assumes "length user + length app < 2 ^ 14"
  shows "cl_AttachRequest_encode junk (new_cl_AttachRequest user app v r) =
     Inr (le16 (word_of_nat (length user + length app + 12)) @ le16 1 @ c_str user @ c_str app
          @ le16 v @ le16 r
          @ map junk [length user + length app + 10..<length user + length app + 14])"
proof -
  define n where "n = length user + length app + 12"
  let ?a = "new_cl_AttachRequest user app v r"
  have n: "n < 2 ^ 15" using assms by (simp add: n_def)
  have fields: "ca_size ?a = word_of_nat n" "ca_msgType ?a = 1" "ca_user_name ?a = user"
      "ca_app_name ?a = app" "ca_version ?a = v" "ca_revision ?a = r"
    by (simp_all add: new_cl_AttachRequest_def n_def ac_simps)
  have size: "(scast (word_of_nat n :: short) + 2 :: size_t) = word_of_nat (n + 2)"
    using n by (simp add: scast_small)
  let ?cs = "[le16 (word_of_nat n), le_encode 2 (unat (1 :: cint)), c_str user, c_str app,
              le16 v, le16 r]"
  have len: "length (concat ?cs) = n - 2" by (simp add: n_def)
  have "rbind (c_new junk (word_of_nat (n + 2))) (\<lambda>d. puts d 0 ?cs) =
      Inr (concat ?cs @ map junk [length (concat ?cs)..<n + 2])"
    by (rule fill_fresh_block) (use n len in simp_all)
  then show ?thesis
    unfolding cl_AttachRequest_encode_def fields size len type_bytes
    by (simp add: n_def ac_simps)
qed

lemma cl_GetByNameRequest_encode_layout:
  assumes "length name < 2 ^ 29"
  shows "cl_GetByNameRequest_encode junk (new_cl_GetByNameRequest name) =
     Inr (le32 (word_of_nat (length name + 9)) @ le16 4 @ c_str name
          @ map junk [length name + 7..<length name + 9])"
proof -
  define n where "n = length name + 9"
  let ?r = "new_cl_GetByNameRequest name"
  have n: "n < 2 ^ 30" using assms by (simp add: n_def)
  have fields: "cg_size ?r = word_of_nat n" "cg_msgType ?r = 4" "cg_security_name ?r = name"
    by (simp_all add: new_cl_GetByNameRequest_def n_def ac_simps)
  let ?cs = "[le32 (word_of_nat n), le_encode 2 (unat (4 :: cint)), c_str name]"
  have len: "length (concat ?cs) = n - 2" by (simp add: n_def)
  have "rbind (c_new junk (word_of_nat n)) (\<lambda>d. puts d 0 ?cs) =
      Inr (concat ?cs @ map junk [length (concat ?cs)..<n])"
    by (rule fill_fresh_block) (use n len in simp_all)
  then show ?thesis
    unfolding cl_GetByNameRequest_encode_def fields scast_blob_size [OF n] len
      type_bytes
    by (simp add: n_def ac_simps)
qed

text \<open>
  The lookup request: the low half of the size field is overwritten by the lookup type, the
  type field is uninitialised, count and prefix are where the server looks for them.
\<close>

lemma cl_NameLookupRequest_encode_layout:
  assumes "length prefix < 2 ^ 29"
  shows "cl_NameLookupRequest_encode junk (new_cl_NameLookupRequest t count prefix) =
     Inr (le_encode 2 (unat (cl_LookupType_value t))
          @ drop 2 (le32 (word_of_nat (length prefix + 13))) @ le16 11
          @ [junk 6, junk 7] @ le16 count @ c_str prefix
          @ map junk [length prefix + 11..<length prefix + 13])"
proof -
  define n where "n = length prefix + 13"
  let ?r = "new_cl_NameLookupRequest t count prefix"
  have n: "n < 2 ^ 30" using assms by (simp add: n_def)
  have fields: "cn_size ?r = word_of_nat n" "cn_msgType ?r = 11"
      "cn_type ?r = cl_LookupType_value t" "cn_count ?r = count" "cn_prefix ?r = prefix"
    by (simp_all add: new_cl_NameLookupRequest_def n_def ac_simps)
  have alloc: "c_new junk (word_of_nat n) = Inr (fresh_block junk n)"
    using n by (intro c_new_ok) simp
  let ?t = "le_encode 2 (unat (cl_LookupType_value t))"
  let ?front = "?t @ drop 2 (le32 (word_of_nat n)) @ le_encode 2 (unat (11 :: cint))
                @ [junk 6, junk 7]"
  have rest: "drop 6 (fresh_block junk n) = [junk 6, junk 7] @ map junk [8..<n]"
  proof -
    have "[0..<n] = [0..<6] @ [6..<8] @ [8..<n]"
      using upt_add_eq_append [of 0 6 "n - 6"] upt_add_eq_append [of 6 8 "n - 8"]
      by (simp add: n_def add.commute)
    moreover have "[6..<8] = [6, 7 :: nat]" by (simp add: upt_rec)
    ultimately show ?thesis by (simp add: fresh_block_def)
  qed
  have head: "rbind (write_at (fresh_block junk n) 0 (le32 (word_of_nat n)))
      (\<lambda>d. write_at d 4 (le_encode 2 (unat (11 :: cint)))) =
      Inr (le32 (word_of_nat n) @ le_encode 2 (unat (11 :: cint)) @ drop 6 (fresh_block junk n))"
    using puts_start [of "fresh_block junk n" "[le32 (word_of_nat n), le_encode 2 (unat (11 :: cint))]"]
    by (simp add: puts.simps(2) n_def)
  have type: "write_at (le32 (word_of_nat n) @ le_encode 2 (unat (11 :: cint))
      @ drop 6 (fresh_block junk n)) 0 ?t = Inr (?front @ map junk [8..<n])"
    using write_at_append [of "[]" 0 "take 2 (le32 (word_of_nat n))" ?t
        "drop 2 (le32 (word_of_nat n)) @ le_encode 2 (unat (11 :: cint)) @ drop 6 (fresh_block junk n)"]
    by (simp only: append_assoc [symmetric] append_take_drop_id) (simp add: rest)
  have tail: "puts (?front @ map junk [8..<n]) 8 [le16 count, c_str prefix] =
      Inr (?front @ le16 count @ c_str prefix @ map junk [n - 2..<n])"
    by (subst puts_after) (simp_all add: n_def drop_map drop_upt)
  have "cl_NameLookupRequest_encode junk ?r =
      rbind (rbind (write_at (fresh_block junk n) 0 (le32 (word_of_nat n)))
              (\<lambda>d. write_at d 4 (le_encode 2 (unat (11 :: cint)))))
        (\<lambda>d. rbind (write_at d 0 ?t) (\<lambda>d. puts d 8 [le16 count, c_str prefix]))"
    unfolding cl_NameLookupRequest_encode_def fields scast_blob_size [OF n] alloc
    by (simp add: Let_def rbind_assoc puts.simps(2) rbind_Inr_right)
  also have "\<dots> = Inr (?front @ le16 count @ c_str prefix @ map junk [n - 2..<n])"
    unfolding head rbind_simps type tail ..
  finally show ?thesis unfolding type_bytes by (simp add: n_def ac_simps)
qed

section \<open>Reading the replies\<close>

lemma asio_read_exact: "length xs = n \<Longrightarrow> asio_read junk (xs @ rest) n = (xs, rest)"
  by (simp add: asio_read_def fresh_block_def)

lemma cl_read_names_wire:
  assumes "list_all (c_str_ok CL_SEC_NAME_SIZE) names" and "length pre = p"
  shows "cl_read_names (length names) (pre @ concat (map c_str names) @ rest) p = Inr names"
  using assms
proof (induction names arbitrary: pre p)
  case Nil
  then show ?case by simp
next
  case (Cons s names)
  have "c_str_at (pre @ c_str s @ concat (map c_str names) @ rest) p CL_SEC_NAME_SIZE = Inr s"
    using Cons.prems by (intro c_str_at_found) (auto simp: c_str_ok_def)
  moreover have "cl_read_names (length names)
      ((pre @ c_str s) @ concat (map c_str names) @ rest) (p + length s + 1) = Inr names"
    using Cons.prems by (intro Cons.IH) auto
  ultimately show ?case by simp
qed

text \<open>
  A response frame's size field, read back as the sources do, announces exactly the bytes that
  follow it.
\<close>

lemma recv_size32:
  assumes "n < 2 ^ 30" and "4 \<le> n"
  shows "(scast (word_of_nat (le_decode (le_encode 4 n)) :: cint) - 4 :: size_t) =
         word_of_nat (n - 4)"
proof -
  have "le_decode (le_encode 4 n) = n" using assms by (simp add: le_decode_encode)
  then show ?thesis using assms by (simp add: scast_blob_size of_nat_diff)
qed

lemma c_new_recv: "n < 2 ^ 30 \<Longrightarrow> c_new junk (word_of_nat (n - 4)) = Inr (fresh_block junk (n - 4))"
  by (rule c_new_ok) simp

lemma Client_lookup_recv_frame:
  assumes "names_length names < 2 ^ 29" and "length names < 2 ^ 15"
    and "list_all (c_str_ok CL_SEC_NAME_SIZE) names"
  shows "Client_lookup_recv False junk (lookup_frame_of names @ rest) = Inr (names, rest)"
proof -
  let ?n = "6 + names_length names"
  let ?body = "le16 (word_of_nat (length names)) @ concat (map c_str names)"
  have n: "?n < 2 ^ 30" "4 \<le> ?n" using assms(1) by simp_all
  have len: "unat (word_of_nat (?n - 4) :: size_t) = ?n - 4"
    by (rule unat_size_of_nat) (use n in simp)
  have lb: "length ?body = ?n - 4" by (simp add: names_length_def)
  have frame: "lookup_frame_of names @ rest = le_encode 4 ?n @ ?body @ rest"
    by (simp add: lookup_frame_of_def)
  have "sint (word_of_nat (length names) :: short) = int (length names)"
    using assms(2) by (simp add: signed_of_nat signed_take_bit_int_eq_self)
  then have count: "nat (sint (word_of_nat (length names) :: short)) = length names" by simp
  have dec: "cl_NameLookupResponse_decode ?body =
      Inr \<lparr>cnr_count = word_of_nat (length names), cnr_security_names = names\<rparr>"
    using cl_read_names_wire [OF assms(3), of "le16 (word_of_nat (length names))" 2 "[]"]
    by (simp add: cl_NameLookupResponse_decode_def get_start count)
  show ?thesis
    unfolding Client_lookup_recv_def frame
    by (simp only: asio_read_exact [OF length_le_encode] Let_def prod.case recv_size32 [OF n]
        c_new_recv [OF n(1)] rbind_simps if_False len asio_read_exact [OF lb] dec
        cl_NameLookupResponse.select_convs)
qed

text \<open>
  The client's view of a security the server sent: every field but the type, of which two
  bytes travel and the two others are those of the uninitialised object.
\<close>

definition security_view :: "cl_Security \<Rightarrow> Security \<Rightarrow> bytes \<Rightarrow> cl_Security" where
  "security_view uninit sec blob =
     \<lparr>cs_name = sec_name sec, cs_type = set_low16 (cs_type uninit) (ucast (sec_type sec)),
      cs_lastTransactionId = sec_lastTransactionId sec, cs_updateCount = sec_updateCount sec,
      cs_timeUpdated = sec_timeUpdated sec, cs_dateCreated = sec_dateCreated sec,
      cs_dbIDUpdated = sec_dbIDUpdated sec, cs_versionInfo = sec_versionInfo sec,
      cs_blobSize = sec_blobSize sec, cs_blob = Some blob\<rparr>"

lemma le_encode2_cint: "le_encode 2 (unat (w :: cint)) = le16 (ucast w)"
proof -
  have "le_encode 2 v = le_encode 2 (v mod 65536)" for v
  proof -
    have "v mod 65536 mod 256 = v mod 256" by (simp add: mod_mod_cancel)
    moreover have "(v mod 65536) div 256 mod 256 = v div 256 mod 256"
      using mod_mult2_eq [of v 256 256] by simp
    ultimately have "(word_of_nat v :: byte) = word_of_nat (v mod 65536)"
        "(word_of_nat (v div 256) :: byte) = word_of_nat (v mod 65536 div 256)"
      by (simp_all add: word_unat_eq_iff unat_byte_of_nat)
    then show ?thesis by (simp add: numeral_2_eq_2)
  qed
  then show ?thesis
    by (simp add: le16_def unsigned_ucast_eq take_bit_eq_mod)
qed

lemma cl_GetByNameResponse_decode_wire:
  assumes name: "c_str_ok CL_SEC_NAME_SIZE (sec_name sec)"
    and blob: "length blob < 2 ^ 30" "sec_blobSize sec = word_of_nat (length blob)"
  shows "cl_GetByNameResponse_decode uninit
      (le16 GBN_SUCCESS @ concat (security_fields sec) @ blob) =
    Inr \<lparr>cgr_status = GBN_SUCCESS, cgr_error_type = None,
         cgr_sec = security_view uninit sec blob\<rparr>"
proof -
  let ?d = "le16 GBN_SUCCESS @ concat (security_fields sec) @ blob"
  let ?k = "length (sec_name sec)"
  let ?p1 = "le16 GBN_SUCCESS @ c_str (sec_name sec)"
  let ?p2 = "?p1 @ le16 (ucast (sec_type sec))"
  let ?p3 = "?p2 @ le32 (sec_lastTransactionId sec)"
  let ?p4 = "?p3 @ le32 (sec_timeUpdated sec)"
  let ?p5 = "?p4 @ le32 (sec_updateCount sec)"
  let ?p6 = "?p5 @ le16 (sec_dateCreated sec)"
  let ?p7 = "?p6 @ le16 (sec_dbIDUpdated sec)"
  let ?p8 = "?p7 @ le16 (sec_versionInfo sec)"
  let ?p9 = "?p8 @ le32 (sec_blobSize sec)"
  note fields = security_fields_def le_encode2_cint
  have size: "unat (scast (sec_blobSize sec) :: size_t) = length blob"
    unfolding blob(2) scast_blob_size [OF blob(1)] using blob(1) by (intro unat_size_of_nat) simp
  have 0: "get16 ?d 0 = Inr GBN_SUCCESS" by (rule get_start)
  have 1: "c_str_at ?d 2 CL_SEC_NAME_SIZE = Inr (sec_name sec)"
    using name c_str_at_found [of "le16 GBN_SUCCESS" 2 "sec_name sec"]
    by (simp add: fields c_str_ok_def)
  have 2: "get16 ?d (2 + ?k + 1) = Inr (ucast (sec_type sec))"
    using get_append(1) [of ?p1] by (simp add: fields)
  have 3: "get32 ?d (2 + ?k + 1 + 2) = Inr (sec_lastTransactionId sec)"
    using get_append(2) [of ?p2] by (simp add: fields)
  have 4: "get32 ?d (2 + ?k + 1 + 2 + 4) = Inr (sec_timeUpdated sec)"
    using get_append(2) [of ?p3] by (simp add: fields)
  have 5: "get32 ?d (2 + ?k + 1 + 2 + 4 + 4) = Inr (sec_updateCount sec)"
    using get_append(2) [of ?p4] by (simp add: fields)
  have 6: "get16 ?d (2 + ?k + 1 + 2 + 4 + 4 + 4) = Inr (sec_dateCreated sec)"
    using get_append(1) [of ?p5] by (simp add: fields)
  have 7: "get16 ?d (2 + ?k + 1 + 2 + 4 + 4 + 4 + 2) = Inr (sec_dbIDUpdated sec)"
    using get_append(1) [of ?p6] by (simp add: fields)
  have 8: "get16 ?d (2 + ?k + 1 + 2 + 4 + 4 + 4 + 2 + 2) = Inr (sec_versionInfo sec)"
    using get_append(1) [of ?p7] by (simp add: fields)
  have 9: "get32 ?d (2 + ?k + 1 + 2 + 4 + 4 + 4 + 2 + 2 + 2) = Inr (sec_blobSize sec)"
    using get_append(2) [of ?p8] by (simp add: fields)
  have 10: "read_at ?d (2 + ?k + 1 + 2 + 4 + 4 + 4 + 2 + 2 + 2 + 4) (length blob) = Inr blob"
    using read_at_append [of ?p9 _ blob _ "[]"] by (simp add: fields)
  have "length blob < 2 ^ 63" using blob(1) by simp
  then show ?thesis
    unfolding cl_GetByNameResponse_decode_def Let_def
    by (simp only: 0 1 2 3 4 5 6 7 8 9 10 rbind_simps size if_True)
       (simp add: GBN_SUCCESS_def security_view_def new_cl_Security_def)
qed

lemma Client_getSecurity_recv_success:
  assumes "c_str_ok CL_SEC_NAME_SIZE (sec_name sec)"
    and "length blob < 2 ^ 29" and "sec_blobSize sec = word_of_nat (length blob)"
  shows "Client_getSecurity_recv False junk uninit (success_frame sec blob @ rest) =
    Inr (security_view uninit sec blob, rest)"
proof -
  let ?n = "6 + (length (sec_name sec) + RESPONSE_FIELD_SIZE) + length blob"
  let ?body = "le16 GBN_SUCCESS @ concat (security_fields sec) @ blob"
  have n: "?n < 2 ^ 30" "4 \<le> ?n"
    using assms by (simp_all add: c_str_ok_def CL_SEC_NAME_SIZE_def RESPONSE_FIELD_SIZE_def)
  have len: "unat (word_of_nat (?n - 4) :: size_t) = ?n - 4"
    by (rule unat_size_of_nat) (use n in simp)
  have lb: "length ?body = ?n - 4" by (simp add: length_security_fields [simplified])
  have frame: "success_frame sec blob @ rest = le_encode 4 ?n @ ?body @ rest"
    by (simp add: success_frame_def)
  have b: "length blob < 2 ^ 30" using assms(2) by simp
  show ?thesis
    unfolding Client_getSecurity_recv_def frame
    by (simp only: asio_read_exact [OF length_le_encode] Let_def prod.case recv_size32 [OF n]
        c_new_recv [OF n(1)] rbind_simps if_False len asio_read_exact [OF lb]
        cl_GetByNameResponse_decode_wire [OF assms(1) b assms(3)]
        cl_GetByNameResponse.select_convs)
qed

lemma Client_getSecurity_recv_error:
  "Client_getSecurity_recv False junk uninit (error_frame @ rest) = Inr (new_cl_Security uninit, rest)"
proof -
  have frame: "error_frame @ rest = le_encode 4 8 @ (le16 GBN_ERROR @ le16 0) @ rest"
    by (simp add: error_frame_def)
  have size: "(scast (word_of_nat (le_decode (le_encode 4 8)) :: cint) - 4 :: size_t) = 4"
    using recv_size32 [of 8] by simp
  have body: "length (le16 GBN_ERROR @ le16 0) = unat (4 :: size_t)" by simp
  have new: "c_new junk 4 = Inr (fresh_block junk 4)" using c_new_ok [of 4 junk] by simp
  have err: "get16 (le16 GBN_ERROR @ le16 0) 0 = Inr GBN_ERROR"
      "get16 (le16 GBN_ERROR @ le16 0) 2 = Inr 0"
    using get_start(1) [of GBN_ERROR "le16 0"] get_append(1) [of "le16 GBN_ERROR" 2 0 "[]"]
    by simp_all
  have dec: "cl_GetByNameResponse_decode uninit (le16 GBN_ERROR @ le16 0) =
      Inr \<lparr>cgr_status = GBN_ERROR, cgr_error_type = Some 0, cgr_sec = new_cl_Security uninit\<rparr>"
    unfolding cl_GetByNameResponse_decode_def Let_def err rbind_simps
    by (simp add: GBN_ERROR_def)
  show ?thesis
    unfolding Client_getSecurity_recv_def frame
    by (simp only: asio_read_exact [OF length_le_encode] Let_def prod.case size new rbind_simps if_False
        asio_read_exact [OF body] dec cl_GetByNameResponse.select_convs)
qed

lemma Client_attach_recv_frame:
  "Client_attach_recv False junk ((le16 8 @ le16 v @ le32 f) @ rest) =
   Inr (\<lparr>cr_version_revision = v, cr_server_features = f\<rparr>, rest)"
proof -
  have size: "(scast (word_of_nat (le_decode (le16 8)) :: short) - 2 :: size_t) = 6" by simp
  have body: "length (le16 v @ le32 f) = unat (6 :: size_t)" by simp
  have new: "c_new junk 6 = Inr (fresh_block junk 6)" using c_new_ok [of 6 junk] by simp
  have dec: "cl_AttachResponse_decode (le16 v @ le32 f) =
      Inr \<lparr>cr_version_revision = v, cr_server_features = f\<rparr>"
    using get_append(2) [of "le16 v" 2 f "[]"]
    by (simp add: cl_AttachResponse_decode_def get_start)
  have frame: "(le16 8 @ le16 v @ le32 f) @ rest = le16 8 @ (le16 v @ le32 f) @ rest" by simp
  show ?thesis
    unfolding Client_attach_recv_def frame
    by (simp only: asio_read_exact [OF length_le(1)] Let_def prod.case size new rbind_simps if_False
        asio_read_exact [OF body] dec)
qed

end
