(* ===== verification/Msg_Processor.thy ===== *)
theory Msg_Processor
  imports Server_Messages
begin

text \<open>
  \<^verbatim>\<open>middleware-cpp/server/protocol/msg_processor.h\<close>: one object of each message class and a
  pointer to the one that the last decoded message selected.
\<close>

datatype msg_ptr = AttachMsg | GetByNameMsg | LookupMsg

record MsgProcessor =
  mp_type :: cint
  mp_msg :: "msg_ptr option"
  mp_attachMsg :: SrvAttach
  mp_lookupMsg :: SRVMsgNameLookup
  mp_getByNameMsg :: SrvMsgGetByName

definition new_MsgProcessor :: MsgProcessor where
  "new_MsgProcessor =
     \<lparr>mp_type = MessageType_value SRV_MSG_UNDEFINED, mp_msg = None,
      mp_attachMsg = new_SrvAttach, mp_lookupMsg = new_SRVMsgNameLookup,
      mp_getByNameMsg = new_SrvMsgGetByName\<rparr>"

definition select_msg :: "cint \<Rightarrow> msg_ptr option" where
  "select_msg ty =
     (if ty = MessageType_value SRV_MSG_ATTACH then Some AttachMsg
      else if ty = MessageType_value SRV_MSG_GET_BY_NAME then Some GetByNameMsg
      else if ty = MessageType_value SRV_MSG_NAME_LOOKUP then Some LookupMsg
      else None)"

definition MsgProcessor_decode :: "bytes \<Rightarrow> nat \<Rightarrow> MsgProcessor \<Rightarrow> MsgProcessor res" where
  "MsgProcessor_decode buf data p =
     rbind (get16 buf data) (\<lambda>t.
     let ty = set_low16 (mp_type p) t;
         p = p\<lparr>mp_type := ty, mp_msg := select_msg ty\<rparr> in
     (case mp_msg p of
        None \<Rightarrow> Inr p
      | Some AttachMsg \<Rightarrow>
          rbind (SrvAttach_decode buf (data + 2) (mp_attachMsg p)) (\<lambda>m.
          Inr (p\<lparr>mp_attachMsg := m\<rparr>))
      | Some GetByNameMsg \<Rightarrow>
          rbind (GetByName_decode buf (data + 2) (mp_getByNameMsg p)) (\<lambda>m.
          Inr (p\<lparr>mp_getByNameMsg := m\<rparr>))
      | Some LookupMsg \<Rightarrow>
          rbind (NameLookup_decode buf (data + 2) (mp_lookupMsg p)) (\<lambda>m.
          Inr (p\<lparr>mp_lookupMsg := m\<rparr>))))"

definition MsgProcessor_process :: "MsgProcessor \<Rightarrow> (MsgProcessor \<times> effect) res" where
  "MsgProcessor_process p =
     (case mp_msg p of
        None \<Rightarrow> Inl NullPointer
      | Some AttachMsg \<Rightarrow>
          (let (m, e) = SrvAttach_process (mp_attachMsg p) in Inr (p\<lparr>mp_attachMsg := m\<rparr>, e))
      | Some GetByNameMsg \<Rightarrow>
          (let (m, e) = GetByName_process (mp_getByNameMsg p) in
           Inr (p\<lparr>mp_getByNameMsg := m\<rparr>, e))
      | Some LookupMsg \<Rightarrow>
          (let (m, e) = NameLookup_process (mp_lookupMsg p) in Inr (p\<lparr>mp_lookupMsg := m\<rparr>, e)))"

definition MsgProcessor_encode ::
    "heap \<Rightarrow> MsgProcessor \<Rightarrow> bytes \<Rightarrow> (size_t \<times> bytes) res" where
  "MsgProcessor_encode h p buf =
     (case mp_msg p of
        None \<Rightarrow> Inl NullPointer
      | Some AttachMsg \<Rightarrow> SrvAttach_encode (mp_attachMsg p) buf
      | Some GetByNameMsg \<Rightarrow> GetByName_encode h (mp_getByNameMsg p) buf
      | Some LookupMsg \<Rightarrow> NameLookup_encode (mp_lookupMsg p) buf)"

text \<open>
  The type field is only ever written through its two low bytes and starts at 0, so its high
  bytes stay 0: the \<^verbatim>\<open>switch\<close> sees the value that was sent.
\<close>

definition mp_inv :: "MsgProcessor \<Rightarrow> bool" where
  "mp_inv p \<longleftrightarrow> unat (mp_type p) < 2 ^ 16 \<and> mp_msg p \<in> {None, select_msg (mp_type p)}"

lemma set_low16_short:
  assumes "unat old < 2 ^ 16"
  shows "set_low16 old t = ucast t"
proof -
  have "unat old = unat (take_bit 16 old)"
    using assms by (simp add: unsigned_take_bit_eq take_bit_nat_eq_self)
  then have "old = take_bit 16 old" by (simp add: word_unat_eq_iff)
  then have "bit old n \<Longrightarrow> n < 16" for n by (metis bit_take_bit_iff)
  then show ?thesis
    by (intro bit_word_eqI) (auto simp: set_low16_def bit_simps)
qed

lemma unat_ucast_short: "unat (ucast (t :: short) :: cint) = unat t"
  by (simp add: unsigned_ucast_eq take_bit_nat_eq_self unat_bound [THEN less_le_trans])

lemma mp_inv_new: "mp_inv new_MsgProcessor"
  by (simp add: mp_inv_def new_MsgProcessor_def)

lemma mp_decode_selects:
  assumes "MsgProcessor_decode buf data p = Inr q"
  obtains t where "mp_type q = set_low16 (mp_type p) t" and "mp_msg q = select_msg (mp_type q)"
proof -
  obtain t where t: "get16 buf data = Inr t"
    using assms by (auto simp: MsgProcessor_decode_def rbind_Inr_iff)
  show thesis
  proof (cases "select_msg (set_low16 (mp_type p) t)")
    case None
    then show thesis using assms t by (intro that [of t]) (auto simp: MsgProcessor_decode_def Let_def)
  next
    case (Some m)
    then show thesis
      using assms t
      by (intro that [of t]; cases m) (auto simp: MsgProcessor_decode_def Let_def rbind_Inr_iff)
  qed
qed

lemma mp_inv_decode:
  assumes "mp_inv p" and "MsgProcessor_decode buf data p = Inr q"
  shows "mp_inv q"
proof -
  obtain t where "mp_type q = set_low16 (mp_type p) t" and "mp_msg q = select_msg (mp_type q)"
    by (rule mp_decode_selects [OF assms(2)])
  moreover have "set_low16 (mp_type p) t = ucast t"
    using assms(1) by (intro set_low16_short) (simp add: mp_inv_def)
  moreover have "unat t < 2 ^ 16" using unat_bound [of t] by simp
  ultimately show ?thesis by (simp add: mp_inv_def unat_ucast_short)
qed

lemma mp_process_frame:
  assumes "MsgProcessor_process p = Inr (q, e)"
  shows "mp_type q = mp_type p \<and> mp_msg q = mp_msg p"
  using assms
  by (auto simp: MsgProcessor_process_def Let_def split: option.splits msg_ptr.splits prod.splits)

lemma mp_inv_process: "mp_inv p \<Longrightarrow> MsgProcessor_process p = Inr (q, e) \<Longrightarrow> mp_inv q"
  using mp_process_frame [of p q e] by (simp add: mp_inv_def)

lemma mp_process_after_decode:
  assumes "MsgProcessor_decode buf data p = Inr q" and "mp_msg q \<noteq> None"
  shows "\<exists>r e. MsgProcessor_process q = Inr (r, e)"
  using assms(2)
  by (auto simp: MsgProcessor_process_def split: msg_ptr.splits prod.splits)

section \<open>Requests as they come over the wire\<close>

lemma decode_attach_message:
  assumes "mp_inv p" and "c_str_ok USER_NAME_SIZE user" and "c_str_ok APP_NAME_SIZE app"
    and "length pre = data"
  shows "MsgProcessor_decode (pre @ le16 1 @ c_str user @ c_str app @ le16 v @ le16 r @ rest) data p =
    Inr (p\<lparr>mp_type := 1, mp_msg := Some AttachMsg,
           mp_attachMsg := (mp_attachMsg p)\<lparr>sa_request :=
             \<lparr>aq_user_name = user, aq_app_name = app, aq_version = v, aq_revision = r\<rparr>\<rparr>\<rparr>)"
proof -
  let ?b = "pre @ le16 1 @ c_str user @ c_str app @ le16 v @ le16 r @ rest"
  have t: "get16 ?b data = Inr 1" using assms(4) by (simp add: get_append)
  have ty: "set_low16 (mp_type p) 1 = 1"
    using assms(1) by (subst set_low16_short) (simp_all add: mp_inv_def)
  have d: "SrvAttach_decode ?b (data + 2) m = Inr (m\<lparr>sa_request :=
      \<lparr>aq_user_name = user, aq_app_name = app, aq_version = v, aq_revision = r\<rparr>\<rparr>)" for m
    using SrvAttach_decode_wire [OF assms(2,3), of "pre @ le16 1" "data + 2"] assms(4) by simp
  show ?thesis
    unfolding MsgProcessor_decode_def t rbind_simps Let_def ty
    by (simp add: select_msg_def d del: add_2_eq_Suc')
qed

lemma decode_get_by_name_message:
  assumes "mp_inv p" and "c_str_ok SEC_NAME_SIZE name" and "length pre = data"
  shows "MsgProcessor_decode (pre @ le16 4 @ c_str name @ rest) data p =
    Inr (p\<lparr>mp_type := 4, mp_msg := Some GetByNameMsg,
           mp_getByNameMsg := (mp_getByNameMsg p)\<lparr>gq_security_name := name\<rparr>\<rparr>)"
proof -
  let ?b = "pre @ le16 4 @ c_str name @ rest"
  have t: "get16 ?b data = Inr 4" using assms(3) by (simp add: get_append)
  have ty: "set_low16 (mp_type p) 4 = 4"
    using assms(1) by (subst set_low16_short) (simp_all add: mp_inv_def)
  have d: "GetByName_decode ?b (data + 2) m = Inr (m\<lparr>gq_security_name := name\<rparr>)" for m
    using GetByName_decode_wire [OF assms(2), of "pre @ le16 4" "data + 2"] assms(3) by simp
  show ?thesis
    unfolding MsgProcessor_decode_def t rbind_simps Let_def ty
    by (simp add: select_msg_def d del: add_2_eq_Suc')
qed

lemma decode_lookup_message:
  assumes "mp_inv p" and "c_str_ok SEC_NAME_SIZE prefix" and "length pre = data"
    and "length ty = 2"
  shows "MsgProcessor_decode (pre @ le16 11 @ ty @ le16 count @ c_str prefix @ rest) data p =
    Inr (p\<lparr>mp_type := 11, mp_msg := Some LookupMsg,
           mp_lookupMsg := (mp_lookupMsg p)\<lparr>nm_request :=
             \<lparr>nq_type = set_low16 (nq_type (nm_request (mp_lookupMsg p))) (word_of_nat (le_decode ty)),
              nq_count = count, nq_prefix = prefix\<rparr>\<rparr>\<rparr>)"
proof -
  let ?b = "pre @ le16 11 @ ty @ le16 count @ c_str prefix @ rest"
  have t: "get16 ?b data = Inr 11" using assms(3) by (simp add: get_append)
  have type: "set_low16 (mp_type p) 11 = 11"
    using assms(1) by (subst set_low16_short) (simp_all add: mp_inv_def)
  have d: "NameLookup_decode ?b (data + 2) m = Inr (m\<lparr>nm_request :=
      \<lparr>nq_type = set_low16 (nq_type (nm_request m)) (word_of_nat (le_decode ty)),
       nq_count = count, nq_prefix = prefix\<rparr>\<rparr>)" for m
    using NameLookup_decode_wire [OF assms(2), of "pre @ le16 11" "data + 2" ty] assms(3,4) by simp
  show ?thesis
    unfolding MsgProcessor_decode_def t rbind_simps Let_def type
    by (simp add: select_msg_def d del: add_2_eq_Suc')
qed

end
