(* ===== verification/Ozo_Query_Builder.thy ===== *)
theory Ozo_Query_Builder
  imports Prelude
begin

text \<open>
  \<^verbatim>\<open>ozo/query_builder.h\<close> and \<^verbatim>\<open>ozo/impl/query.h\<close>: a query is a sequence of text pieces and
  parameters; \<^verbatim>\<open>text()\<close> writes it with the placeholders \<^verbatim>\<open>$1\<close>, \<^verbatim>\<open>$2\<close>, ... and
  \<^verbatim>\<open>params()\<close> collects the parameters. The heterogeneous tuples of the source are lists over
  a type \<open>'p\<close> of parameter values. The lemmas show that the placeholder written for a parameter
  is the position of its value in \<^verbatim>\<open>params()\<close>, for any number of parameters.
\<close>

section \<open>Decimal numbers\<close>

definition digit_to_string :: "nat \<Rightarrow> string" where
  "digit_to_string v = [char_of (48 + v)]"

fun to_string :: "nat \<Rightarrow> string" where
  "to_string v =
     (let divident = v mod 10; head = (v - divident) div 10 in
      (if head = 0 then '''' else to_string head) @ digit_to_string divident)"

declare to_string.simps [simp del]

text \<open>The number that a sequence of digits denotes.\<close>

definition dec_value :: "string \<Rightarrow> nat" where
  "dec_value s = foldl (\<lambda>n c. 10 * n + (of_char c - 48)) 0 s"

lemma dec_value_snoc: "dec_value (s @ [c]) = 10 * dec_value s + (of_char c - 48)"
  by (simp add: dec_value_def)

lemma of_char_digit: "d < 10 \<Longrightarrow> of_char (char_of (48 + d :: nat)) = 48 + d"
  by simp

lemma to_string_value: "dec_value (to_string v) = v"
proof (induction v rule: to_string.induct)
  case (1 v)
  let ?d = "v mod 10" and ?h = "(v - v mod 10) div 10"
  have d: "?d < 10" by simp
  have v: "10 * ?h + ?d = v" by (simp add: minus_mod_eq_mult_div)
  show ?case
  proof (cases "?h = 0")
    case True
    then have "dec_value (to_string v) = of_char (char_of (48 + ?d :: nat)) - 48"
      by (subst to_string.simps) (simp add: Let_def digit_to_string_def dec_value_def)
    then show ?thesis using v True of_char_digit [OF d] by simp
  next
    case False
    then have "dec_value (to_string v) = 10 * dec_value (to_string ?h) + ?d"
      using of_char_digit [OF d]
      by (subst to_string.simps) (simp add: Let_def digit_to_string_def dec_value_snoc)
    also have "\<dots> = v" using 1 [OF refl refl False] v by simp
    finally show ?thesis .
  qed
qed

lemma to_string_inj: "to_string a = to_string b \<Longrightarrow> a = b"
  by (metis to_string_value)

text \<open>The compile-time conversion writes what \<^verbatim>\<open>std::to_string\<close> writes.\<close>

lemma to_string_dec_digits: "to_string v = dec_digits v"
proof (induction v rule: to_string.induct)
  case (1 v)
  have h: "(v - v mod 10) div 10 = v div 10" by (simp add: minus_mod_eq_mult_div)
  show ?case
  proof (cases "v < 10")
    case True
    then show ?thesis
      by (subst to_string.simps, subst dec_digits.simps) (simp add: Let_def digit_to_string_def)
  next
    case False
    then have "v div 10 \<noteq> 0" by auto
    then show ?thesis
      using 1 [OF refl refl] False h
      by (subst to_string.simps, subst dec_digits.simps) (simp add: Let_def digit_to_string_def)
  qed
qed

lemma std_to_string_inj: "0 \<le> i \<Longrightarrow> 0 \<le> j \<Longrightarrow> std_to_string i = std_to_string j \<longleftrightarrow> i = j"
  using to_string_inj [of "nat i" "nat j"] by (auto simp: std_to_string_def to_string_dec_digits)

lemma to_string_digits: "set (to_string v) \<subseteq> {c. 48 \<le> (of_char c :: nat) \<and> of_char c < (58 :: nat)}"
proof (induction v rule: to_string.induct)
  case (1 v)
  have d: "v mod 10 < 10" by simp
  show ?case
    using 1 [OF refl refl] of_char_digit [OF d] d
    by (subst to_string.simps) (auto simp: Let_def digit_to_string_def)
qed

lemma to_string_1: "to_string (Suc 0) = ''1''" and to_string_2: "to_string (Suc (Suc 0)) = ''2''"
  by (simp_all add: to_string.simps [of "Suc 0"] to_string.simps [of "Suc (Suc 0)"] Let_def
      digit_to_string_def char_of_def bit_iff_odd)

section \<open>The builder\<close>

datatype 'p query_element = QText string | QParam 'p

record 'p query =
  q_text :: string
  q_params :: "'p list"

text \<open>
  The accumulator of \<^verbatim>\<open>text()\<close> starts as \<^verbatim>\<open>nothing_t\<close> (here \<open>None\<close>). A text piece can
  be added to it, but \<^verbatim>\<open>concat\<close> has no overload for it, so a builder whose first element is
  a parameter does not compile: the outer \<open>None\<close>.
\<close>

definition text_step ::
    "(nat \<times> string option) option \<Rightarrow> 'p query_element \<Rightarrow> (nat \<times> string option) option" where
  "text_step r e =
     (case r of
        None \<Rightarrow> None
      | Some (n, acc) \<Rightarrow>
          (case e of
             QText v \<Rightarrow> Some (n, Some (case acc of None \<Rightarrow> v | Some s \<Rightarrow> s @ v))
           | QParam _ \<Rightarrow>
               (case acc of
                  None \<Rightarrow> None
                | Some s \<Rightarrow> Some (n + 1, Some (s @ (''$'' @ to_string n))))))"

definition builder_text :: "'p query_element list \<Rightarrow> string option" where
  "builder_text elements =
     (case foldl text_step (Some (1, None)) elements of
        Some (_, Some s) \<Rightarrow> Some s
      | _ \<Rightarrow> None)"

definition params_step :: "'p list \<Rightarrow> 'p query_element \<Rightarrow> 'p list" where
  "params_step r e = (case e of QText _ \<Rightarrow> r | QParam v \<Rightarrow> r @ [v])"

definition builder_params :: "'p query_element list \<Rightarrow> 'p list" where
  "builder_params elements = foldl params_step [] elements"

definition make_query :: "string \<Rightarrow> 'p list \<Rightarrow> 'p query" where
  "make_query text params = \<lparr>q_text = text, q_params = params\<rparr>"

definition builder_build :: "'p query_element list \<Rightarrow> 'p query option" where
  "builder_build elements =
     map_option (\<lambda>t. make_query t (builder_params elements)) (builder_text elements)"

definition SQL :: "string \<Rightarrow> 'p query_element list" where
  "SQL s = [QText s]"

definition builder_plus_builder ::
    "'p query_element list \<Rightarrow> 'p query_element list \<Rightarrow> 'p query_element list" where
  "builder_plus_builder lhs rhs = lhs @ rhs"

definition builder_plus_element ::
    "'p query_element list \<Rightarrow> 'p query_element \<Rightarrow> 'p query_element list" where
  "builder_plus_element lhs e = lhs @ [e]"

definition builder_plus_value :: "'p query_element list \<Rightarrow> 'p \<Rightarrow> 'p query_element list" where
  "builder_plus_value lhs v = builder_plus_element lhs (QParam v)"

lemmas builder_defs = SQL_def builder_plus_builder_def builder_plus_element_def
  builder_plus_value_def

section \<open>What the builder writes\<close>

definition nparams :: "'p query_element list \<Rightarrow> nat" where
  "nparams es = length (filter (\<lambda>e. case e of QParam _ \<Rightarrow> True | QText _ \<Rightarrow> False) es)"

fun render :: "nat \<Rightarrow> 'p query_element list \<Rightarrow> string" where
  "render n [] = ''''"
| "render n (QText s # es) = s @ render n es"
| "render n (QParam _ # es) = ''$'' @ to_string n @ render (n + 1) es"

lemma nparams_simps [simp]:
  "nparams [] = 0" "nparams (QText s # es) = nparams es" "nparams (QParam p # es) = nparams es + 1"
  by (simp_all add: nparams_def)

lemma nparams_append [simp]: "nparams (es @ fs) = nparams es + nparams fs"
  by (simp add: nparams_def)

lemma render_append: "render n (es @ fs) = render n es @ render (n + nparams es) fs"
  by (induction n es rule: render.induct) (simp_all add: add.commute)

lemma text_step_fold:
  "foldl text_step (Some (n, Some s)) es = Some (n + nparams es, Some (s @ render n es))"
  by (induction n es arbitrary: s rule: render.induct) (simp_all add: text_step_def)

lemma text_step_stuck: "foldl text_step None es = None"
  by (induction es) (simp_all add: text_step_def)

lemma builder_text_render: "builder_text (QText s # es) = Some (render 1 (QText s # es))"
  by (simp add: builder_text_def text_step_def [of "Some (n, None)" for n] text_step_fold)

lemma builder_text_param_first: "builder_text (QParam p # es) = None"
  by (simp add: builder_text_def text_step_def [of "Some (n, None)" for n] text_step_stuck)

lemma params_fold:
  "foldl params_step ps es = ps @ concat (map (\<lambda>e. case e of QParam v \<Rightarrow> [v] | QText _ \<Rightarrow> []) es)"
  by (induction es arbitrary: ps) (simp_all add: params_step_def split: query_element.split)

lemma builder_params_simps [simp]:
  "builder_params [] = []"
  "builder_params (QText s # es) = builder_params es"
  "builder_params (QParam v # es) = v # builder_params es"
  by (simp_all add: builder_params_def params_step_def params_fold)

lemma builder_params_append [simp]:
  "builder_params (es @ fs) = builder_params es @ builder_params fs"
  by (simp add: builder_params_def params_fold)

lemma length_builder_params [simp]: "length (builder_params es) = nparams es"
  by (induction es) (simp_all add: builder_params_def params_fold params_step_def nparams_def split: query_element.split)

text \<open>
  A parameter anywhere in a builder is written as \<^verbatim>\<open>$k\<close> where \<open>k\<close> is the one-based position
  of its value in \<^verbatim>\<open>params()\<close>.
\<close>

lemma build_placeholder:
  assumes "builder_build (es @ QParam v # fs) = Some q"
  shows "q_text q = render 1 es @ ''$'' @ to_string (nparams es + 1) @ render (nparams es + 2) fs
       \<and> q_params q ! nparams es = v
       \<and> length (q_params q) = nparams es + 1 + nparams fs"
proof -
  have "builder_text (es @ QParam v # fs) = Some (render 1 (es @ QParam v # fs))"
  proof (cases es)
    case Nil
    then show ?thesis using assms by (simp add: builder_build_def builder_text_param_first)
  next
    case (Cons e es')
    then show ?thesis
      using assms builder_text_render [of _ "es' @ QParam v # fs"]
      by (cases e) (simp_all add: builder_build_def builder_text_param_first)
  qed
  then have q: "q = make_query (render 1 (es @ QParam v # fs)) (builder_params (es @ QParam v # fs))"
    using assms by (simp add: builder_build_def)
  have "builder_params (es @ QParam v # fs) ! length (builder_params es) = v"
    by (simp only: builder_params_append builder_params_simps nth_append_length)
  then show ?thesis
    by (simp add: q make_query_def render_append)
qed

section \<open>Properties\<close>

text \<open>C9 Functional. Wherever a parameter stands in a query, the text has at its place the placeholder whose number
  is the position of its value among the parameters, written in decimal, and the text before and after is what the
  other elements contribute: for any number of elements.\<close>
theorem placeholder_numbers_parameter:
  assumes "builder_build (es @ QParam v # fs) = Some q"
  shows "q_text q = render 1 es @ ''$'' @ to_string (nparams es + 1) @ render (nparams es + 2) fs
    \<and> q_params q ! nparams es = v \<and> length (q_params q) = nparams es + 1 + nparams fs
    \<and> dec_value (to_string (nparams es + 1)) = nparams es + 1"
  using build_placeholder [OF assms] to_string_value by blast

theorem placeholder_numbers_parameter_witness:
  "\<exists>q. builder_build ([QText ''a = ''] @ QParam True # [QText '' b'']) = Some q \<and> q_params q ! 0 = True"
proof -
  obtain q where "builder_build ([QText ''a = ''] @ QParam True # [QText '' b'']) = Some q"
    by (simp add: builder_build_def builder_text_render)
  then show ?thesis
    using placeholder_numbers_parameter [of "[QText ''a = '']" True "[QText '' b'']" q] by auto
qed

end
