(* ===== verification/Ozo_Error.thy ===== *)
theory Ozo_Error
  imports Prelude
begin

text \<open>
  \<^verbatim>\<open>ozo/error.h\<close> and \<^verbatim>\<open>ozo/detail/base36.h\<close>: the library's error codes, the SQLSTATE codes
  as base-36 numbers with their classes, and the error conditions that group them. An error code
  is a value in a category, as in Boost.System. The comparison functions that Boost.System supplies
  (the default \<^verbatim>\<open>equivalent\<close> functions of a category) are parameters of the definitions that call
  them.

  The SQLSTATE table keeps the state that the source writes in the comment beside each value; the
  lemmas show that each value is that state read in base 36, that the class of a code is decided by
  its first two characters, and which condition each of the library's own errors belongs to.
\<close>

section \<open>Base 36 (base36.h)\<close>

definition b36_digit :: "nat \<Rightarrow> char" where
  "b36_digit d = (if d < 10 then char_of (48 + d) else char_of (65 + d - 10))"

fun ltob36_loop :: "nat \<Rightarrow> string" where
  "ltob36_loop u =
     b36_digit (u mod 36) # (if u div 36 > 0 then ltob36_loop (u div 36) else [])"

declare ltob36_loop.simps [simp del]

definition ltob36 :: "int \<Rightarrow> string" where
  "ltob36 i = rev (ltob36_loop (nat (i mod 2 ^ 64)))"

text \<open>
  \<^verbatim>\<open>strtol(s, nullptr, 36)\<close>: leading white space, an optional sign, then the longest run of
  digits; a value that does not fit a \<^verbatim>\<open>long\<close> is clamped.
\<close>

definition is_space :: "char \<Rightarrow> bool" where
  "is_space c \<longleftrightarrow> of_char c \<in> {9, 10, 11, 12, 13, 32 :: int}"

definition b36_value :: "char \<Rightarrow> int option" where
  "b36_value c =
     (let n = (of_char c :: int) in
      if 48 \<le> n \<and> n < 58 then Some (n - 48)
      else if 65 \<le> n \<and> n < 91 then Some (n - 55)
      else if 97 \<le> n \<and> n < 123 then Some (n - 87)
      else None)"

fun strtol_digits :: "int \<Rightarrow> string \<Rightarrow> int" where
  "strtol_digits acc [] = acc"
| "strtol_digits acc (c # cs) =
     (case b36_value c of None \<Rightarrow> acc | Some d \<Rightarrow> strtol_digits (acc * 36 + d) cs)"

definition b36tol :: "string \<Rightarrow> int" where
  "b36tol s =
     (let t = dropWhile is_space s;
          neg = (t \<noteq> [] \<and> hd t = CHR ''-'');
          ds = (if t \<noteq> [] \<and> (hd t = CHR ''-'' \<or> hd t = CHR ''+'') then tl t else t);
          n = strtol_digits 0 ds
      in if neg then max (- n) (- (2 ^ 63)) else min n (2 ^ 63 - 1))"

section \<open>The library's own errors\<close>

datatype ozo_error =
    err_ok | pq_connection_start_failed | pq_socket_failed | pq_connection_status_bad |
  pq_connect_poll_failed | oid_type_mismatch | unexpected_eof | pg_send_query_params_failed |
  pg_consume_input_failed | pg_set_nonblocking_failed | pg_flush_failed | bad_result_process |
  no_sql_state_found | result_status_unexpected | result_status_empty_query |
  result_status_bad_response | oid_request_failed | bad_object_size | bad_array_size |
  bad_array_dimension | bad_composite_size | pq_cancel_failed | pq_get_cancel_failed

fun error_value :: "ozo_error \<Rightarrow> int" where
  "error_value err_ok = 0"
| "error_value pq_connection_start_failed = 1"
| "error_value pq_socket_failed = 2"
| "error_value pq_connection_status_bad = 3"
| "error_value pq_connect_poll_failed = 4"
| "error_value oid_type_mismatch = 5"
| "error_value unexpected_eof = 6"
| "error_value pg_send_query_params_failed = 7"
| "error_value pg_consume_input_failed = 8"
| "error_value pg_set_nonblocking_failed = 9"
| "error_value pg_flush_failed = 10"
| "error_value bad_result_process = 11"
| "error_value no_sql_state_found = 12"
| "error_value result_status_unexpected = 13"
| "error_value result_status_empty_query = 14"
| "error_value result_status_bad_response = 15"
| "error_value oid_request_failed = 16"
| "error_value bad_object_size = 17"
| "error_value bad_array_size = 18"
| "error_value bad_array_dimension = 19"
| "error_value bad_composite_size = 20"
| "error_value pq_cancel_failed = 21"
| "error_value pq_get_cancel_failed = 22"

definition all_errors :: "ozo_error list" where
  "all_errors =
    [err_ok, pq_connection_start_failed, pq_socket_failed, pq_connection_status_bad,
     pq_connect_poll_failed, oid_type_mismatch, unexpected_eof, pg_send_query_params_failed,
     pg_consume_input_failed, pg_set_nonblocking_failed, pg_flush_failed, bad_result_process,
     no_sql_state_found, result_status_unexpected, result_status_empty_query,
     result_status_bad_response, oid_request_failed, bad_object_size, bad_array_size,
     bad_array_dimension, bad_composite_size, pq_cancel_failed, pq_get_cancel_failed]"

fun error_text :: "ozo_error \<Rightarrow> string" where
  "error_text err_ok = ''no error''"
| "error_text pq_connection_start_failed = ''pq_connection_start_failed - PQConnectionStart function failed''"
| "error_text pq_socket_failed = ''pq_socket_failed - PQSocket returned -1 as fd - it seems like there is no connection''"
| "error_text pq_connection_status_bad = ''pq_connection_status_bad - PQstatus returned CONNECTION_BAD''"
| "error_text pq_connect_poll_failed = ''pq_connect_poll_failed - PQconnectPoll function failed''"
| "error_text oid_type_mismatch = ''no conversion possible from oid to user-supplied type''"
| "error_text unexpected_eof = ''unexpected EOF while data read''"
| "error_text pg_send_query_params_failed = ''pg_send_query_params_failed - PQsendQueryParams function failed''"
| "error_text pg_consume_input_failed = ''pg_consume_input_failed - PQconsumeInput function failed''"
| "error_text pg_set_nonblocking_failed = ''pg_set_nonblocking_failed - PQsetnonblocking function failed''"
| "error_text pg_flush_failed = ''pg_flush_failed - PQflush function failed''"
| "error_text bad_result_process = ''bad_result_process - error while processing or converting result from the database''"
| "error_text no_sql_state_found = ''no_sql_state_found - no sql state has been found in database query execution error reply''"
| "error_text result_status_unexpected = ''result_status_unexpected - got unexpected status from query result''"
| "error_text result_status_empty_query = ''result_status_empty_query - the string sent to the server was empty''"
| "error_text result_status_bad_response = ''result_status_bad_response - the server'' @ [CHR 0x27] @ ''s response was not understood''"
| "error_text oid_request_failed = ''error during request oids from a database''"
| "error_text bad_object_size = ''an object size received does not equal to the expected''"
| "error_text bad_array_size = ''an array size received does not equal to the expected or not supported by the type''"
| "error_text bad_array_dimension = ''an array dimension count received does not equal to the expected or not supported by the type''"
| "error_text bad_composite_size = ''a composite'' @ [CHR 0x27] @ ''s fields number received does not equal to the expected or not supported by the type''"
| "error_text pq_cancel_failed = ''libpq PQcancel function call failed''"
| "error_text pq_get_cancel_failed = ''libpq PQgetCancel function call failed''"

definition error_message :: "int \<Rightarrow> string" where
  "error_message value =
     (case find (\<lambda>e. error_value e = value) all_errors of
        Some e \<Rightarrow> error_text e
      | None \<Rightarrow> ''no message for value: '' @ std_to_string value)"

section \<open>SQLSTATE codes\<close>

definition sqlstate_codes_00_22 :: "(string \<times> int \<times> string) list" where
  "sqlstate_codes_00_22 =
    [
     (''successful_completion'', 0, ''00000''),
     (''warning'', 46656, ''01000''),
     (''dynamic_result_sets_returned'', 46668, ''0100C''),
     (''implicit_zero_bit_padding'', 46664, ''01008''),
     (''null_value_eliminated_in_set_function'', 46659, ''01003''),
     (''privilege_not_granted'', 46663, ''01007''),
     (''privilege_not_revoked'', 46662, ''01006''),
     (''string_data_right_truncation_warning'', 46660, ''01004''),
     (''deprecated_feature'', 79057, ''01P01''),
     (''no_data'', 93312, ''02000''),
     (''no_additional_dynamic_result_sets_returned'', 93313, ''02001''),
     (''sql_statement_not_yet_complete'', 139968, ''03000''),
     (''connection_exception'', 373248, ''08000''),
     (''connection_does_not_exist'', 373251, ''08003''),
     (''connection_failure'', 373254, ''08006''),
     (''sqlclient_unable_to_establish_sqlconnection'', 373249, ''08001''),
     (''sqlserver_rejected_establishment_of_sqlconnection'', 373252, ''08004''),
     (''transaction_resolution_unknown'', 373255, ''08007''),
     (''protocol_violation'', 405649, ''08P01''),
     (''triggered_action_exception'', 419904, ''09000''),
     (''feature_not_supported'', 466560, ''0A000''),
     (''invalid_transaction_initiation'', 513216, ''0B000''),
     (''locator_exception'', 699840, ''0F000''),
     (''invalid_locator_specification'', 699841, ''0F001''),
     (''invalid_grantor'', 979776, ''0L000''),
     (''invalid_grant_operation'', 1012177, ''0LP01''),
     (''invalid_role_specification'', 1166400, ''0P000''),
     (''diagnostics_exception'', 1632960, ''0Z000''),
     (''stacked_diagnostics_accessed_without_active_handler'', 1632962, ''0Z002''),
     (''case_not_found'', 3359232, ''20000''),
     (''cardinality_violation'', 3405888, ''21000''),
     (''data_exception'', 3452544, ''22000''),
     (''array_subscript_error'', 3452630, ''2202E''),
     (''character_not_in_repertoire'', 3452617, ''22021''),
     (''datetime_field_overflow'', 3452552, ''22008''),
     (''division_by_zero'', 3452582, ''22012''),
     (''error_in_assignment'', 3452549, ''22005''),
     (''escape_character_conflict'', 3452555, ''2200B''),
     (''indicator_overflow'', 3452618, ''22022''),
     (''interval_field_overflow'', 3452585, ''22015''),
     (''invalid_argument_for_logarithm'', 3452594, ''2201E''),
     (''invalid_argument_for_ntile_function'', 3452584, ''22014''),
     (''invalid_argument_for_nth_value_function'', 3452586, ''22016''),
     (''invalid_argument_for_power_function'', 3452595, ''2201F''),
     (''invalid_argument_for_width_bucket_function'', 3452596, ''2201G''),
     (''invalid_character_value_for_cast'', 3452588, ''22018''),
     (''invalid_datetime_format'', 3452551, ''22007''),
     (''invalid_escape_character'', 3452589, ''22019''),
     (''invalid_escape_octet'', 3452557, ''2200D''),
     (''invalid_escape_sequence'', 3452621, ''22025''),
     (''nonstandard_use_of_escape_character'', 3484950, ''22P06''),
     (''invalid_indicator_parameter_value'', 3452580, ''22010''),
     (''invalid_parameter_value'', 3452619, ''22023''),
     (''invalid_regular_expression'', 3452591, ''2201B''),
     (''invalid_row_count_in_limit_clause'', 3452612, ''2201W''),
     (''invalid_row_count_in_result_offset_clause'', 3452613, ''2201X''),
     (''invalid_time_zone_displacement_value'', 3452553, ''22009''),
     (''invalid_use_of_escape_character'', 3452556, ''2200C''),
     (''most_specific_type_mismatch'', 3452560, ''2200G''),
     (''null_value_not_allowed'', 3452548, ''22004''),
     (''null_value_no_indicator_parameter'', 3452546, ''22002''),
     (''numeric_value_out_of_range'', 3452547, ''22003''),
     (''string_data_length_mismatch'', 3452622, ''22026''),
     (''string_data_right_truncation'', 3452545, ''22001''),
     (''substring_error'', 3452581, ''22011''),
     (''trim_error'', 3452623, ''22027''),
     (''unterminated_c_string'', 3452620, ''22024''),
     (''zero_length_character_string'', 3452559, ''2200F''),
     (''floating_point_exception'', 3484945, ''22P01''),
     (''invalid_text_representation'', 3484946, ''22P02''),
     (''invalid_binary_representation'', 3484947, ''22P03''),
     (''bad_copy_file_format'', 3484948, ''22P04''),
     (''untranslatable_character'', 3484949, ''22P05''),
     (''not_an_xml_document'', 3452565, ''2200L''),
     (''invalid_xml_document'', 3452566, ''2200M''),
     (''invalid_xml_content'', 3452567, ''2200N''),
     (''invalid_xml_comment'', 3452572, ''2200S''),
     (''invalid_xml_processing_instruction'', 3452573, ''2200T'')]"

definition sqlstate_codes_23_3F :: "(string \<times> int \<times> string) list" where
  "sqlstate_codes_23_3F =
    [
     (''integrity_constraint_violation'', 3499200, ''23000''),
     (''restrict_violation'', 3499201, ''23001''),
     (''not_null_violation'', 3505682, ''23502''),
     (''foreign_key_violation'', 3505683, ''23503''),
     (''unique_violation'', 3505685, ''23505''),
     (''check_violation'', 3505720, ''23514''),
     (''exclusion_violation'', 3531601, ''23P01''),
     (''invalid_cursor_state'', 3545856, ''24000''),
     (''invalid_transaction_state'', 3592512, ''25000''),
     (''active_sql_transaction'', 3592513, ''25001''),
     (''branch_transaction_already_active'', 3592514, ''25002''),
     (''held_cursor_requires_same_isolation_level'', 3592520, ''25008''),
     (''inappropriate_access_mode_for_branch_transaction'', 3592515, ''25003''),
     (''inappropriate_isolation_level_for_branch_transaction'', 3592516, ''25004''),
     (''no_active_sql_transaction_for_branch_transaction'', 3592517, ''25005''),
     (''read_only_sql_transaction'', 3592518, ''25006''),
     (''schema_and_data_statement_mixing_not_supported'', 3592519, ''25007''),
     (''no_active_sql_transaction'', 3624913, ''25P01''),
     (''in_failed_sql_transaction'', 3624914, ''25P02''),
     (''invalid_sql_statement_name'', 3639168, ''26000''),
     (''triggered_data_change_violation'', 3685824, ''27000''),
     (''invalid_authorization_specification'', 3732480, ''28000''),
     (''invalid_password'', 3764881, ''28P01''),
     (''dependent_privilege_descriptors_still_exist'', 3872448, ''2B000''),
     (''dependent_objects_still_exist'', 3904849, ''2BP01''),
     (''invalid_transaction_termination'', 3965760, ''2D000''),
     (''sql_routine_exception'', 4059072, ''2F000''),
     (''function_executed_no_return_statement'', 4059077, ''2F005''),
     (''modifying_sql_data_not_permitted'', 4059074, ''2F002''),
     (''prohibited_sql_statement_attempted'', 4059075, ''2F003''),
     (''reading_sql_data_not_permitted'', 4059076, ''2F004''),
     (''invalid_cursor_name'', 5225472, ''34000''),
     (''external_routine_exception'', 5412096, ''38000''),
     (''containing_sql_not_permitted'', 5412097, ''38001''),
     (''modifying_sql_data_not_permitted_external'', 5412098, ''38002''),
     (''prohibited_sql_statement_attempted_external'', 5412099, ''38003''),
     (''reading_sql_data_not_permitted_external'', 5412100, ''38004''),
     (''external_routine_invocation_exception'', 5458752, ''39000''),
     (''invalid_sqlstate_returned'', 5458753, ''39001''),
     (''null_value_not_allowed_external'', 5458756, ''39004''),
     (''trigger_protocol_violated'', 5491153, ''39P01''),
     (''srf_protocol_violated'', 5491154, ''39P02''),
     (''savepoint_exception'', 5552064, ''3B000''),
     (''invalid_savepoint_specification'', 5552065, ''3B001''),
     (''invalid_catalog_name'', 5645376, ''3D000''),
     (''invalid_schema_name'', 5738688, ''3F000'')]"

definition sqlstate_codes_40_44 :: "(string \<times> int \<times> string) list" where
  "sqlstate_codes_40_44 =
    [
     (''transaction_rollback'', 6718464, ''40000''),
     (''transaction_integrity_constraint_violation'', 6718466, ''40002''),
     (''serialization_failure'', 6718465, ''40001''),
     (''statement_completion_unknown'', 6718467, ''40003''),
     (''deadlock_detected'', 6750865, ''40P01''),
     (''syntax_error_or_access_rule_violation'', 6811776, ''42000''),
     (''syntax_error'', 6819553, ''42601''),
     (''insufficient_privilege'', 6818257, ''42501''),
     (''cannot_coerce'', 6822294, ''42846''),
     (''grouping_error'', 6822147, ''42803''),
     (''windowing_error'', 6844248, ''42P20''),
     (''invalid_recursion'', 6844221, ''42P19''),
     (''invalid_foreign_key'', 6822252, ''42830''),
     (''invalid_name'', 6819554, ''42602''),
     (''name_too_long'', 6819626, ''42622''),
     (''reserved_name'', 6823557, ''42939''),
     (''datatype_mismatch'', 6822148, ''42804''),
     (''indeterminate_datatype'', 6844220, ''42P18''),
     (''collation_mismatch'', 6844249, ''42P21''),
     (''indeterminate_collation'', 6844250, ''42P22''),
     (''wrong_object_type'', 6822153, ''42809''),
     (''undefined_column'', 6820851, ''42703''),
     (''undefined_function'', 6822435, ''42883''),
     (''undefined_table'', 6844177, ''42P01''),
     (''undefined_parameter'', 6844178, ''42P02''),
     (''undefined_object'', 6820852, ''42704''),
     (''duplicate_column'', 6820849, ''42701''),
     (''duplicate_cursor'', 6844179, ''42P03''),
     (''duplicate_database'', 6844180, ''42P04''),
     (''duplicate_function'', 6820923, ''42723''),
     (''duplicate_prepared_statement'', 6844181, ''42P05''),
     (''duplicate_schema'', 6844182, ''42P06''),
     (''duplicate_table'', 6844183, ''42P07''),
     (''duplicate_alias'', 6820886, ''42712''),
     (''duplicate_object'', 6820884, ''42710''),
     (''ambiguous_column'', 6820850, ''42702''),
     (''ambiguous_function'', 6820925, ''42725''),
     (''ambiguous_parameter'', 6844184, ''42P08''),
     (''ambiguous_alias'', 6844185, ''42P09''),
     (''invalid_column_reference'', 6844212, ''42P10''),
     (''invalid_column_definition'', 6819589, ''42611''),
     (''invalid_cursor_definition'', 6844213, ''42P11''),
     (''invalid_database_definition'', 6844214, ''42P12''),
     (''invalid_function_definition'', 6844215, ''42P13''),
     (''invalid_prepared_statement_definition'', 6844216, ''42P14''),
     (''invalid_schema_definition'', 6844217, ''42P15''),
     (''invalid_table_definition'', 6844218, ''42P16''),
     (''invalid_object_definition'', 6844219, ''42P17''),
     (''with_check_option_violation'', 6905088, ''44000'')]"

definition sqlstate_codes_53_XX :: "(string \<times> int \<times> string) list" where
  "sqlstate_codes_53_XX =
    [
     (''insufficient_resources'', 8538048, ''53000''),
     (''disk_full'', 8539344, ''53100''),
     (''out_of_memory'', 8540640, ''53200''),
     (''too_many_connections'', 8541936, ''53300''),
     (''configuration_limit_exceeded'', 8543232, ''53400''),
     (''program_limit_exceeded'', 8584704, ''54000''),
     (''statement_too_complex'', 8584705, ''54001''),
     (''too_many_columns'', 8584741, ''54011''),
     (''too_many_arguments'', 8584779, ''54023''),
     (''object_not_in_prerequisite_state'', 8631360, ''55000''),
     (''object_in_use'', 8631366, ''55006''),
     (''cant_change_runtime_param'', 8663762, ''55P02''),
     (''lock_not_available'', 8663763, ''55P03''),
     (''operator_intervention'', 8724672, ''57000''),
     (''query_canceled'', 8724712, ''57014''),
     (''admin_shutdown'', 8757073, ''57P01''),
     (''crash_shutdown'', 8757074, ''57P02''),
     (''cannot_connect_now'', 8757075, ''57P03''),
     (''database_dropped'', 8757076, ''57P04''),
     (''system_error'', 8771328, ''58000''),
     (''io_error'', 8771436, ''58030''),
     (''undefined_file'', 8803729, ''58P01''),
     (''duplicate_file'', 8803730, ''58P02''),
     (''snapshot_too_old'', 11850624, ''72000''),
     (''config_file_error'', 25194240, ''F0000''),
     (''lock_file_exists'', 25194241, ''F0001''),
     (''fdw_error'', 29999808, ''HV000''),
     (''fdw_column_name_not_found'', 29999813, ''HV005''),
     (''fdw_dynamic_parameter_value_needed'', 29999810, ''HV002''),
     (''fdw_function_sequence_error'', 29999844, ''HV010''),
     (''fdw_inconsistent_descriptor_information'', 29999881, ''HV021''),
     (''fdw_invalid_attribute_value'', 29999884, ''HV024''),
     (''fdw_invalid_column_name'', 29999815, ''HV007''),
     (''fdw_invalid_column_number'', 29999816, ''HV008''),
     (''fdw_invalid_data_type'', 29999812, ''HV004''),
     (''fdw_invalid_data_type_descriptors'', 29999814, ''HV006''),
     (''fdw_invalid_descriptor_field_identifier'', 30000133, ''HV091''),
     (''fdw_invalid_handle'', 29999819, ''HV00B''),
     (''fdw_invalid_option_index'', 29999820, ''HV00C''),
     (''fdw_invalid_option_name'', 29999821, ''HV00D''),
     (''fdw_invalid_string_length_or_buffer_length'', 30000132, ''HV090''),
     (''fdw_invalid_string_format'', 29999818, ''HV00A''),
     (''fdw_invalid_use_of_null_pointer'', 29999817, ''HV009''),
     (''fdw_too_many_handles'', 29999848, ''HV014''),
     (''fdw_out_of_memory'', 29999809, ''HV001''),
     (''fdw_no_schemas'', 29999833, ''HV00P''),
     (''fdw_option_name_not_found'', 29999827, ''HV00J''),
     (''fdw_reply_handle'', 29999828, ''HV00K''),
     (''fdw_schema_not_found'', 29999834, ''HV00Q''),
     (''fdw_table_not_found'', 29999835, ''HV00R''),
     (''fdw_unable_to_create_execution'', 29999829, ''HV00L''),
     (''fdw_unable_to_create_reply'', 29999830, ''HV00M''),
     (''fdw_unable_to_establish_connection'', 29999831, ''HV00N''),
     (''plpgsql_error'', 41990400, ''P0000''),
     (''raise_exception'', 41990401, ''P0001''),
     (''no_data_found'', 41990402, ''P0002''),
     (''too_many_rows'', 41990403, ''P0003''),
     (''internal_error'', 56966976, ''XX000''),
     (''data_corrupted'', 56966977, ''XX001''),
     (''index_corrupted'', 56966978, ''XX002'')]"

definition sqlstate_codes :: "(string \<times> int \<times> string) list" where
  "sqlstate_codes =
     sqlstate_codes_00_22 @ sqlstate_codes_23_3F @ sqlstate_codes_40_44 @ sqlstate_codes_53_XX"

definition sqlstate_value :: "string \<Rightarrow> int" where
  "sqlstate_value n = (case map_of sqlstate_codes n of Some (v, _) \<Rightarrow> v | None \<Rightarrow> 0)"

text \<open>
  The cases of the \<^verbatim>\<open>switch\<close> of \<^verbatim>\<open>message\<close> are the enumerators in their order, without
  \<^verbatim>\<open>snapshot_too_old\<close>.
\<close>

definition sqlstate_message_cases :: "(string \<times> int \<times> string) list" where
  "sqlstate_message_cases = filter (\<lambda>(n, _). n \<noteq> ''snapshot_too_old'') sqlstate_codes"

definition sqlstate_message :: "int \<Rightarrow> string" where
  "sqlstate_message value =
     (case find (\<lambda>(_, v, _). v = value) sqlstate_message_cases of
        Some (n, v, _) \<Rightarrow> n @ ''('' @ ltob36 v @ '')''
      | None \<Rightarrow> ''sql state '' @ ltob36 value)"

text \<open>The conditions of \<^verbatim>\<open>equivalent\<close>: one for each class, with the value of its enumerator.\<close>

definition sqlstate_conditions :: "(string \<times> int) list" where
  "sqlstate_conditions =
    [
     (''warning'', 46656),
     (''no_data'', 93312),
     (''sql_statement_not_yet_complete'', 139968),
     (''connection_exception'', 373248),
     (''triggered_action_exception'', 419904),
     (''feature_not_supported'', 466560),
     (''invalid_transaction_initiation'', 513216),
     (''locator_exception'', 699840),
     (''invalid_grantor'', 979776),
     (''invalid_role_specification'', 1166400),
     (''diagnostics_exception'', 1632960),
     (''case_not_found'', 3359232),
     (''cardinality_violation'', 3405888),
     (''data_exception'', 3452544),
     (''integrity_constraint_violation'', 3499200),
     (''invalid_cursor_state'', 3545856),
     (''invalid_transaction_state'', 3592512),
     (''invalid_sql_statement_name'', 3639168),
     (''triggered_data_change_violation'', 3685824),
     (''invalid_authorization_specification'', 3732480),
     (''dependent_privilege_descriptors_still_exist'', 3872448),
     (''invalid_transaction_termination'', 3965760),
     (''sql_routine_exception'', 4059072),
     (''invalid_cursor_name'', 5225472),
     (''external_routine_exception'', 5412096),
     (''external_routine_invocation_exception'', 5458752),
     (''savepoint_exception'', 5552064),
     (''invalid_catalog_name'', 5645376),
     (''invalid_schema_name'', 5738688),
     (''transaction_rollback'', 6718464),
     (''syntax_error_or_access_rule_violation'', 6811776),
     (''with_check_option_violation'', 6905088),
     (''insufficient_resources'', 8538048),
     (''program_limit_exceeded'', 8584704),
     (''object_not_in_prerequisite_state'', 8631360),
     (''operator_intervention'', 8724672),
     (''system_error'', 8771328),
     (''snapshot_too_old'', 11850624),
     (''config_file_error'', 25194240),
     (''fdw_error'', 29999808),
     (''plpgsql_error'', 41990400),
     (''internal_error'', 56966976)]"

definition class_width :: int where "class_width = 46656"

section \<open>Categories, codes and conditions\<close>

datatype category =
  ErrorCategory | SqlstateCategory | ErrcCategory | SystemCategory | NetdbCategory
  | GenericCategory | OtherCategory nat

record error_code =
  ec_value :: int
  ec_category :: category

record error_condition =
  cond_value :: int
  cond_category :: category

definition no_error :: error_code where
  "no_error = \<lparr>ec_value = 0, ec_category = SystemCategory\<rparr>"

definition error_make_error_code :: "ozo_error \<Rightarrow> error_code" where
  "error_make_error_code e = \<lparr>ec_value = error_value e, ec_category = ErrorCategory\<rparr>"

definition sqlstate_make_error_code :: "int \<Rightarrow> error_code" where
  "sqlstate_make_error_code v = \<lparr>ec_value = v, ec_category = SqlstateCategory\<rparr>"

definition sqlstate_make_error_condition :: "string \<Rightarrow> error_condition" where
  "sqlstate_make_error_condition n =
     \<lparr>cond_value = sqlstate_value n, cond_category = SqlstateCategory\<rparr>"

text \<open>
  Boost.System's part: \<open>base_equivalent cat code condition\<close> is
  \<^verbatim>\<open>error_category::equivalent(code, condition)\<close> and \<open>code_equivalent code condition\<close> is
  \<^verbatim>\<open>code.category().equivalent(code.value(), condition)\<close>, neither of which the library overrides.
\<close>

type_synonym base_equivalent = "category \<Rightarrow> error_code \<Rightarrow> int \<Rightarrow> bool"
type_synonym code_equivalent = "error_code \<Rightarrow> error_condition \<Rightarrow> bool"

definition sqlstate_equivalent :: "base_equivalent \<Rightarrow> error_code \<Rightarrow> int \<Rightarrow> bool" where
  "sqlstate_equivalent base code condition =
     (if ec_category code = SqlstateCategory
         \<and> condition \<in> set (map snd sqlstate_conditions)
      then ec_value code \<ge> condition \<and> ec_value code < condition + class_width
      else base SqlstateCategory code condition)"

datatype errc_code =
    errc_ok | connection_error | database_readonly | introspection_error | type_mismatch
  | protocol_error

fun errc_value :: "errc_code \<Rightarrow> int" where
  "errc_value errc_ok = 0"
| "errc_value connection_error = 1"
| "errc_value database_readonly = 2"
| "errc_value introspection_error = 3"
| "errc_value type_mismatch = 4"
| "errc_value protocol_error = 5"

definition all_errc :: "errc_code list" where
  "all_errc = [errc_ok, connection_error, database_readonly, introspection_error, type_mismatch,
     protocol_error]"

fun errc_text :: "errc_code \<Rightarrow> string" where
  "errc_text errc_ok = ''no error''"
| "errc_text connection_error = ''communication error''"
| "errc_text database_readonly = ''database in read-only state''"
| "errc_text introspection_error = ''serialization/deserialization related error''"
| "errc_text type_mismatch = ''expected type mismatch received type''"
| "errc_text protocol_error = ''protocol-related error''"

definition errc_message :: "int \<Rightarrow> string" where
  "errc_message value =
     (case find (\<lambda>c. errc_value c = value) all_errc of
        Some c \<Rightarrow> errc_text c
      | None \<Rightarrow> ''no message for value: '' @ std_to_string value)"

datatype asio_error =
    broken_pipe | connection_aborted | connection_refused | connection_reset | fault
  | host_unreachable | interrupted | network_reset | not_connected | operation_aborted
  | shut_down | timed_out | try_again
  | host_not_found | host_not_found_try_again | asio_no_data | no_recovery

text \<open>An element of the tuples of \<^verbatim>\<open>codes_for_condition\<close>.\<close>

datatype code_pattern =
    SqlstatePattern string
  | AsioPattern asio_error
  | SystemIoError
  | ErrorPattern ozo_error

fun codes_for_condition :: "errc_code \<Rightarrow> code_pattern list" where
  "codes_for_condition errc_ok = []"
| "codes_for_condition connection_error =
     SqlstatePattern ''connection_exception''
     # map AsioPattern
         [broken_pipe, connection_aborted, connection_refused, connection_reset, fault,
          host_unreachable, interrupted, network_reset, not_connected, operation_aborted,
          shut_down, timed_out, try_again,
          host_not_found, host_not_found_try_again, asio_no_data, no_recovery]
     @ [SystemIoError]
     @ map ErrorPattern
         [pq_connection_start_failed, pq_socket_failed, pq_connection_status_bad,
          pq_connect_poll_failed, pg_send_query_params_failed, pg_consume_input_failed,
          pg_set_nonblocking_failed, pg_flush_failed]"
| "codes_for_condition database_readonly = [SqlstatePattern ''read_only_sql_transaction'']"
| "codes_for_condition introspection_error =
     map ErrorPattern
       [bad_result_process, bad_object_size, bad_array_size, bad_array_dimension,
        bad_composite_size, unexpected_eof]"
| "codes_for_condition type_mismatch = [ErrorPattern oid_type_mismatch]"
| "codes_for_condition protocol_error =
     map ErrorPattern
       [no_sql_state_found, result_status_unexpected, result_status_empty_query,
        result_status_bad_response, oid_request_failed]"

text \<open>
  \<^verbatim>\<open>ec == x\<close>: with an error-code enumerator, equality of value and category; with a condition,
  either side's category may accept the other. \<open>asio_code\<close> gives the platform's value and category of
  an Asio error and \<open>io_error\<close> the generic condition \<^verbatim>\<open>boost::system::errc::io_error\<close>.
\<close>

record boost_system =
  bs_base :: base_equivalent
  bs_code :: code_equivalent
  bs_asio_code :: "asio_error \<Rightarrow> error_code"
  bs_io_error :: int

definition pattern_matches :: "boost_system \<Rightarrow> error_code \<Rightarrow> code_pattern \<Rightarrow> bool" where
  "pattern_matches bs ec p =
     (case p of
        SqlstatePattern n \<Rightarrow>
          bs_code bs ec (sqlstate_make_error_condition n)
          \<or> sqlstate_equivalent (bs_base bs) ec (sqlstate_value n)
      | AsioPattern a \<Rightarrow> ec = bs_asio_code bs a
      | SystemIoError \<Rightarrow>
          bs_code bs ec \<lparr>cond_value = bs_io_error bs, cond_category = GenericCategory\<rparr>
          \<or> bs_base bs GenericCategory ec (bs_io_error bs)
      | ErrorPattern e \<Rightarrow> ec = error_make_error_code e)"

definition match_code :: "boost_system \<Rightarrow> code_pattern list \<Rightarrow> error_code \<Rightarrow> bool" where
  "match_code bs conditions ec = list_ex (pattern_matches bs ec) conditions"

definition errc_equivalent :: "boost_system \<Rightarrow> error_code \<Rightarrow> int \<Rightarrow> bool" where
  "errc_equivalent bs code condition =
     (case find (\<lambda>c. errc_value c = condition) all_errc of
        Some errc_ok \<Rightarrow> code = no_error
      | Some c \<Rightarrow> match_code bs (codes_for_condition c) code
      | None \<Rightarrow> bs_base bs ErrcCategory code condition)"

section \<open>Base 36 round trip\<close>

lemma of_char_int: "n < 256 \<Longrightarrow> (of_char (char_of (n :: nat)) :: int) = int n"
  by (subst of_nat_of_char [symmetric, where 'a = int]) simp

lemma b36_value_digit: "d < 36 \<Longrightarrow> b36_value (b36_digit d) = Some (int d)"
  by (auto simp: b36_value_def b36_digit_def Let_def of_char_int)

lemma strtol_digits_append:
  "\<forall>c \<in> set ds. b36_value c \<noteq> None \<Longrightarrow>
   strtol_digits acc (ds @ es) = strtol_digits (strtol_digits acc ds) es"
  by (induction ds arbitrary: acc) auto

lemma ltob36_loop_digits: "\<forall>c \<in> set (ltob36_loop u). \<exists>d < 36. c = b36_digit d"
proof (induction u rule: ltob36_loop.induct)
  case (1 u)
  have "\<exists>d < 36. b36_digit (u mod 36) = b36_digit d"
    by (rule exI [of _ "u mod 36"]) simp
  then show ?case
    using 1 by (subst ltob36_loop.simps) auto
qed

lemma strtol_ltob36_loop: "strtol_digits 0 (rev (ltob36_loop u)) = int u"
proof (induction u rule: ltob36_loop.induct)
  case (1 u)
  have digit: "b36_value (b36_digit (u mod 36)) = Some (int (u mod 36))"
    by (intro b36_value_digit) simp
  show ?case
  proof (cases "u div 36 > 0")
    case True
    have "\<forall>c \<in> set (rev (ltob36_loop (u div 36))). b36_value c \<noteq> None"
      using ltob36_loop_digits [of "u div 36"] by (auto simp: b36_value_digit)
    then show ?thesis
      using True 1 digit by (subst ltob36_loop.simps) (simp add: strtol_digits_append zdiv_int zmod_int)
  next
    case False
    then show ?thesis using digit by (subst ltob36_loop.simps) simp
  qed
qed

lemma b36_digit_plain:
  "d < 36 \<Longrightarrow> \<not> is_space (b36_digit d) \<and> b36_digit d \<noteq> CHR ''-'' \<and> b36_digit d \<noteq> CHR ''+''"
proof -
  assume "d < 36"
  then have "(of_char (b36_digit d) :: int) \<ge> 48"
    by (auto simp: b36_digit_def of_char_int)
  moreover have "(of_char (CHR ''-'') :: int) = 45" "(of_char (CHR ''+'') :: int) = 43"
    by simp_all
  ultimately show ?thesis by (auto simp: is_space_def)
qed

lemma ltob36_roundtrip:
  assumes "0 \<le> v" and "v < 2 ^ 63"
  shows "b36tol (ltob36 v) = v"
proof -
  define t where "t = rev (ltob36_loop (nat v))"
  have "ltob36 v = t" using assms by (simp add: ltob36_def t_def)
  moreover have "t \<noteq> []" by (subst t_def, subst ltob36_loop.simps) simp
  moreover obtain d where "d < 36" and "hd t = b36_digit d"
    using ltob36_loop_digits [of "nat v"] \<open>t \<noteq> []\<close> hd_in_set [of t] by (auto simp: t_def)
  then have "\<not> is_space (hd t) \<and> hd t \<noteq> CHR ''-'' \<and> hd t \<noteq> CHR ''+''"
    using b36_digit_plain [of d] by simp
  then have "dropWhile is_space t = t \<and> hd t \<noteq> CHR ''-'' \<and> hd t \<noteq> CHR ''+''"
    by (cases t) auto
  ultimately show ?thesis
    using assms strtol_ltob36_loop [of "nat v"]
    by (simp add: b36tol_def Let_def t_def)
qed

section \<open>The SQLSTATE table and its classes\<close>

text \<open>Every value is the state written beside it, read in base 36.\<close>

lemma sqlstate_table_states:
  "list_all (\<lambda>(_, v, st). length st = 5 \<and> b36tol st = v) sqlstate_codes"
  by code_simp

text \<open>The conditions are the class codes of the table, class 00 apart.\<close>

lemma sqlstate_conditions_classes:
  "map (\<lambda>(n, v, _). (n, v)) (filter (\<lambda>(_, v, _). v mod class_width = 0 \<and> v \<noteq> 0) sqlstate_codes) =
   sqlstate_conditions"
  by code_simp

lemma sqlstate_conditions_values:
  "map snd sqlstate_conditions =
     map (\<lambda>c. c * 46656)
       [1, 2, 3, 8, 9, 10, 11, 15, 21, 25, 35, 72, 73, 74, 75, 76, 77, 78, 79, 80, 83, 85, 87, 112,
        116, 117, 119, 121, 123, 144, 146, 148, 183, 184, 185, 187, 188, 254, 540, 643, 900, 1221]"
  by (simp add: sqlstate_conditions_def)

lemma sqlstate_condition_aligned:
  "c \<in> set (map snd sqlstate_conditions) \<Longrightarrow> c mod 46656 = 0"
  unfolding sqlstate_conditions_values by (auto simp only: set_map mod_mult_self2_is_0)

lemma sqlstate_equivalent_class:
  assumes "c \<in> set (map snd sqlstate_conditions)"
  shows "sqlstate_equivalent base (sqlstate_make_error_code v) c \<longleftrightarrow>
    v div class_width = c div class_width"
proof -
  obtain k where k: "c = 46656 * k"
    using sqlstate_condition_aligned [OF assms] by (auto simp: dvd_def mod_eq_0_iff_dvd)
  have "sqlstate_equivalent base (sqlstate_make_error_code v) c \<longleftrightarrow> c \<le> v \<and> v < c + 46656"
    using assms by (simp add: sqlstate_equivalent_def sqlstate_make_error_code_def class_width_def)
  also have "\<dots> \<longleftrightarrow> v div 46656 = k" unfolding k by auto
  finally show ?thesis by (simp add: k class_width_def)
qed


section \<open>The conditions of errc\<close>

text \<open>
  What Boost.System documents: a category's default \<^verbatim>\<open>equivalent\<close> functions compare category and
  value, and the Asio errors are codes of the system and netdb categories.
\<close>

definition boost_documented :: "boost_system \<Rightarrow> bool" where
  "boost_documented bs \<longleftrightarrow>
     (\<forall>cat ec v. bs_base bs cat ec v \<longleftrightarrow> ec_category ec = cat \<and> ec_value ec = v)
     \<and> (\<forall>ec c. ec_category ec \<in> {ErrorCategory, SqlstateCategory} \<longrightarrow>
          (bs_code bs ec c \<longleftrightarrow> cond_category c = ec_category ec \<and> cond_value c = ec_value ec))
     \<and> (\<forall>a. ec_category (bs_asio_code bs a) \<in> {SystemCategory, NetdbCategory})"

definition errc_of_error :: "ozo_error \<Rightarrow> errc_code option" where
  "errc_of_error e =
     (if e \<in> {pq_connection_start_failed, pq_socket_failed, pq_connection_status_bad,
              pq_connect_poll_failed, pg_send_query_params_failed, pg_consume_input_failed,
              pg_set_nonblocking_failed, pg_flush_failed} then Some connection_error
      else if e \<in> {bad_result_process, bad_object_size, bad_array_size, bad_array_dimension,
              bad_composite_size, unexpected_eof} then Some introspection_error
      else if e = oid_type_mismatch then Some type_mismatch
      else if e \<in> {err_ok, pq_cancel_failed, pq_get_cancel_failed} then None
      else Some protocol_error)"

lemma error_value_inj: "error_value a = error_value b \<longleftrightarrow> a = b"
proof -
  have "distinct (map error_value all_errors)" by (simp add: all_errors_def)
  then have "inj_on error_value (set all_errors)" by (simp only: distinct_map)
  moreover have "e \<in> set all_errors" for e by (cases e) (simp_all add: all_errors_def)
  ultimately show ?thesis by (auto simp: inj_on_def)
qed

lemma find_errc: "find (\<lambda>c. errc_value c = errc_value d) all_errc = Some d"
  by (cases d) (simp_all add: all_errc_def)

lemma errc_equivalent_value:
  "errc_equivalent bs ec (errc_value c) =
     (if c = errc_ok then ec = no_error else match_code bs (codes_for_condition c) ec)"
  unfolding errc_equivalent_def find_errc by (cases c) simp_all

lemma asio_category:
  assumes "boost_documented bs" and "cat \<in> {ErrorCategory, SqlstateCategory}"
  shows "bs_asio_code bs a \<noteq> \<lparr>ec_value = v, ec_category = cat\<rparr>"
proof
  assume "bs_asio_code bs a = \<lparr>ec_value = v, ec_category = cat\<rparr>"
  then have "ec_category (bs_asio_code bs a) = cat" by simp
  moreover have "ec_category (bs_asio_code bs a) \<in> {SystemCategory, NetdbCategory}"
    using assms(1) unfolding boost_documented_def by blast
  ultimately show False using assms(2) by auto
qed

lemma boost_documentedD:
  assumes "boost_documented bs"
  shows "bs_base bs cat ec v \<longleftrightarrow> ec_category ec = cat \<and> ec_value ec = v"
    and "ec_category ec \<in> {ErrorCategory, SqlstateCategory} \<Longrightarrow>
      bs_code bs ec c \<longleftrightarrow> cond_category c = ec_category ec \<and> cond_value c = ec_value ec"
  using assms unfolding boost_documented_def by blast+

lemma pattern_matches_error:
  assumes "boost_documented bs"
  shows "pattern_matches bs (error_make_error_code e) p \<longleftrightarrow> p = ErrorPattern e"
  using asio_category [OF assms, THEN not_sym]
  by (cases p)
     (auto simp: pattern_matches_def error_make_error_code_def boost_documentedD [OF assms]
        sqlstate_equivalent_def sqlstate_make_error_condition_def error_value_inj)

lemma pattern_matches_sqlstate:
  assumes "boost_documented bs"
  shows "pattern_matches bs (sqlstate_make_error_code v) p \<longleftrightarrow>
    (\<exists>n. p = SqlstatePattern n \<and>
       (v = sqlstate_value n
        \<or> sqlstate_equivalent (bs_base bs) (sqlstate_make_error_code v) (sqlstate_value n)))"
  using asio_category [OF assms, THEN not_sym]
  by (cases p)
     (auto simp: pattern_matches_def sqlstate_make_error_code_def boost_documentedD [OF assms]
        sqlstate_make_error_condition_def error_make_error_code_def)

lemma errc_equivalent_error:
  assumes "boost_documented bs"
  shows "errc_equivalent bs (error_make_error_code e) (errc_value c) \<longleftrightarrow> errc_of_error e = Some c"
proof -
  have "match_code bs ps (error_make_error_code e) \<longleftrightarrow> ErrorPattern e \<in> set ps" for ps
    by (auto simp: match_code_def list_ex_iff pattern_matches_error [OF assms])
  moreover have "error_make_error_code e \<noteq> no_error"
    by (simp add: error_make_error_code_def no_error_def)
  ultimately have "errc_equivalent bs (error_make_error_code e) (errc_value c) \<longleftrightarrow>
      c \<noteq> errc_ok \<and> ErrorPattern e \<in> set (codes_for_condition c)"
    by (simp add: errc_equivalent_value)
  also have "\<dots> \<longleftrightarrow> errc_of_error e = Some c"
    by (cases c; cases e) (simp_all add: errc_of_error_def)
  finally show ?thesis .
qed

lemma sqlstate_value_used:
  "sqlstate_value ''connection_exception'' = 373248"
  "sqlstate_value ''read_only_sql_transaction'' = 3592518"
  by code_simp+

lemma match_code_sqlstate:
  assumes "boost_documented bs"
  shows "match_code bs ps (sqlstate_make_error_code v) \<longleftrightarrow>
    (\<exists>n. SqlstatePattern n \<in> set ps \<and>
       (v = sqlstate_value n
        \<or> sqlstate_equivalent (bs_base bs) (sqlstate_make_error_code v) (sqlstate_value n)))"
  unfolding match_code_def list_ex_iff pattern_matches_sqlstate [OF assms] by blast

lemma sqlstate_patterns:
  "SqlstatePattern n \<in> set (codes_for_condition connection_error) \<longleftrightarrow> n = ''connection_exception''"
  "SqlstatePattern n \<in> set (codes_for_condition database_readonly) \<longleftrightarrow>
     n = ''read_only_sql_transaction''"
  by auto

lemma errc_equivalent_sqlstate:
  assumes "boost_documented bs"
  shows "errc_equivalent bs (sqlstate_make_error_code v) (errc_value connection_error) \<longleftrightarrow>
      v div class_width = 8"
    and "errc_equivalent bs (sqlstate_make_error_code v) (errc_value database_readonly) \<longleftrightarrow>
      v = 3592518"
proof -
  have "8 * 46656 \<in> set (map snd sqlstate_conditions)"
    unfolding sqlstate_conditions_values by simp
  then have "sqlstate_equivalent (bs_base bs) (sqlstate_make_error_code v) 373248 \<longleftrightarrow>
      v div class_width = 8"
    using sqlstate_equivalent_class [of 373248] by (simp add: class_width_def)
  then show "errc_equivalent bs (sqlstate_make_error_code v) (errc_value connection_error) \<longleftrightarrow>
      v div class_width = 8"
    unfolding errc_equivalent_value match_code_sqlstate [OF assms] sqlstate_patterns
    by (simp add: sqlstate_value_used class_width_def) auto
  have "3592518 \<notin> set (map snd sqlstate_conditions)"
    using sqlstate_condition_aligned [of 3592518] by auto
  then have "sqlstate_equivalent (bs_base bs) (sqlstate_make_error_code v) 3592518 \<longleftrightarrow> v = 3592518"
    by (simp add: sqlstate_equivalent_def boost_documentedD [OF assms] sqlstate_make_error_code_def)
  then show "errc_equivalent bs (sqlstate_make_error_code v) (errc_value database_readonly) \<longleftrightarrow>
      v = 3592518"
    unfolding errc_equivalent_value match_code_sqlstate [OF assms] sqlstate_patterns
    by (simp add: sqlstate_value_used)
qed

section \<open>Properties\<close>



text \<open>Equivalence. Every enumerator's value is the SQLSTATE in the comment beside it, read in base 36, and the
  conditions that the category matches by class are the class codes of the enumeration, class 00 apart.\<close>
lemma sqlstate_table_consistent:
  "list_all (\<lambda>(_, v, st). length st = 5 \<and> b36tol st = v) sqlstate_codes
   \<and> map (\<lambda>(n, v, _). (n, v)) (filter (\<lambda>(_, v, _). v mod class_width = 0 \<and> v \<noteq> 0) sqlstate_codes) =
       sqlstate_conditions"
  using sqlstate_table_states sqlstate_conditions_classes by blast

text \<open>Functional. With Boost.System as documented, each of the library's own errors belongs to the error
  condition that the table gives, and to no other; the two errors of a failed cancel belong to none.\<close>
lemma errc_of_own_errors:
  assumes "boost_documented bs"
  shows "errc_equivalent bs (error_make_error_code e) (errc_value c) \<longleftrightarrow> errc_of_error e = Some c"
  using assms by (rule errc_equivalent_error)

definition sample_boost :: boost_system where
  "sample_boost =
     \<lparr>bs_base = (\<lambda>cat ec v. ec_category ec = cat \<and> ec_value ec = v),
      bs_code = (\<lambda>ec c. cond_category c = ec_category ec \<and> cond_value c = ec_value ec),
      bs_asio_code = (\<lambda>a. \<lparr>ec_value = 1, ec_category = SystemCategory\<rparr>),
      bs_io_error = 5\<rparr>"

lemma sample_boost_documented: "boost_documented sample_boost"
  by (simp add: boost_documented_def sample_boost_def)

text \<open>Round trip. The base-36 text that a SQLSTATE value is printed as is read back to the same value, for
  every value that a non-negative \<^verbatim>\<open>long\<close> can hold.\<close>
lemma b36_round_trip:
  assumes "0 \<le> v" and "v < 2 ^ 63"
  shows "b36tol (ltob36 v) = v"
  using assms by (rule ltob36_roundtrip)

text \<open>Error path. The enumerator \<^verbatim>\<open>snapshot_too_old\<close> is missing from the switch that names SQLSTATE values: its
  message is the one for unknown values, although the enumeration has it.\<close>
lemma snapshot_too_old_unnamed:
  "sqlstate_message 11850624 = ''sql state '' @ ltob36 11850624
   \<and> (''snapshot_too_old'', 11850624, ''72000'') \<in> set sqlstate_codes"
proof
  have "find (\<lambda>(_, v, _). v = 11850624) sqlstate_message_cases = None" by code_simp
  then show "sqlstate_message 11850624 = ''sql state '' @ ltob36 11850624"
    by (simp add: sqlstate_message_def)
  show "(''snapshot_too_old'', 11850624, ''72000'') \<in> set sqlstate_codes"
    unfolding sqlstate_codes_def sqlstate_codes_53_XX_def by simp
qed

end
