(* ===== verification/Ozo_Deadline.thy ===== *)
theory Ozo_Deadline
  imports Ozo_Error
begin

text \<open>
  \<^verbatim>\<open>ozo/deadline.h\<close> and \<^verbatim>\<open>ozo/detail/deadline.h\<close>: deadlines computed from time constraints, and
  the handler that couples an operation with a timer. Time points and durations count the ticks of
  the steady clock in a signed 64-bit integer, here an \<open>int\<close> with its maximum written out.
\<close>

section \<open>Deadlines\<close>

definition time_point_max :: int where "time_point_max = 2 ^ 63 - 1"

datatype time_constraint = TimePoint int | Duration int | NoConstraint

definition deadline_after :: "int \<Rightarrow> int \<Rightarrow> int" where
  "deadline_after after now =
     (if after < 0 then now
      else if after > time_point_max - now then time_point_max else now + after)"

fun deadline :: "int \<Rightarrow> time_constraint \<Rightarrow> time_constraint" where
  "deadline now (TimePoint t) = TimePoint t"
| "deadline now (Duration after) = TimePoint (deadline_after after now)"
| "deadline now NoConstraint = NoConstraint"

definition time_left :: "int \<Rightarrow> int \<Rightarrow> int" where
  "time_left t now = (if t > now then t - now else 0)"

definition expired :: "int \<Rightarrow> int \<Rightarrow> bool" where
  "expired t now = (time_left t now = 0)"

text \<open>
  From a clock that has not run backwards past its epoch no computation leaves the 64-bit range,
  the deadline is never before \<open>now\<close>, and it is \<open>now + after\<close> unless that does not fit.
\<close>

lemma deadline_after_bounds:
  assumes "0 \<le> now" and "now \<le> time_point_max"
  shows "now \<le> deadline_after after now \<and> deadline_after after now \<le> time_point_max
    \<and> 0 \<le> time_point_max - now
    \<and> (0 \<le> after \<and> now + after \<le> time_point_max \<longrightarrow> deadline_after after now = now + after)"
  using assms by (auto simp: deadline_after_def)

lemma expired_iff: "expired t now \<longleftrightarrow> t \<le> now"
  by (auto simp: expired_def time_left_def)

lemma time_left_deadline:
  assumes "0 \<le> now" and "0 \<le> after" and "now + after \<le> time_point_max"
  shows "time_left (deadline_after after now) now = after"
  using assms by (auto simp: deadline_after_def time_left_def)

section \<open>One completion out of two\<close>

text \<open>
  Two completions (of the operation and of its timer) share a context; each is called once by the
  I/O library, in either order, and the user's handler must be called exactly once, by the second
  of them. The locale states that for any two transitions on a context; the handler of an
  operation with a deadline is its instance.
\<close>

locale two_completions =
  fixes first second :: "'s \<Rightarrow> 's"
    and waiting :: "'s \<Rightarrow> nat"
    and calls :: "'s \<Rightarrow> 'c list"
  assumes first_waits: "waiting s = Suc (Suc n) \<Longrightarrow> waiting (first s) = Suc n \<and> calls (first s) = calls s"
    and second_waits: "waiting s = Suc (Suc n) \<Longrightarrow> waiting (second s) = Suc n \<and> calls (second s) = calls s"
    and first_calls: "waiting s = Suc 0 \<Longrightarrow> waiting (first s) = 0 \<and> (\<exists>c. calls (first s) = calls s @ [c])"
    and second_calls: "waiting s = Suc 0 \<Longrightarrow> waiting (second s) = 0 \<and> (\<exists>c. calls (second s) = calls s @ [c])"
begin

lemma exactly_once:
  assumes "waiting s = 2" and "calls s = []"
  shows "length (calls (second (first s))) = 1 \<and> length (calls (first (second s))) = 1"
proof -
  have s: "waiting s = Suc (Suc 0)" using assms(1) by simp
  have "waiting (first s) = Suc 0 \<and> calls (first s) = []" using first_waits [OF s] assms(2) by simp
  moreover have "waiting (second s) = Suc 0 \<and> calls (second s) = []"
    using second_waits [OF s] assms(2) by simp
  ultimately show ?thesis
    using second_calls [of "first s"] first_calls [of "second s"] by auto
qed

lemma not_before_second:
  assumes "waiting s = 2" and "calls s = []"
  shows "calls (first s) = [] \<and> calls (second s) = []"
  using first_waits [of s 0] second_waits [of s 0] assms by simp

end

section \<open>An operation with a deadline\<close>

record 'r io_deadline_context =
  dc_handler_calls :: "(error_code \<times> 'r) list"
  dc_result :: 'r
  dc_ec :: error_code
  dc_first_call :: nat
  dc_timer_cancelled :: bool
  dc_stream_cancelled :: bool

definition new_io_deadline_handler :: "'r \<Rightarrow> 'r io_deadline_context" where
  "new_io_deadline_handler initial =
     \<lparr>dc_handler_calls = [], dc_result = initial, dc_ec = no_error, dc_first_call = 2,
      dc_timer_cancelled = False, dc_stream_cancelled = False\<rparr>"

definition timed_out_code :: "(asio_error \<Rightarrow> error_code) \<Rightarrow> error_code" where
  "timed_out_code asio_code = asio_code timed_out"

definition io_deadline_operation ::
    "error_code \<Rightarrow> 'r \<Rightarrow> 'r io_deadline_context \<Rightarrow> 'r io_deadline_context" where
  "io_deadline_operation ec result c =
     (let c = c\<lparr>dc_first_call := dc_first_call c - 1\<rparr> in
      if dc_first_call c \<noteq> 0
      then c\<lparr>dc_timer_cancelled := True, dc_ec := ec, dc_result := result\<rparr>
      else c\<lparr>dc_handler_calls := dc_handler_calls c @ [(dc_ec c, result)]\<rparr>)"

definition io_deadline_timer ::
    "(asio_error \<Rightarrow> error_code) \<Rightarrow> 'r io_deadline_context \<Rightarrow> 'r io_deadline_context" where
  "io_deadline_timer asio_code c =
     (let c = c\<lparr>dc_first_call := dc_first_call c - 1\<rparr> in
      if dc_first_call c \<noteq> 0
      then c\<lparr>dc_stream_cancelled := True, dc_ec := timed_out_code asio_code\<rparr>
      else c\<lparr>dc_handler_calls := dc_handler_calls c @ [(dc_ec c, dc_result c)]\<rparr>)"

interpretation io_deadline: two_completions
  "io_deadline_operation ec result" "io_deadline_timer asio_code" dc_first_call dc_handler_calls
  for ec result asio_code
  by unfold_locales (auto simp: io_deadline_operation_def io_deadline_timer_def Let_def)

lemma io_deadline_operation_first:
  "dc_handler_calls (io_deadline_timer asio_code
     (io_deadline_operation ec result (new_io_deadline_handler d))) = [(ec, result)]"
  by (simp add: io_deadline_timer_def io_deadline_operation_def new_io_deadline_handler_def Let_def)

lemma io_deadline_timer_first:
  "dc_handler_calls (io_deadline_operation ec result
     (io_deadline_timer asio_code (new_io_deadline_handler d))) = [(asio_code timed_out, result)]"
  by (simp add: io_deadline_timer_def io_deadline_operation_def new_io_deadline_handler_def Let_def
      timed_out_code_def)

section \<open>Properties\<close>

text \<open>Safety. Whichever of an operation and its timer completes first, the user's handler is called exactly once:
  with the operation's own result when it was in time, and with \<^verbatim>\<open>timed_out\<close> when the timer was.\<close>
lemma deadline_handler_once:
  "dc_handler_calls (io_deadline_timer asio_code
     (io_deadline_operation ec result (new_io_deadline_handler d))) = [(ec, result)]
   \<and> dc_handler_calls (io_deadline_operation ec result
     (io_deadline_timer asio_code (new_io_deadline_handler d))) = [(asio_code timed_out, result)]
   \<and> dc_handler_calls (io_deadline_operation ec result (new_io_deadline_handler d)) = []
   \<and> dc_handler_calls (io_deadline_timer asio_code (new_io_deadline_handler d)) = []"
proof -
  have "dc_first_call (new_io_deadline_handler d) = 2" "dc_handler_calls (new_io_deadline_handler d) = []"
    by (simp_all add: new_io_deadline_handler_def)
  note early = io_deadline.not_before_second [OF this, of ec result asio_code]
  show ?thesis
    by (intro conjI io_deadline_operation_first io_deadline_timer_first
        early [THEN conjunct1] early [THEN conjunct2])
qed

text \<open>Bounds. Computing a deadline never leaves the range of a time point: the result is at least the current
  time and at most the largest time point, and it is exactly \<open>now + after\<close> whenever that is representable.\<close>
lemma deadline_in_range:
  assumes "0 \<le> now" and "now \<le> time_point_max"
  shows "now \<le> deadline_after after now \<and> deadline_after after now \<le> time_point_max
    \<and> (0 \<le> after \<and> now + after \<le> time_point_max \<longrightarrow>
         deadline_after after now = now + after \<and> time_left (deadline_after after now) now = after)"
  using deadline_after_bounds [OF assms] time_left_deadline [OF assms(1)] by blast

end
