(* ===== verification/Io_Context_Pool.thy ===== *)
theory Io_Context_Pool
  imports Prelude
begin

text \<open>
  \<^verbatim>\<open>middleware-cpp/server/io_context_pool.h\<close>: a fixed set of I/O contexts handed out in
  turn, each run by a fixed number of threads. An I/O context is its position in the pool's
  vector. \<open>context_source\<close> is what the server and the connections rely on: every request for
  a context gives one of the pool's contexts and leaves the set of contexts alone.
\<close>

type_synonym io_context = nat

datatype pool_error = RuntimeError string

record IOContextPool =
  ioContexts :: "io_context list"
  work_guards :: "io_context list"
  nextIOContext :: nat
  threadsPerContext :: nat

text \<open>The constructor: refuses an empty pool, else creates the contexts and a guard for each.\<close>

definition new_IOContextPool :: "nat \<Rightarrow> nat \<Rightarrow> pool_error + IOContextPool" where
  "new_IOContextPool poolSize threads =
     (if poolSize = 0 then Inl (RuntimeError ''IO Context Pool size is 0'')
      else Inr \<lparr>ioContexts = [0..<poolSize], work_guards = [0..<poolSize],
                nextIOContext = 0, threadsPerContext = threads\<rparr>)"

definition getIOContext :: "IOContextPool \<Rightarrow> io_context \<times> IOContextPool" where
  "getIOContext p =
     (let context = ioContexts p ! nextIOContext p;
          next = nextIOContext p + 1 in
      (context, p\<lparr>nextIOContext := (if next = length (ioContexts p) then 0 else next)\<rparr>))"

text \<open>\<^verbatim>\<open>run()\<close>: the contexts the started threads run, in the order they are started.\<close>

definition run_pool :: "IOContextPool \<Rightarrow> io_context list" where
  "run_pool p =
     concat (map (\<lambda>i. map (\<lambda>j. ioContexts p ! i) [0..<threadsPerContext p])
               [0..<length (ioContexts p)])"

definition pool_inv :: "IOContextPool \<Rightarrow> bool" where
  "pool_inv p \<longleftrightarrow> nextIOContext p < length (ioContexts p) \<and> work_guards p = ioContexts p"

lemma pool_inv_new: "new_IOContextPool n t = Inr p \<Longrightarrow> pool_inv p"
  by (auto simp: new_IOContextPool_def pool_inv_def split: if_splits)

lemma getIOContext_next:
  "pool_inv p \<Longrightarrow>
   nextIOContext (snd (getIOContext p)) = (nextIOContext p + 1) mod length (ioContexts p)"
  by (auto simp: getIOContext_def pool_inv_def Let_def)

section \<open>The interface the clients of the pool use\<close>

locale context_source =
  fixes invar :: "'p \<Rightarrow> bool"
    and get :: "'p \<Rightarrow> 'c \<times> 'p"
    and contexts :: "'p \<Rightarrow> 'c list"
  assumes get_in: "invar p \<Longrightarrow> fst (get p) \<in> set (contexts p)"
    and get_contexts: "invar p \<Longrightarrow> contexts (snd (get p)) = contexts p"
    and get_invar: "invar p \<Longrightarrow> invar (snd (get p))"
begin

fun take_n :: "nat \<Rightarrow> 'p \<Rightarrow> 'c list \<times> 'p" where
  "take_n 0 p = ([], p)"
| "take_n (Suc n) p =
     (let (c, p') = get p; (cs, p'') = take_n n p' in (c # cs, p''))"

lemma take_n_invar: "invar p \<Longrightarrow> invar (snd (take_n n p))"
proof (induction n arbitrary: p)
  case 0
  then show ?case by simp
next
  case (Suc n)
  then have "invar (snd (take_n n (snd (get p))))"
    by (intro Suc.IH get_invar)
  then show ?case by (auto simp: Let_def split: prod.splits)
qed

lemma take_n_contexts: "invar p \<Longrightarrow> contexts (snd (take_n n p)) = contexts p"
proof (induction n arbitrary: p)
  case 0
  then show ?case by simp
next
  case (Suc n)
  then have "contexts (snd (take_n n (snd (get p)))) = contexts (snd (get p))"
    by (intro Suc.IH get_invar)
  then show ?case using Suc.prems by (auto simp: Let_def get_contexts split: prod.splits)
qed

lemma take_n_in: "invar p \<Longrightarrow> set (fst (take_n n p)) \<subseteq> set (contexts p)"
proof (induction n arbitrary: p)
  case 0
  then show ?case by simp
next
  case (Suc n)
  then have "set (fst (take_n n (snd (get p)))) \<subseteq> set (contexts (snd (get p)))"
    by (intro Suc.IH get_invar)
  then show ?case
    using Suc.prems get_in [of p] by (auto simp: Let_def get_contexts split: prod.splits)
qed

end

lemma getIOContext_contexts: "ioContexts (snd (getIOContext p)) = ioContexts p"
  by (simp add: getIOContext_def Let_def)

lemma getIOContext_inv: "pool_inv p \<Longrightarrow> pool_inv (snd (getIOContext p))"
  by (auto simp: getIOContext_def pool_inv_def Let_def)

interpretation pool: context_source pool_inv getIOContext ioContexts
  by unfold_locales
     (auto simp: getIOContext_contexts getIOContext_inv getIOContext_def pool_inv_def Let_def)

text \<open>The contexts that \<open>n\<close> requests in a row get.\<close>

fun getIOContexts :: "nat \<Rightarrow> IOContextPool \<Rightarrow> io_context list" where
  "getIOContexts 0 p = []"
| "getIOContexts (Suc n) p = fst (getIOContext p) # getIOContexts n (snd (getIOContext p))"

lemma getIOContexts_take_n: "getIOContexts n p = fst (pool.take_n n p)"
  by (induction n arbitrary: p) (auto simp: Let_def split: prod.splits)

lemma getIOContexts_round_robin:
  assumes "pool_inv p"
  shows "getIOContexts n p =
     map (\<lambda>k. ioContexts p ! ((nextIOContext p + k) mod length (ioContexts p))) [0..<n]"
  using assms
proof (induction n arbitrary: p)
  case 0
  then show ?case by simp
next
  case (Suc n)
  let ?q = "snd (getIOContext p)" and ?m = "length (ioContexts p)"
  have "getIOContexts n ?q =
      map (\<lambda>k. ioContexts ?q ! ((nextIOContext ?q + k) mod length (ioContexts ?q))) [0..<n]"
    using Suc.prems by (intro Suc.IH getIOContext_inv)
  also have "\<dots> = map (\<lambda>k. ioContexts p ! ((nextIOContext p + Suc k) mod ?m)) [0..<n]"
    using Suc.prems
    by (simp add: getIOContext_contexts getIOContext_next mod_add_left_eq)
  also have "\<dots> = map (\<lambda>k. ioContexts p ! ((nextIOContext p + k) mod ?m)) (map Suc [0..<n])"
    by simp
  finally have tail: "getIOContexts n ?q =
      map (\<lambda>k. ioContexts p ! ((nextIOContext p + k) mod ?m)) [1..<Suc n]"
    by (simp only: map_Suc_upt One_nat_def)
  have "fst (getIOContext p) = ioContexts p ! ((nextIOContext p + 0) mod ?m)"
    using Suc.prems by (simp add: getIOContext_def pool_inv_def Let_def)
  with tail show ?case
    by (simp only: getIOContexts.simps upt_conv_Cons [of 0 "Suc n"] list.map) simp
qed

lemma count_list_replicate: "count_list (replicate k x) c = (if x = c then k else 0)"
  by (induction k) auto

lemma run_pool_count:
  assumes "pool_inv p" and "distinct (ioContexts p)" and "c \<in> set (ioContexts p)"
  shows "count_list (run_pool p) c = threadsPerContext p"
proof -
  have replicated: "run_pool p = concat (map (replicate (threadsPerContext p)) (ioContexts p))"
    unfolding run_pool_def
    by (subst (4) map_nth [symmetric]) (simp add: map_replicate_const comp_def)
  have "count_list (concat (map (replicate k) xs)) c = (if c \<in> set xs then k else 0)"
    if "distinct xs" for k and xs :: "nat list"
    using that by (induction xs) (auto simp: count_list_replicate)
  then show ?thesis unfolding replicated using assms by simp
qed

section \<open>Properties\<close>

text \<open>Functional. A pool that is asked for a context over and over hands its contexts out in turn, and the threads
  that it starts run every context the configured number of times.\<close>
lemma pool_round_robin:
  assumes "new_IOContextPool n t = Inr p"
  shows "getIOContexts k p = map (\<lambda>i. i mod n) [0..<k]
    \<and> (\<forall>c < n. count_list (run_pool p) c = t)"
proof -
  have inv: "pool_inv p" by (rule pool_inv_new [OF assms])
  have p: "ioContexts p = [0..<n]" "nextIOContext p = 0" "threadsPerContext p = t" "0 < n"
    using assms by (auto simp: new_IOContextPool_def split: if_splits)
  have "getIOContexts k p = map (\<lambda>i. i mod n) [0..<k]"
    using getIOContexts_round_robin [OF inv, of k] p by simp
  moreover have "count_list (run_pool p) c = t" if "c < n" for c
    using run_pool_count [OF inv, of c] p that by simp
  ultimately show ?thesis by blast
qed

end
