(* ===== verification/Ozo_Connection.thy ===== *)
theory Ozo_Connection
  imports Ozo_Deadline Io_Context_Pool
begin

text \<open>
  \<^verbatim>\<open>ozo/connection.h\<close>, \<^verbatim>\<open>ozo/impl/connection.h\<close>, \<^verbatim>\<open>ozo/impl/transaction_status.h\<close>,
  \<^verbatim>\<open>ozo/connection_pool.h\<close> and \<^verbatim>\<open>ozo/impl/connection_pool.h\<close>: a connection that owns a libpq
  handle and watches its socket, and the pooled connection that gives its handle back to the pool
  or has it thrown away. libpq's functions on a handle (\<^verbatim>\<open>PQstatus\<close>, \<^verbatim>\<open>PQsocket\<close>,
  \<^verbatim>\<open>PQtransactionStatus\<close>) are parameters; a null handle is \<open>None\<close>.
\<close>

section \<open>Status of a handle\<close>

datatype pg_trans_status =
  PQTRANS_IDLE | PQTRANS_ACTIVE | PQTRANS_INTRANS | PQTRANS_INERROR | PQTRANS_UNKNOWN

datatype transaction_status =
  trans_unknown | trans_idle | trans_active | trans_transaction | trans_error

record 'h libpq =
  pq_status_bad :: "'h \<Rightarrow> bool"
  pq_socket :: "'h \<Rightarrow> int"
  pq_transaction_status :: "'h \<Rightarrow> pg_trans_status"
  pq_error_message :: "'h \<Rightarrow> string"

definition connection_status_bad :: "'h libpq \<Rightarrow> 'h option \<Rightarrow> bool" where
  "connection_status_bad pq handle =
     (case handle of None \<Rightarrow> True | Some h \<Rightarrow> pq_status_bad pq h)"

text \<open>libpq answers \<^verbatim>\<open>PQTRANS_UNKNOWN\<close> and socket \<^verbatim>\<open>-1\<close> for a null handle.\<close>

definition PQtransactionStatus :: "'h libpq \<Rightarrow> 'h option \<Rightarrow> pg_trans_status" where
  "PQtransactionStatus pq handle =
     (case handle of None \<Rightarrow> PQTRANS_UNKNOWN | Some h \<Rightarrow> pq_transaction_status pq h)"

definition PQsocket :: "'h libpq \<Rightarrow> 'h option \<Rightarrow> int" where
  "PQsocket pq handle = (case handle of None \<Rightarrow> - 1 | Some h \<Rightarrow> pq_socket pq h)"

definition get_transaction_status :: "'h libpq \<Rightarrow> 'h option option \<Rightarrow> transaction_status" where
  "get_transaction_status pq conn =
     (case conn of
        None \<Rightarrow> trans_unknown
      | Some handle \<Rightarrow>
          (case PQtransactionStatus pq handle of
             PQTRANS_UNKNOWN \<Rightarrow> trans_unknown
           | PQTRANS_IDLE \<Rightarrow> trans_idle
           | PQTRANS_ACTIVE \<Rightarrow> trans_active
           | PQTRANS_INTRANS \<Rightarrow> trans_transaction
           | PQTRANS_INERROR \<Rightarrow> trans_error))"

text \<open>\<^verbatim>\<open>string_view::find_last_not_of(' ')\<close> and the trimming built on it.\<close>

fun find_last_not_of :: "char \<Rightarrow> string \<Rightarrow> nat option" where
  "find_last_not_of c [] = None"
| "find_last_not_of c (x # xs) =
     (case find_last_not_of c xs of
        Some i \<Rightarrow> Some (Suc i)
      | None \<Rightarrow> if x = c then None else Some 0)"

definition remove_suffix :: "nat \<Rightarrow> string \<Rightarrow> string" where
  "remove_suffix n v = take (length v - n) v"

definition connection_error_message :: "string \<Rightarrow> string" where
  "connection_error_message v =
     (case find_last_not_of (CHR '' '') v of
        None \<Rightarrow> remove_suffix (length v) v
      | Some trim_pos \<Rightarrow>
          if trim_pos < length v then remove_suffix (length v - trim_pos - 1) v else v)"

definition error_message_of :: "'h libpq \<Rightarrow> 'h option \<Rightarrow> string" where
  "error_message_of pq conn =
     (case conn of None \<Rightarrow> '''' | Some h \<Rightarrow> connection_error_message (pq_error_message pq h))"

lemma find_last_not_of_None: "find_last_not_of c v = None \<longleftrightarrow> v = replicate (length v) c"
  by (induction v) (auto split: option.splits)

lemma find_last_not_of_Some:
  "find_last_not_of c v = Some i \<Longrightarrow>
   i < length v \<and> v ! i \<noteq> c \<and> drop (Suc i) v = replicate (length v - Suc i) c"
proof (induction v arbitrary: i)
  case Nil
  then show ?case by simp
next
  case (Cons x v)
  then show ?case
    using find_last_not_of_None [of c v]
    by (cases "find_last_not_of c v") (auto split: if_splits)
qed

text \<open>The message without its trailing spaces, and with nothing else removed.\<close>

lemma connection_error_message_trims:
  "\<exists>n. v = connection_error_message v @ replicate n (CHR '' '')"
proof (cases "find_last_not_of (CHR '' '') v")
  case None
  then have "v = replicate (length v) (CHR '' '')" by (simp only: find_last_not_of_None)
  moreover have "connection_error_message v = []"
    using None by (simp add: connection_error_message_def remove_suffix_def)
  ultimately show ?thesis by auto
next
  case (Some i)
  note i = find_last_not_of_Some [OF Some]
  have "connection_error_message v = take (Suc i) v"
    using Some i by (simp add: connection_error_message_def remove_suffix_def)
  then have "v = connection_error_message v @ drop (Suc i) v" by simp
  then show ?thesis using i by metis
qed

lemma connection_error_message_trimmed:
  assumes "connection_error_message v \<noteq> []"
  shows "last (connection_error_message v) \<noteq> CHR '' ''"
proof (cases "find_last_not_of (CHR '' '') v")
  case None
  then show ?thesis
    using assms by (simp add: connection_error_message_def remove_suffix_def)
next
  case (Some i)
  note i = find_last_not_of_Some [OF Some]
  have "connection_error_message v = take (Suc i) v"
    using Some i by (simp add: connection_error_message_def remove_suffix_def)
  moreover have "last (take (Suc i) v) = v ! i" using i by (simp add: take_Suc_conv_app_nth)
  ultimately show ?thesis using i by simp
qed

section \<open>ozo::connection\<close>

record ('h, 'o) connection =
  conn_handle :: "'h option"
  conn_socket :: "int option"
  conn_oid_map :: 'o
  conn_error_context :: string

definition new_connection :: "'o \<Rightarrow> ('h, 'o) connection" where
  "new_connection om =
     \<lparr>conn_handle = None, conn_socket = None, conn_oid_map = om, conn_error_context = ''''\<rparr>"

definition connection_assign ::
    "'h libpq \<Rightarrow> 'h option \<Rightarrow> ('h, 'o) connection \<Rightarrow> ozo_error option \<times> ('h, 'o) connection" where
  "connection_assign pq handle c =
     (let fd = PQsocket pq handle in
      if fd = - 1 then (Some pq_socket_failed, c)
      else (None, c\<lparr>conn_socket := Some fd, conn_handle := handle\<rparr>))"

definition connection_release ::
    "('h, 'o) connection \<Rightarrow> 'h option \<times> ('h, 'o) connection" where
  "connection_release c = (conn_handle c, c\<lparr>conn_socket := None, conn_handle := None\<rparr>)"

text \<open>\<^verbatim>\<open>close()\<close>: the released handle is finished; the handle that goes is returned as a value.\<close>

definition connection_close :: "('h, 'o) connection \<Rightarrow> 'h option \<times> ('h, 'o) connection" where
  "connection_close c = connection_release c"

definition connection_is_bad :: "'h libpq \<Rightarrow> ('h, 'o) connection \<Rightarrow> bool" where
  "connection_is_bad pq c = connection_status_bad pq (conn_handle c)"

definition connection_is_open :: "('h, 'o) connection \<Rightarrow> bool" where
  "connection_is_open c = (conn_handle c \<noteq> None)"

definition connection_bad :: "'h libpq \<Rightarrow> ('h, 'o) connection option \<Rightarrow> bool" where
  "connection_bad pq conn = (case conn of None \<Rightarrow> True | Some c \<Rightarrow> connection_is_bad pq c)"

text \<open>A connection holds a handle exactly when it watches that handle's socket.\<close>

definition connection_inv :: "'h libpq \<Rightarrow> ('h, 'o) connection \<Rightarrow> bool" where
  "connection_inv pq c \<longleftrightarrow>
     conn_socket c = map_option (pq_socket pq) (conn_handle c)
     \<and> (\<forall>h. conn_handle c = Some h \<longrightarrow> pq_socket pq h \<noteq> - 1)"

lemma connection_inv_new: "connection_inv pq (new_connection om)"
  by (simp add: connection_inv_def new_connection_def)

lemma connection_inv_assign:
  "connection_inv pq c \<Longrightarrow> connection_inv pq (snd (connection_assign pq handle c))"
  by (cases handle) (auto simp: connection_inv_def connection_assign_def PQsocket_def Let_def)

lemma connection_inv_release:
  "connection_inv pq c \<Longrightarrow> connection_inv pq (snd (connection_release c))"
  by (simp add: connection_inv_def connection_release_def)

lemma connection_assign_release:
  assumes "connection_assign pq (Some h) c = (None, d)"
  shows "fst (connection_release d) = Some h \<and> \<not> connection_is_open (snd (connection_release d))"
  using assms
  by (auto simp: connection_assign_def connection_release_def connection_is_open_def Let_def
      split: if_splits)

lemma connection_close_bad: "connection_is_bad pq (snd (connection_close c))"
  by (simp add: connection_close_def connection_release_def connection_is_bad_def
      connection_status_bad_def)

section \<open>The connection pool\<close>

record connection_pool_config =
  cfg_capacity :: nat
  cfg_queue_capacity :: nat
  cfg_idle_timeout :: int
  cfg_lifespan :: int

definition seconds :: "int \<Rightarrow> int" where "seconds n = n * 1000000000"
definition hours :: "int \<Rightarrow> int" where "hours n = seconds (n * 3600)"

definition default_connection_pool_config :: connection_pool_config where
  "default_connection_pool_config =
     \<lparr>cfg_capacity = 20, cfg_queue_capacity = 128, cfg_idle_timeout = seconds 60,
      cfg_lifespan = hours 24\<rparr>"

record ('h, 'o) connection_rep =
  rep_safe_handle :: "'h option"
  rep_oid_map :: 'o
  rep_error_context :: string

text \<open>A handle of the resource pool: empty, or holding a connection representation.\<close>

type_synonym ('h, 'o) pool_handle = "('h, 'o) connection_rep option"

record ('h, 'o) pooled_connection =
  pc_rep :: "('h, 'o) pool_handle"
  pc_ex :: io_context
  pc_stream :: "int option"

definition pool_native_handle :: "('h, 'o) pool_handle \<Rightarrow> 'h option" where
  "pool_native_handle rep = (case rep of None \<Rightarrow> None | Some r \<Rightarrow> rep_safe_handle r)"

definition new_pooled_connection ::
    "'h libpq \<Rightarrow> io_context \<Rightarrow> ('h, 'o) pool_handle \<Rightarrow> ('h, 'o) pooled_connection" where
  "new_pooled_connection pq ex rep =
     (let fd = PQsocket pq (pool_native_handle rep) in
      \<lparr>pc_rep = rep, pc_ex = ex, pc_stream = (if fd \<noteq> - 1 then Some fd else None)\<rparr>)"

definition pooled_is_bad :: "'h libpq \<Rightarrow> ('h, 'o) pooled_connection \<Rightarrow> bool" where
  "pooled_is_bad pq c = connection_status_bad pq (pool_native_handle (pc_rep c))"

definition pooled_close :: "('h, 'o) pooled_connection \<Rightarrow> ('h, 'o) pooled_connection res" where
  "pooled_close c =
     (case pc_rep c of
        None \<Rightarrow> Inl NullPointer
      | Some r \<Rightarrow> Inr (c\<lparr>pc_stream := None, pc_rep := Some (r\<lparr>rep_safe_handle := None\<rparr>)\<rparr>))"

text \<open>What the destructor does with the handle: it goes back to the pool, or is wasted.\<close>

datatype ('h, 'o) disposal = NothingToDo | Recycle "('h, 'o) connection_rep" | Waste

definition pooled_destroy :: "'h libpq \<Rightarrow> ('h, 'o) pooled_connection \<Rightarrow> ('h, 'o) disposal" where
  "pooled_destroy pq c =
     (case pc_rep c of
        None \<Rightarrow> NothingToDo
      | Some r \<Rightarrow>
          if pooled_is_bad pq c
             \<or> get_transaction_status pq (Some (pool_native_handle (pc_rep c))) \<noteq> trans_idle
          then Waste else Recycle r)"

text \<open>
  \<^verbatim>\<open>pooled_connection_wrapper\<close>: the pool answers with an error, with a handle that can be used, or
  with one that has to be connected through the source first; the source's answer is wrapped in turn.
\<close>

datatype ('h, 'o) pool_answer =
    CallHandler error_code "('h, 'o) pooled_connection option"
  | CallSource io_context time_constraint "('h, 'o) pool_handle"

definition pooled_connection_wrapper ::
    "'h libpq \<Rightarrow> io_context \<Rightarrow> time_constraint \<Rightarrow> error_code \<Rightarrow> ('h, 'o) pool_handle \<Rightarrow>
     ('h, 'o) pool_answer" where
  "pooled_connection_wrapper pq io t ec handle =
     (if ec_value ec \<noteq> 0 then CallHandler ec None
      else if handle \<noteq> None \<and> \<not> connection_status_bad pq (pool_native_handle handle)
      then CallHandler ec (Some (new_pooled_connection pq io handle))
      else CallSource io t handle)"

definition source_wrapper ::
    "'h libpq \<Rightarrow> io_context \<Rightarrow> error_code \<Rightarrow> ('h, 'o) connection option \<Rightarrow>
     ('h, 'o) pool_answer" where
  "source_wrapper pq ex ec conn =
     (case conn of
        Some target \<Rightarrow>
          CallHandler ec
            (Some (new_pooled_connection pq ex
               (Some \<lparr>rep_safe_handle = fst (connection_release target),
                      rep_oid_map = conn_oid_map target,
                      rep_error_context = conn_error_context target\<rparr>)))
      | None \<Rightarrow> CallHandler ec None)"

definition queue_timeout :: "int \<Rightarrow> time_constraint \<Rightarrow> int" where
  "queue_timeout now t =
     (case t of TimePoint at \<Rightarrow> time_left at now | Duration d \<Rightarrow> d | NoConstraint \<Rightarrow> 0)"

text \<open>A stored handle that is handed out without connecting is a good one.\<close>

lemma pool_hands_out_good:
  assumes "pooled_connection_wrapper pq io t no_error handle = CallHandler ec (Some c)"
  shows "\<not> pooled_is_bad pq c \<and> pc_rep c = handle \<and> pc_ex c = io"
  using assms
  by (auto simp: pooled_connection_wrapper_def pooled_is_bad_def new_pooled_connection_def Let_def
      no_error_def split: if_splits)

text \<open>
  Only a good connection outside a transaction goes back to the pool, and such a connection is handed
  out again as it is.
\<close>

lemma pooled_destroy_recycle:
  "pooled_destroy pq c = Recycle r \<longleftrightarrow>
   pc_rep c = Some r \<and> (\<exists>h. rep_safe_handle r = Some h \<and> \<not> pq_status_bad pq h
     \<and> pq_transaction_status pq h = PQTRANS_IDLE)"
  by (auto simp: pooled_destroy_def pooled_is_bad_def connection_status_bad_def
      get_transaction_status_def PQtransactionStatus_def pool_native_handle_def
      split: option.splits pg_trans_status.splits if_splits)

lemma pool_recycle_reuse:
  assumes "pooled_destroy pq c = Recycle r"
  shows "pooled_connection_wrapper pq io t no_error (Some r) =
    CallHandler no_error (Some (new_pooled_connection pq io (Some r)))"
  using assms
  by (auto simp: pooled_destroy_recycle pooled_connection_wrapper_def connection_status_bad_def
      pool_native_handle_def no_error_def)

lemma pooled_close_wasted:
  assumes "pooled_close c = Inr d"
  shows "pooled_is_bad pq d \<and> pooled_destroy pq d = Waste"
  using assms
  by (auto simp: pooled_close_def pooled_destroy_def pooled_is_bad_def connection_status_bad_def
      pool_native_handle_def split: option.splits)

section \<open>Properties\<close>

text \<open>C11 Invariant. A connection goes back into the pool only when its handle is good and outside any transaction,
  and the pool hands exactly such a handle out again without reconnecting.\<close>
theorem pool_recycles_only_idle:
  assumes "pooled_destroy pq c = Recycle r"
  shows "(\<exists>h. rep_safe_handle r = Some h \<and> \<not> pq_status_bad pq h \<and> pq_transaction_status pq h = PQTRANS_IDLE)
    \<and> pooled_connection_wrapper pq io t no_error (Some r) =
        CallHandler no_error (Some (new_pooled_connection pq io (Some r)))
    \<and> \<not> pooled_is_bad pq (new_pooled_connection pq io (Some r))"
  using assms pool_recycle_reuse [OF assms] pool_hands_out_good [OF pool_recycle_reuse [OF assms]]
  by (auto simp: pooled_destroy_recycle)

definition sample_pq :: "nat libpq" where
  "sample_pq = \<lparr>pq_status_bad = (\<lambda>h. h = 0), pq_socket = int,
     pq_transaction_status = (\<lambda>h. if h = 1 then PQTRANS_IDLE else PQTRANS_INTRANS),
     pq_error_message = (\<lambda>_. ''lost  '')\<rparr>"

definition sample_rep :: "(nat, unit) connection_rep" where
  "sample_rep = \<lparr>rep_safe_handle = Some 1, rep_oid_map = (), rep_error_context = []\<rparr>"

theorem pool_recycles_only_idle_witness:
  "\<not> pooled_is_bad sample_pq (new_pooled_connection sample_pq 0 (Some sample_rep))"
proof -
  have "pooled_destroy sample_pq (new_pooled_connection sample_pq 0 (Some sample_rep)) = Recycle sample_rep"
    by (simp add: pooled_destroy_recycle new_pooled_connection_def sample_pq_def sample_rep_def Let_def)
  then show ?thesis using pool_recycles_only_idle by blast
qed

end
