(* ===== verification/Repository.thy ===== *)
theory Repository
  imports Server_Messages Ozo_Query_Builder Ozo_Connection
begin

text \<open>
  \<^verbatim>\<open>middleware-cpp/server/db/repository.h\<close>: the two queries, the configuration of the database
  connection pool and the completions of the two requests. The completion of a security request
  keeps the row's bytes in a local vector: the heap holds them while the handler runs and not
  afterwards.
\<close>

section \<open>The pool and the queries\<close>

definition get_connection_pool_config :: connection_pool_config where
  "get_connection_pool_config =
     default_connection_pool_config
       \<lparr>cfg_capacity := 10000, cfg_queue_capacity := 128, cfg_idle_timeout := seconds 60,
        cfg_lifespan := hours 24\<rparr>"

datatype db_param = StringParam bytes | ShortParam short

definition get_security_query :: "bytes \<Rightarrow> db_param query_element list" where
  "get_security_query name =
     builder_plus_builder
       (builder_plus_value
          (SQL ''select name, typeId, lastTransaction, updateCount, dateCreated, dbIdUpdated, versionInfo, mem from objects where nameLower = '')
          (StringParam name))
       (SQL '''')"

text \<open>The literal of the source has a quote on either side of the prefix.\<close>

definition quote :: string where "quote = [CHR 0x27]"

definition lookup_query :: "bytes \<Rightarrow> short \<Rightarrow> db_param query_element list" where
  "lookup_query prefix count =
     builder_plus_value
       (builder_plus_builder
          (builder_plus_value
             (SQL (''select name from objects where nameLower >='' @ quote))
             (StringParam prefix))
          (SQL (quote @ '' LIMIT '')))
       (ShortParam count)"

record db_request =
  dr_context :: io_context
  dr_query :: "db_param query"

definition get_security_async :: "io_context \<Rightarrow> bytes \<Rightarrow> db_request option" where
  "get_security_async dbContext name =
     map_option (\<lambda>q. \<lparr>dr_context = dbContext, dr_query = q\<rparr>) (builder_build (get_security_query name))"

definition lookup_async :: "io_context \<Rightarrow> bytes \<Rightarrow> short \<Rightarrow> db_request option" where
  "lookup_async dbContext prefix count =
     map_option (\<lambda>q. \<lparr>dr_context = dbContext, dr_query = q\<rparr>) (builder_build (lookup_query prefix count))"

section \<open>Completions\<close>

record security_row =
  row_name :: bytes
  row_typeId :: cint
  row_lastTransaction :: "64 word"
  row_updateCount :: "64 word"
  row_dateCreated :: cint
  row_dbIdUpdated :: cint
  row_versionInfo :: cint
  row_mem :: bytes

text \<open>
  The assignments to the fields of \<^verbatim>\<open>Security\<close>, with the conversions of the language: 64-bit
  columns into \<^verbatim>\<open>int\<close>, \<^verbatim>\<open>int\<close> columns into \<^verbatim>\<open>short\<close>; the update time is a constant.
\<close>

definition security_of_row :: "addr \<Rightarrow> security_row \<Rightarrow> Security" where
  "security_of_row blob row =
     \<lparr>sec_name = row_name row, sec_type = row_typeId row,
      sec_lastTransactionId = ucast (row_lastTransaction row),
      sec_updateCount = ucast (row_updateCount row),
      sec_timeUpdated = 10001,
      sec_dateCreated = ucast (row_dateCreated row),
      sec_dbIDUpdated = ucast (row_dbIdUpdated row),
      sec_versionInfo = ucast (row_versionInfo row),
      sec_blobSize = word_of_nat (length (row_mem row)),
      sec_blob = blob\<rparr>"

text \<open>
  The completion of the security request: nothing on an error; otherwise the first row, if any, is
  handed to the message's handler while the local vector \<open>blob\<close> lives at the address \<open>a\<close>.
\<close>

definition get_security_completion ::
    "heap \<Rightarrow> addr \<Rightarrow> bool \<Rightarrow> security_row list \<Rightarrow> SrvMsgGetByName \<Rightarrow>
     (SrvMsgGetByName \<times> effect option \<times> heap) res" where
  "get_security_completion h a ec rows m =
     (if ec then Inr (m, None, h)
      else (case rows of
              row # _ \<Rightarrow>
                (let h' = h(a \<mapsto> row_mem row) in
                 rbind (GetByName_handler m (Some (security_of_row a row))) (\<lambda>(m', e).
                 Inr (m', Some e, h'(a := None))))
            | [] \<Rightarrow>
                rbind (GetByName_handler m None) (\<lambda>(m', e). Inr (m', Some e, h))))"

definition lookup_completion ::
    "bool \<Rightarrow> bytes list \<Rightarrow> SRVMsgNameLookup \<Rightarrow> SRVMsgNameLookup \<times> effect option" where
  "lookup_completion ec rows m =
     (if ec then (m, None)
      else (let objects = foldl (\<lambda>objects value. objects @ [value]) [] rows;
                (m', e) = NameLookup_handler m objects in (m', Some e)))"

section \<open>What the queries say\<close>

text \<open>
  The parameters that a statement refers to: the numbers after a dollar sign outside a quoted
  literal, as PostgreSQL's lexer reads them.
\<close>

fun sql_params :: "bool \<Rightarrow> string \<Rightarrow> char list" where
  "sql_params quoted [] = []"
| "sql_params quoted [c] = []"
| "sql_params quoted (c # d # s) =
     (if c = CHR 0x27 then sql_params (\<not> quoted) (d # s)
      else if c = CHR ''$'' \<and> \<not> quoted then d # sql_params quoted (d # s)
      else sql_params quoted (d # s))"

lemma get_security_query_build:
  "builder_build (get_security_query name) =
     Some \<lparr>q_text = ''select name, typeId, lastTransaction, updateCount, dateCreated, dbIdUpdated, versionInfo, mem from objects where nameLower = $1'',
           q_params = [StringParam name]\<rparr>"
  by (simp add: get_security_query_def builder_defs builder_build_def builder_text_render make_query_def
      to_string_1 to_string_2)

lemma lookup_query_build:
  "builder_build (lookup_query prefix count) =
     Some \<lparr>q_text = ''select name from objects where nameLower >='' @ quote @ ''$1'' @ quote @ '' LIMIT $2'',
           q_params = [StringParam prefix, ShortParam count]\<rparr>"
  by (simp add: lookup_query_def builder_defs builder_build_def builder_text_render make_query_def
      to_string_1 to_string_2)

lemma get_security_sql_params:
  "map_option (\<lambda>q. sql_params False (q_text q)) (builder_build (get_security_query name)) = Some ''1''"
  unfolding get_security_query_build by simp

text \<open>The placeholder of the prefix stands inside a quoted literal: only the limit is a parameter.\<close>

lemma lookup_sql_params:
  "map_option (\<lambda>q. sql_params False (q_text q)) (builder_build (lookup_query prefix count)) = Some ''2''"
  unfolding lookup_query_build by (simp add: quote_def)

section \<open>Completions and the heap\<close>

lemma lookup_completion_ok:
  "lookup_completion False rows m =
     (m\<lparr>nm_response := Some (new_NameLookupResponse (word_of_nat (length rows)) rows)\<rparr>, Some PostWrite)"
proof -
  have "foldl (\<lambda>objects value. objects @ [value]) acc rows = acc @ rows" for acc
    by (induction rows arbitrary: acc) simp_all
  then show ?thesis by (simp add: lookup_completion_def NameLookup_handler_def)
qed

text \<open>
  A security that was found is answered with its fields, and the bytes that the response points to
  are gone when the posted write runs.
\<close>

lemma get_security_completion_found:
  "get_security_completion h a False (row # rows) m =
     Inr (m\<lparr>gm_response := Some \<lparr>gr_size = 6 + (word_of_nat (length (row_name row)) + 25),
             gr_status = GBN_SUCCESS, gr_error_type = 0,
             gr_sec = Some (security_of_row a row)\<rparr>\<rparr>, Some PostWrite, h(a := None))"
  by (simp add: get_security_completion_def GetByName_handler_def new_GetByNameResponse_def
      GBN_SUCCESS_def GBN_ERROR_def RESPONSE_FIELD_SIZE_def Let_def security_of_row_def)

lemma get_security_completion_missing:
  "get_security_completion h a False [] m =
     Inr (m\<lparr>gm_response := Some \<lparr>gr_size = 8, gr_status = GBN_ERROR, gr_error_type = 0,
             gr_sec = None\<rparr>\<rparr>, Some PostWrite, h)"
  by (simp add: get_security_completion_def GetByName_handler_def new_GetByNameResponse_def)

lemma get_security_completion_error:
  "get_security_completion h a True rows m = Inr (m, None, h)"
  by (simp add: get_security_completion_def)

section \<open>Properties\<close>

text \<open>Functional. The statement for a security refers to its one parameter, the name. The statement for a prefix
  lookup is built with two parameters but refers to the second only: the placeholder of the prefix stands between
  quotes and is the literal text \<^verbatim>\<open>$1\<close>, whatever prefix was asked for.\<close>
lemma lookup_ignores_prefix:
  "map_option (\<lambda>q. (sql_params False (q_text q), length (q_params q)))
     (builder_build (get_security_query name)) = Some (''1'', 1)
   \<and> map_option (\<lambda>q. (sql_params False (q_text q), length (q_params q)))
     (builder_build (lookup_query prefix count)) = Some (''2'', 2)
   \<and> map_option q_text (builder_build (lookup_query prefix count)) =
     map_option q_text (builder_build (lookup_query prefix' count'))"
  using get_security_sql_params [of name] lookup_sql_params [of prefix count]
  by (simp add: get_security_query_build lookup_query_build)

end
