(* ===== verification/Server_Connection.thy ===== *)
theory Server_Connection
  imports Msg_Processor Repository Io_Context_Pool
begin

text \<open>
  \<^verbatim>\<open>middleware-cpp/server/connection.h\<close> and class \<^verbatim>\<open>Connection\<close> of
  \<^verbatim>\<open>protocol/messages/message.h\<close>: the read handler that gathers a message and processes it, and
  the write handler that sends the response and reads again. At any time at most one asynchronous
  operation is outstanding; \<open>co_pending\<close> says which. \<open>conn_react\<close> is what the connection does when
  the outstanding operation completes with an event, and \<open>conn_reach\<close> the states that sequences of
  events lead to.

  \<open>feed_frame\<close> is the framing contract: however a frame is cut into reads, the message is processed
  once, when its last byte is there, on the same buffer as if it had come in one piece.
\<close>

section \<open>State\<close>

definition BUFFER_SIZE :: nat where "BUFFER_SIZE = 32768"

datatype pending =
    Idle
  | Reading nat
  | SecurityRequested "db_request option"
  | LookupRequested "db_request option"
  | WritePosted
  | Writing bytes

record Connection =
  co_index :: cint
  co_msg_size :: size_t
  co_header_size :: size_t
  co_buf :: bytes
  co_msgProcessor :: MsgProcessor
  co_repoContextPool :: IOContextPool
  co_open :: bool
  co_heap :: heap
  co_pending :: pending

definition new_Connection :: "IOContextPool \<Rightarrow> Connection" where
  "new_Connection pool =
     \<lparr>co_index = 0, co_msg_size = 0, co_header_size = 2, co_buf = replicate BUFFER_SIZE 0,
      co_msgProcessor = new_MsgProcessor, co_repoContextPool = pool, co_open = True,
      co_heap = Map.empty, co_pending = Idle\<rparr>"

section \<open>Reading\<close>

text \<open>\<^verbatim>\<open>async_read_some(buffer(buf + index, BUFFER_SIZE - index), ...)\<close>\<close>

definition Connection_read :: "Connection \<Rightarrow> Connection" where
  "Connection_read c =
     c\<lparr>co_pending := Reading (unat (word_of_int (int BUFFER_SIZE - sint (co_index c)) :: size_t))\<rparr>"

text \<open>\<^verbatim>\<open>memcpy(&msg_size, buf, header_size)\<close>: the low bytes are replaced.\<close>

definition copy_low :: "size_t \<Rightarrow> bytes \<Rightarrow> size_t" where
  "copy_low old bs =
     word_of_nat (unat old div 256 ^ length bs * 256 ^ length bs + le_decode bs)"

definition Connection_perform :: "io_context \<Rightarrow> effect \<Rightarrow> Connection \<Rightarrow> Connection" where
  "Connection_perform dbContext e c =
     (case e of
        PostWrite \<Rightarrow> c\<lparr>co_pending := WritePosted\<rparr>
      | GetSecurityAsync name \<Rightarrow>
          c\<lparr>co_pending := SecurityRequested (get_security_async dbContext name)\<rparr>
      | LookupAsync prefix count \<Rightarrow>
          c\<lparr>co_pending := LookupRequested (lookup_async dbContext prefix count)\<rparr>)"

text \<open>The part of the read handler that runs on a message that is complete.\<close>

definition Connection_on_message :: "Connection \<Rightarrow> Connection res" where
  "Connection_on_message c =
     rbind (MsgProcessor_decode (co_buf c) (unat (co_header_size c)) (co_msgProcessor c)) (\<lambda>p.
     let c = c\<lparr>co_msgProcessor := p\<rparr> in
     if mp_msg p = None then Inr (c\<lparr>co_open := False, co_pending := Idle\<rparr>)
     else
       let c = (if mp_type p = MessageType_value SRV_MSG_ATTACH then c\<lparr>co_header_size := 4\<rparr> else c);
           (dbContext, pool) = getIOContext (co_repoContextPool c);
           c = c\<lparr>co_repoContextPool := pool\<rparr> in
       rbind (MsgProcessor_process p) (\<lambda>(p', e).
       Inr (Connection_perform dbContext e (c\<lparr>co_msgProcessor := p'\<rparr>))))"

datatype io_error = NoError | Eof | OtherError

definition Connection_on_read :: "io_error \<Rightarrow> bytes \<Rightarrow> Connection \<Rightarrow> Connection res" where
  "Connection_on_read ec data c =
     (if ec = OtherError then Inr (c\<lparr>co_pending := Idle\<rparr>)
      else
        rbind (write_at (co_buf c) (nat (sint (co_index c))) data) (\<lambda>buf.
        let index = co_index c + word_of_nat (length data);
            c = c\<lparr>co_buf := buf, co_index := index\<rparr> in
        rbind (if scast index \<ge> co_header_size c
               then rbind (read_at buf 0 (unat (co_header_size c))) (\<lambda>hd.
                    Inr (copy_low (co_msg_size c) hd))
               else Inr (co_msg_size c)) (\<lambda>msg_size.
        let c = c\<lparr>co_msg_size := msg_size\<rparr> in
        if (scast index :: size_t) < msg_size then Inr (Connection_read c)
        else Connection_on_message (c\<lparr>co_index := 0\<rparr>))))"

section \<open>Database completions and writing\<close>

definition Connection_perform_posted :: "effect option \<Rightarrow> Connection \<Rightarrow> Connection" where
  "Connection_perform_posted e c =
     (case e of None \<Rightarrow> c\<lparr>co_pending := Idle\<rparr> | Some e \<Rightarrow> Connection_perform 0 e c)"

definition Connection_on_security ::
    "bool \<Rightarrow> security_row list \<Rightarrow> addr \<Rightarrow> Connection \<Rightarrow> Connection res" where
  "Connection_on_security ec rows a c =
     rbind (get_security_completion (co_heap c) a ec rows (mp_getByNameMsg (co_msgProcessor c)))
       (\<lambda>(m, e, h).
        Inr (Connection_perform_posted e
          (c\<lparr>co_heap := h,
             co_msgProcessor := (co_msgProcessor c)\<lparr>mp_getByNameMsg := m\<rparr>\<rparr>)))"

definition Connection_on_lookup :: "bool \<Rightarrow> bytes list \<Rightarrow> Connection \<Rightarrow> Connection" where
  "Connection_on_lookup ec rows c =
     (let (m, e) = lookup_completion ec rows (mp_lookupMsg (co_msgProcessor c)) in
      Connection_perform_posted e
        (c\<lparr>co_msgProcessor := (co_msgProcessor c)\<lparr>mp_lookupMsg := m\<rparr>\<rparr>))"

definition Connection_write :: "Connection \<Rightarrow> Connection res" where
  "Connection_write c =
     rbind (MsgProcessor_encode (co_heap c) (co_msgProcessor c) (co_buf c)) (\<lambda>(n, buf).
     rbind (read_at buf 0 (unat n)) (\<lambda>out.
     Inr (c\<lparr>co_buf := buf, co_pending := Writing out\<rparr>)))"

definition Connection_on_write :: "io_error \<Rightarrow> Connection \<Rightarrow> Connection" where
  "Connection_on_write ec c =
     (case ec of
        NoError \<Rightarrow> Connection_read c
      | Eof \<Rightarrow> c\<lparr>co_open := False, co_pending := Idle\<rparr>
      | OtherError \<Rightarrow> c\<lparr>co_pending := Idle\<rparr>)"

section \<open>Events\<close>

text \<open>
  The completions that can follow an outstanding operation. A read into a non-empty buffer brings at
  least one byte or an end of file; a read into an empty buffer completes at once with none.
\<close>

datatype conn_event =
    ReadBytes bytes
  | ReadEof
  | ReadFailed
  | SecurityDone bool "security_row list" addr
  | LookupDone bool "bytes list"
  | RunPosted
  | WriteDone io_error

fun conn_enabled :: "pending \<Rightarrow> conn_event \<Rightarrow> bool" where
  "conn_enabled (Reading n) (ReadBytes data) \<longleftrightarrow> length data \<le> n \<and> (data = [] \<longleftrightarrow> n = 0)"
| "conn_enabled (Reading n) ReadEof \<longleftrightarrow> 0 < n"
| "conn_enabled (Reading n) ReadFailed \<longleftrightarrow> True"
| "conn_enabled (SecurityRequested q) (SecurityDone ec rows a) \<longleftrightarrow> True"
| "conn_enabled (LookupRequested q) (LookupDone ec rows) \<longleftrightarrow> True"
| "conn_enabled WritePosted RunPosted \<longleftrightarrow> True"
| "conn_enabled (Writing out) (WriteDone ec) \<longleftrightarrow> True"
| "conn_enabled _ _ \<longleftrightarrow> False"

fun conn_react :: "conn_event \<Rightarrow> Connection \<Rightarrow> Connection res" where
  "conn_react (ReadBytes data) c = Connection_on_read NoError data c"
| "conn_react ReadEof c = Connection_on_read Eof [] c"
| "conn_react ReadFailed c = Connection_on_read OtherError [] c"
| "conn_react (SecurityDone ec rows a) c = Connection_on_security ec rows a c"
| "conn_react (LookupDone ec rows) c = Inr (Connection_on_lookup ec rows c)"
| "conn_react RunPosted c = Connection_write c"
| "conn_react (WriteDone ec) c = Inr (Connection_on_write ec c)"

inductive conn_step :: "Connection \<Rightarrow> conn_event \<Rightarrow> Connection \<Rightarrow> bool" where
  conn_stepI: "conn_enabled (co_pending c) ev \<Longrightarrow> conn_react ev c = Inr d \<Longrightarrow> conn_step c ev d"

inductive conn_reach :: "Connection \<Rightarrow> Connection \<Rightarrow> bool" where
  reach_start: "conn_reach c c"
| reach_step: "conn_reach c d \<Longrightarrow> conn_step d ev e \<Longrightarrow> conn_reach c e"

inductive_cases conn_stepE: "conn_step c ev d"

section \<open>Arithmetic of the read handler\<close>

lemma sint_small: "n < 2 ^ 30 \<Longrightarrow> sint (word_of_nat n :: cint) = int n"
  by (simp add: signed_of_nat signed_take_bit_int_eq_self)

lemma small_index:
  assumes "unat (i :: cint) \<le> BUFFER_SIZE"
  shows "sint i = int (unat i)" and "unat (scast i :: size_t) = unat i"
proof -
  have lt: "unat i < 2 ^ 30" using assms by (simp add: BUFFER_SIZE_def)
  have again: "(word_of_nat (unat i) :: cint) = i" by simp
  show "sint i = int (unat i)" using sint_small [OF lt] unfolding again .
  have "unat (scast (word_of_nat (unat i) :: cint) :: size_t) = unat i"
    unfolding scast_blob_size [OF lt] using lt by (intro unat_size_of_nat) simp
  then show "unat (scast i :: size_t) = unat i" unfolding again .
qed

lemma unat_cint_small: "n \<le> BUFFER_SIZE \<Longrightarrow> unat (word_of_nat n :: cint) = n"
  by (simp add: unat_of_nat BUFFER_SIZE_def)

lemma read_space:
  assumes "unat (co_index c) \<le> BUFFER_SIZE"
  shows "Connection_read c = c\<lparr>co_pending := Reading (BUFFER_SIZE - unat (co_index c))\<rparr>"
proof -
  have "int BUFFER_SIZE - sint (co_index c) = int (BUFFER_SIZE - unat (co_index c))"
    unfolding small_index(1) [OF assms] using assms by (simp only: of_nat_diff)
  then have "(word_of_int (int BUFFER_SIZE - sint (co_index c)) :: size_t) =
      word_of_nat (BUFFER_SIZE - unat (co_index c))"
    by (simp only: of_int_of_nat_eq)
  then show ?thesis
    unfolding Connection_read_def by (simp only: unat_size_of_nat BUFFER_SIZE_def) (simp add: unat_of_nat)
qed

lemma copy_low_fresh:
  assumes "unat m < 256 ^ length bs"
  shows "copy_low m bs = word_of_nat (le_decode bs)"
  using assms by (simp add: copy_low_def)

text \<open>The well-formedness of the receive state.\<close>

definition recv_wf :: "Connection \<Rightarrow> bool" where
  "recv_wf c \<longleftrightarrow>
     co_header_size c \<in> {2, 4} \<and> length (co_buf c) = BUFFER_SIZE
     \<and> unat (co_index c) \<le> BUFFER_SIZE
     \<and> unat (co_msg_size c) < 256 ^ unat (co_header_size c)"

lemma recv_wfD:
  assumes "recv_wf c"
  shows "unat (co_header_size c) \<in> {2, 4}" "length (co_buf c) = BUFFER_SIZE"
    "unat (co_index c) \<le> BUFFER_SIZE" "unat (co_msg_size c) < 256 ^ unat (co_header_size c)"
    "unat (co_header_size c) \<le> BUFFER_SIZE"
  using assms by (auto simp: recv_wf_def BUFFER_SIZE_def)

definition received :: "bytes \<Rightarrow> Connection \<Rightarrow> Connection" where
  "received data c =
     (let n = unat (co_index c) + length data;
          buf = take (unat (co_index c)) (co_buf c) @ data @ drop n (co_buf c);
          h = unat (co_header_size c) in
      c\<lparr>co_buf := buf, co_index := word_of_nat n,
        co_msg_size := (if h \<le> n then word_of_nat (le_decode (take h buf)) else co_msg_size c)\<rparr>)"

lemma received_simps:
  "co_index (received data c) = word_of_nat (unat (co_index c) + length data)"
  "co_header_size (received data c) = co_header_size c"
  "co_buf (received data c) = take (unat (co_index c)) (co_buf c) @ data
     @ drop (unat (co_index c) + length data) (co_buf c)"
  by (simp_all add: received_def Let_def)

text \<open>The read handler without machine arithmetic.\<close>

lemma on_read_received:
  assumes wf: "recv_wf c" and room: "unat (co_index c) + length data \<le> BUFFER_SIZE"
    and ec: "ec \<noteq> OtherError"
  shows "Connection_on_read ec data c =
    (if unat (co_index c) + length data < unat (co_msg_size (received data c))
     then Inr (Connection_read (received data c))
     else Connection_on_message ((received data c)\<lparr>co_index := 0\<rparr>))"
proof -
  define n where "n = unat (co_index c) + length data"
  define h where "h = unat (co_header_size c)"
  define i where "i = co_index c + word_of_nat (length data)"
  define buf where "buf = take (unat (co_index c)) (co_buf c) @ data @ drop n (co_buf c)"
  define m where "m = (if h \<le> n then word_of_nat (le_decode (take h buf)) else co_msg_size c)"
  note wf = recv_wfD [OF wf]
  have n: "n \<le> BUFFER_SIZE" using room by (simp add: n_def)
  have i: "i = word_of_nat n" by (simp add: i_def n_def)
  have ui: "unat i = n" unfolding i using n by (rule unat_cint_small)
  have si: "unat (scast i :: size_t) = n" using small_index(2) [of i] ui n by simp
  have w: "write_at (co_buf c) (nat (sint (co_index c))) data = Inr buf"
    using wf room by (simp add: small_index(1) write_at_def buf_def n_def)
  have len: "length buf = BUFFER_SIZE" using wf n by (simp add: buf_def n_def)
  have r: "read_at buf 0 h = Inr (take h buf)"
    unfolding read_at_def len using wf(5) by (simp add: h_def)
  have "length (take h buf) = h" using len wf(5) by (simp add: h_def)
  then have cl: "copy_low (co_msg_size c) (take h buf) = word_of_nat (le_decode (take h buf))"
    using wf(4) by (intro copy_low_fresh) (simp add: h_def)
  have ge: "scast i \<ge> co_header_size c \<longleftrightarrow> h \<le> n"
    by (simp only: word_le_nat_alt si h_def)
  have lt: "(scast i :: size_t) < x \<longleftrightarrow> n < unat x" for x
    by (simp only: word_less_nat_alt si)
  have rec: "received data c = c\<lparr>co_buf := buf, co_index := i, co_msg_size := m\<rparr>"
    unfolding received_def Let_def n_def [symmetric] h_def [symmetric] buf_def [symmetric]
      m_def [symmetric] i ..
  show ?thesis
    unfolding n_def [symmetric] Connection_on_read_def w rec i_def [symmetric]
    using ec r cl by (simp add: ge lt m_def Let_def flip: h_def)
qed

section \<open>Framing\<close>

lemma recv_wf_received:
  assumes "recv_wf c" and "unat (co_index c) + length data \<le> BUFFER_SIZE"
  shows "recv_wf (received data c)"
proof -
  let ?h = "unat (co_header_size c)" and ?buf = "co_buf (received data c)"
  note wf = recv_wfD [OF assms(1)]
  have len: "length ?buf = BUFFER_SIZE" using wf assms(2) by (simp add: received_simps)
  have "le_decode (take ?h ?buf) < 256 ^ ?h"
    using le_decode_lt [of "take ?h ?buf"] len wf(5) by simp
  moreover have "(256 :: nat) ^ ?h \<le> 2 ^ 32" using wf(1) by auto
  ultimately have "unat (word_of_nat (le_decode (take ?h ?buf)) :: size_t) < 256 ^ ?h"
    by (simp add: unat_size_of_nat)
  then have "unat (co_msg_size (received data c)) < 256 ^ ?h"
    using wf(4) by (simp add: received_def Let_def)
  then show ?thesis
    using assms(1) len unat_cint_small [OF assms(2)] assms(2) unfolding recv_wf_def
    by (simp add: received_simps del: of_nat_add)
qed












section \<open>The invariant of a connection\<close>

text \<open>The selected message has the response that \<^verbatim>\<open>encode\<close> dereferences.\<close>

definition response_ready :: "MsgProcessor \<Rightarrow> bool" where
  "response_ready p =
     (case mp_msg p of
        None \<Rightarrow> False
      | Some AttachMsg \<Rightarrow> sa_response (mp_attachMsg p) \<noteq> None
      | Some GetByNameMsg \<Rightarrow>
          (case gm_response (mp_getByNameMsg p) of
             None \<Rightarrow> False
           | Some r \<Rightarrow> gr_status r = GBN_ERROR \<or> gr_sec r \<noteq> None)
      | Some LookupMsg \<Rightarrow> nm_response (mp_lookupMsg p) \<noteq> None)"

fun pending_inv :: "pending \<Rightarrow> Connection \<Rightarrow> bool" where
  "pending_inv Idle c = True"
| "pending_inv (Reading n) c = (n = BUFFER_SIZE - unat (co_index c))"
| "pending_inv (SecurityRequested q) c =
     (co_index c = 0 \<and> q \<noteq> None \<and> mp_msg (co_msgProcessor c) = Some GetByNameMsg)"
| "pending_inv (LookupRequested q) c =
     (co_index c = 0 \<and> q \<noteq> None \<and> mp_msg (co_msgProcessor c) = Some LookupMsg)"
| "pending_inv WritePosted c = (co_index c = 0 \<and> response_ready (co_msgProcessor c))"
| "pending_inv (Writing out) c = (co_index c = 0)"

definition conn_inv :: "Connection \<Rightarrow> bool" where
  "conn_inv c \<longleftrightarrow>
     recv_wf c \<and> mp_inv (co_msgProcessor c) \<and> pool_inv (co_repoContextPool c)
     \<and> (co_open c \<or> co_pending c = Idle) \<and> pending_inv (co_pending c) c"

lemma conn_inv_new: "pool_inv pool \<Longrightarrow> conn_inv (Connection_read (new_Connection pool))"
  by (simp add: read_space conn_inv_def recv_wf_def new_Connection_def mp_inv_new)

lemma conn_inv_read:
  assumes "conn_inv c" and "co_open c"
  shows "conn_inv (Connection_read c)"
  using assms by (simp add: conn_inv_def read_space recv_wf_def)

lemma queries_built:
  "get_security_async ctx name \<noteq> None" "lookup_async ctx prefix count \<noteq> None"
  by (simp_all add: get_security_async_def get_security_query_build lookup_async_def lookup_query_build)

lemma process_cases:
  assumes "MsgProcessor_process p = Inr (q, e)"
  obtains (attach) "mp_msg q = Some AttachMsg" "e = PostWrite" "response_ready q"
  | (security) name where "mp_msg q = Some GetByNameMsg" "e = GetSecurityAsync name"
  | (lookup) prefix count where "mp_msg q = Some LookupMsg" "e = LookupAsync prefix count"
  using assms
  by (auto simp: MsgProcessor_process_def SrvAttach_process_def GetByName_process_def
      NameLookup_process_def response_ready_def Let_def split: option.splits msg_ptr.splits)

lemma conn_inv_message:
  assumes "recv_wf c" and "mp_inv (co_msgProcessor c)" and "pool_inv (co_repoContextPool c)"
    and "co_open c" and "co_index c = 0" and "Connection_on_message c = Inr d"
  shows "conn_inv d"
proof -
  obtain p where p: "MsgProcessor_decode (co_buf c) (unat (co_header_size c)) (co_msgProcessor c) = Inr p"
    using assms(6) by (auto simp: Connection_on_message_def rbind_Inr_iff)
  then have inv: "mp_inv p" using assms(2) mp_inv_decode by blast
  show ?thesis
  proof (cases "mp_msg p")
    case None
    then show ?thesis
      using assms p inv by (auto simp: Connection_on_message_def conn_inv_def recv_wf_def Let_def)
  next
    case (Some m)
    define hs where "hs = (if mp_type p = 1 then 4 else co_header_size c)"
    have hs: "hs \<in> {2, 4}" "256 ^ unat (co_header_size c) \<le> (256 :: nat) ^ unat hs"
      using assms(1) by (auto simp: hs_def recv_wf_def)
    obtain q e where q: "MsgProcessor_process p = Inr (q, e)"
      using mp_process_after_decode [OF p] Some by auto
    have qi: "mp_inv q" using mp_inv_process [OF inv q] .
    have d: "d = Connection_perform (fst (getIOContext (co_repoContextPool c))) e
        (c\<lparr>co_msgProcessor := q, co_header_size := hs,
           co_repoContextPool := snd (getIOContext (co_repoContextPool c))\<rparr>)"
      using assms(6) p q Some
      by (cases c) (auto simp: Connection_on_message_def hs_def Let_def split: prod.splits)
    have pi: "pool_inv (snd (getIOContext (co_repoContextPool c)))"
      using assms(3) by (rule pool.get_invar)
    from q show ?thesis
      by (cases rule: process_cases)
         (use assms hs queries_built qi d pi in
           \<open>auto simp: Connection_perform_def conn_inv_def recv_wf_def intro: less_le_trans\<close>)
  qed
qed

lemma puts_length: "puts buf off cs = Inr b \<Longrightarrow> length b = length buf"
  by (induction cs arbitrary: buf off)
     (auto simp: puts.simps rbind_Inr_iff dest!: write_at_length)

lemma puts_fault: "puts buf off cs = Inl f \<Longrightarrow> f = OutOfBoundsWrite"
proof (induction cs arbitrary: buf off)
  case (Cons d cs)
  then show ?case
    by (cases "write_at buf off d") (auto simp: puts.simps write_at_def split: if_splits)
qed simp

lemma encode_keeps_length:
  "MsgProcessor_encode h p buf = Inr (n, b) \<Longrightarrow> length b = length buf"
  by (auto simp: MsgProcessor_encode_def SrvAttach_encode_def GetByName_encode_def NameLookup_encode_def
      rbind_Inr_iff Let_def split: option.splits msg_ptr.splits if_splits dest!: puts_length)

lemma encode_not_null:
  assumes "response_ready p"
  shows "MsgProcessor_encode h p buf \<noteq> Inl NullPointer"
  using assms
  by (auto simp: MsgProcessor_encode_def SrvAttach_encode_def GetByName_encode_def NameLookup_encode_def
      rbind_Inl_iff response_ready_def deref_def read_at_def Let_def
      split: option.splits msg_ptr.splits if_splits dest!: puts_fault)

lemma conn_inv_on_read:
  assumes inv: "conn_inv c" and open': "co_open c"
    and room: "unat (co_index c) + length data \<le> BUFFER_SIZE"
    and react: "Connection_on_read ec data c = Inr d"
  shows "conn_inv d"
proof (cases "ec = OtherError")
  case True
  then show ?thesis
    using react inv by (auto simp: Connection_on_read_def conn_inv_def recv_wf_def)
next
  case False
  let ?r = "received data c"
  have wf: "recv_wf c" using inv by (simp add: conn_inv_def)
  have r: "recv_wf ?r" using wf room by (rule recv_wf_received)
  have keep: "co_msgProcessor ?r = co_msgProcessor c" "co_repoContextPool ?r = co_repoContextPool c"
    "co_open ?r = co_open c"
    by (simp_all add: received_def Let_def)
  show ?thesis
  proof (cases "unat (co_index c) + length data < unat (co_msg_size ?r)")
    case True
    then have "d = Connection_read ?r"
      using on_read_received [OF wf room False] react by simp
    then show ?thesis
      using r inv open' keep recv_wfD(3) [OF r] by (simp add: conn_inv_def read_space recv_wf_def)
  next
    case False
    then have "Connection_on_message (?r\<lparr>co_index := 0\<rparr>) = Inr d"
      using on_read_received [OF wf room \<open>ec \<noteq> OtherError\<close>] react by simp
    then show ?thesis
      using r inv open' keep
      by (intro conn_inv_message [of "?r\<lparr>co_index := 0\<rparr>"]) (simp_all add: conn_inv_def recv_wf_def)
  qed
qed

lemma mp_inv_messages [simp]:
  "mp_inv (p\<lparr>mp_getByNameMsg := m\<rparr>) = mp_inv p" "mp_inv (p\<lparr>mp_lookupMsg := l\<rparr>) = mp_inv p"
  by (simp_all add: mp_inv_def)

lemma conn_inv_on_security:
  assumes "conn_inv c" and "co_pending c = SecurityRequested q"
    and "Connection_on_security ec rows a c = Inr d"
  shows "conn_inv d"
  using assms
  by (cases ec; cases rows)
     (auto simp: Connection_on_security_def get_security_completion_error
       get_security_completion_missing get_security_completion_found Connection_perform_posted_def
       Connection_perform_def conn_inv_def recv_wf_def response_ready_def)

lemma conn_inv_on_lookup:
  assumes "conn_inv c" and "co_pending c = LookupRequested q"
  shows "conn_inv (Connection_on_lookup ec rows c)"
  using assms
  by (cases ec)
     (auto simp: Connection_on_lookup_def lookup_completion_ok lookup_completion_def [of True]
       Connection_perform_posted_def Connection_perform_def conn_inv_def recv_wf_def
       response_ready_def)

lemma conn_inv_write:
  assumes "conn_inv c" and "co_pending c = WritePosted" and "Connection_write c = Inr d"
  shows "conn_inv d"
  using assms
  by (auto simp: Connection_write_def rbind_Inr_iff conn_inv_def recv_wf_def dest!: encode_keeps_length)

lemma conn_inv_on_write:
  assumes "conn_inv c" and "co_pending c = Writing out"
  shows "conn_inv (Connection_on_write ec c)"
  using assms conn_inv_read [of c]
  by (cases ec) (auto simp: Connection_on_write_def conn_inv_def recv_wf_def)

lemma conn_inv_step:
  assumes "conn_inv c" and "conn_step c ev d"
  shows "conn_inv d"
proof -
  from assms(2) have en: "conn_enabled (co_pending c) ev" and re: "conn_react ev c = Inr d"
    by (auto elim: conn_stepE)
  have opened: "co_pending c \<noteq> Idle \<Longrightarrow> co_open c" using assms(1) by (auto simp: conn_inv_def)
  have room: "unat (co_index c) + length data \<le> BUFFER_SIZE"
    if "co_pending c = Reading n" and "length data \<le> n" for n and data :: bytes
    using assms(1) that by (auto simp: conn_inv_def recv_wf_def)
  have "unat (co_index c) + length [] \<le> BUFFER_SIZE"
    using assms(1) by (simp add: conn_inv_def recv_wf_def)
  note empty = conn_inv_on_read [OF assms(1) _ this]
  show ?thesis
    using en re opened room assms(1)
    by (cases "co_pending c"; cases ev)
       (auto intro: empty conn_inv_on_read conn_inv_on_security conn_inv_on_lookup conn_inv_write
         conn_inv_on_write)
qed

lemma conn_inv_reach: "conn_reach c d \<Longrightarrow> conn_inv c \<Longrightarrow> conn_inv d"
  by (induction rule: conn_reach.induct) (auto intro: conn_inv_step)

section \<open>Responses\<close>

lemma write_response:
  assumes "MsgProcessor_encode (co_heap c) (co_msgProcessor c) (co_buf c) =
      Inr (word_of_nat (length f), f @ drop (length f) (co_buf c))"
    and "length f < 2 ^ 32"
  shows "Connection_write c =
    Inr (c\<lparr>co_buf := f @ drop (length f) (co_buf c), co_pending := Writing f\<rparr>)"
proof -
  have "unat (word_of_nat (length f) :: size_t) = length f"
    using assms(2) by (intro unat_size_of_nat) simp
  then show ?thesis by (simp add: Connection_write_def assms(1) read_at_def)
qed

lemma run_posted:
  assumes "co_pending c = WritePosted"
    and "Connection_write c = Inr (c\<lparr>co_buf := b, co_pending := Writing f\<rparr>)"
  shows "\<exists>e. conn_step c RunPosted e \<and> co_pending e = Writing f"
  using assms
  by (intro exI [of _ "c\<lparr>co_buf := b, co_pending := Writing f\<rparr>"] conjI conn_stepI) simp_all

lemma attach_response:
  assumes "co_pending c = WritePosted" and "mp_msg (co_msgProcessor c) = Some AttachMsg"
    and "attach_ready (mp_attachMsg (co_msgProcessor c))" and "length (co_buf c) = BUFFER_SIZE"
  shows "\<exists>d. conn_step c RunPosted d
    \<and> co_pending d = Writing (attach_frame (mp_attachMsg (co_msgProcessor c)))"
proof -
  let ?f = "attach_frame (mp_attachMsg (co_msgProcessor c))"
  have "length ?f \<le> 8" by (simp add: attach_frame_def split: option.split)
  then have "length ?f \<le> length (co_buf c)" using assms(4) by (simp add: BUFFER_SIZE_def)
  then have "Connection_write c =
      Inr (c\<lparr>co_buf := ?f @ drop (length ?f) (co_buf c), co_pending := Writing ?f\<rparr>)"
    using attach_enc.encode_fits [OF assms(3)] attach_enc.frame_small [OF assms(3)] assms(2)
    by (intro write_response) (simp_all add: MsgProcessor_encode_def)
  then show ?thesis by (rule run_posted [OF assms(1)])
qed

lemma missing_response:
  assumes "conn_inv c" and "co_pending c = SecurityRequested q"
  shows "\<exists>d e. conn_step c (SecurityDone False [] a) d \<and> conn_step d RunPosted e
    \<and> co_pending e = Writing error_frame"
proof -
  define m where "m = (mp_getByNameMsg (co_msgProcessor c))\<lparr>gm_response :=
    Some \<lparr>gr_size = 8, gr_status = GBN_ERROR, gr_error_type = 0, gr_sec = None\<rparr>\<rparr>"
  define d where "d = c\<lparr>co_msgProcessor := (co_msgProcessor c)\<lparr>mp_getByNameMsg := m\<rparr>,
    co_pending := WritePosted\<rparr>"
  have step: "conn_step c (SecurityDone False [] a) d"
    using assms(2)
    by (intro conn_stepI)
       (simp_all add: Connection_on_security_def get_security_completion_missing
         Connection_perform_posted_def Connection_perform_def d_def m_def)
  have sel: "mp_msg (co_msgProcessor d) = Some GetByNameMsg" and buf: "length (co_buf d) = BUFFER_SIZE"
    using assms by (simp_all add: conn_inv_def recv_wf_def d_def)
  have msg: "mp_getByNameMsg (co_msgProcessor d) = m" by (simp add: d_def)
  have enc: "GetByName_encode h m b =
     (if length error_frame \<le> length b
      then Inr (word_of_nat (length error_frame), error_frame @ drop (length error_frame) b)
      else Inl OutOfBoundsWrite)" for h b
    by (rule GetByName_encode_error) (simp_all add: m_def new_GetByNameResponse_def)
  have "Connection_write d = Inr (d\<lparr>co_buf := error_frame @ drop (length error_frame) (co_buf d),
      co_pending := Writing error_frame\<rparr>)"
    by (rule write_response)
       (simp_all add: MsgProcessor_encode_def sel msg enc buf length_error_frame BUFFER_SIZE_def)
  then have "\<exists>e. conn_step d RunPosted e \<and> co_pending e = Writing error_frame"
    by (intro run_posted) (simp_all add: d_def)
  then show ?thesis using step by blast
qed

lemma lookup_response:
  assumes "conn_inv c" and "co_pending c = LookupRequested q"
    and "length (lookup_frame_of names) \<le> BUFFER_SIZE"
  shows "\<exists>d e. conn_step c (LookupDone False names) d \<and> conn_step d RunPosted e
    \<and> co_pending e = Writing (lookup_frame_of names)"
proof -
  define m where "m = (mp_lookupMsg (co_msgProcessor c))\<lparr>nm_response :=
    Some (new_NameLookupResponse (word_of_nat (length names)) names)\<rparr>"
  define d where "d = c\<lparr>co_msgProcessor := (co_msgProcessor c)\<lparr>mp_lookupMsg := m\<rparr>,
    co_pending := WritePosted\<rparr>"
  have step: "conn_step c (LookupDone False names) d"
    using assms(2)
    by (intro conn_stepI)
       (simp_all add: Connection_on_lookup_def lookup_completion_ok
         Connection_perform_posted_def Connection_perform_def d_def m_def)
  have sel: "mp_msg (co_msgProcessor d) = Some LookupMsg" and buf: "length (co_buf d) = BUFFER_SIZE"
    using assms by (simp_all add: conn_inv_def recv_wf_def d_def)
  have msg: "mp_lookupMsg (co_msgProcessor d) = m" by (simp add: d_def)
  have "names_length names < 2 ^ 30"
    using assms(3) by (simp add: length_lookup_frame_of BUFFER_SIZE_def)
  then have enc: "NameLookup_encode m b = (let f = lookup_frame_of names in
      if length f \<le> length b then Inr (word_of_nat (length f), f @ drop (length f) b)
      else Inl OutOfBoundsWrite)" for b
    by (intro NameLookup_encode_frame) (simp_all add: m_def)
  have "Connection_write d = Inr (d\<lparr>co_buf := lookup_frame_of names
      @ drop (length (lookup_frame_of names)) (co_buf d), co_pending := Writing (lookup_frame_of names)\<rparr>)"
    using assms(3)
    by (intro write_response)
       (simp_all add: MsgProcessor_encode_def sel msg enc buf Let_def BUFFER_SIZE_def)
  then have "\<exists>e. conn_step d RunPosted e \<and> co_pending e = Writing (lookup_frame_of names)"
    by (intro run_posted) (simp_all add: d_def)
  then show ?thesis using step by blast
qed

section \<open>Requests\<close>

text \<open>A connection that waits for a request.\<close>

definition conn_ready :: "Connection \<Rightarrow> bool" where
  "conn_ready c \<longleftrightarrow> conn_inv c \<and> co_pending c = Reading BUFFER_SIZE \<and> co_index c = 0"

lemma conn_ready_new: "pool_inv pool \<Longrightarrow> conn_ready (Connection_read (new_Connection pool))"
  using conn_inv_new [of pool]
  by (simp add: conn_ready_def read_space new_Connection_def)

lemma on_write_ready:
  assumes "conn_inv c" and "co_pending c = Writing out"
  shows "conn_ready (Connection_on_write NoError c)"
  using conn_inv_on_write [OF assms, of NoError] assms
  by (simp add: conn_ready_def Connection_on_write_def read_space conn_inv_def)

text \<open>
  A read that brings a whole message, and possibly bytes after it: the message is processed and the
  index is reset, so what follows the message is overwritten by the next read.
\<close>

lemma on_read_whole:
  assumes "conn_ready c" and "unat (co_header_size c) \<le> length data" and "length data \<le> BUFFER_SIZE"
    and "le_decode (take (unat (co_header_size c)) data) \<le> length data"
  shows "Connection_on_read NoError data c =
    Connection_on_message (c\<lparr>co_buf := data @ drop (length data) (co_buf c),
      co_msg_size := word_of_nat (le_decode (take (unat (co_header_size c)) data))\<rparr>)"
proof -
  let ?h = "unat (co_header_size c)" and ?s = "le_decode (take (unat (co_header_size c)) data)"
  have wf: "recv_wf c" and idx: "co_index c = 0"
    using assms(1) by (simp_all add: conn_ready_def conn_inv_def)
  have size: "unat (word_of_nat ?s :: size_t) = ?s"
    using assms(3,4) by (intro unat_size_of_nat) (simp add: BUFFER_SIZE_def)
  have rec: "(received data c)\<lparr>co_index := 0\<rparr> =
      c\<lparr>co_buf := data @ drop (length data) (co_buf c), co_msg_size := word_of_nat ?s\<rparr>"
    using idx assms(2) by (cases c) (simp add: received_def Let_def)
  have "co_msg_size (received data c) = word_of_nat ?s"
    using idx assms(2) by (simp add: received_def Let_def)
  then show ?thesis
    using on_read_received [OF wf, of data NoError] assms(3,4) idx size rec by simp
qed

lemma ready_enabled:
  assumes "conn_ready c" and "0 < length data" and "length data \<le> BUFFER_SIZE"
  shows "conn_enabled (co_pending c) (ReadBytes data)"
  using assms by (simp add: conn_ready_def BUFFER_SIZE_def)

lemma attach_request_step:
  assumes "conn_ready c" and "co_header_size c = 2" and "c_str_ok USER_NAME_SIZE user"
    and "c_str_ok APP_NAME_SIZE app" and "length hdr = 2"
    and "data = hdr @ le16 1 @ c_str user @ c_str app @ le16 v @ le16 r @ extra"
    and "le_decode hdr \<le> length data" and "length data \<le> BUFFER_SIZE"
  shows "\<exists>d. conn_step c (ReadBytes data) d \<and> co_pending d = WritePosted \<and> co_header_size d = 4
    \<and> mp_msg (co_msgProcessor d) = Some AttachMsg
    \<and> mp_attachMsg (co_msgProcessor d) =
        \<lparr>sa_request = \<lparr>aq_user_name = user, aq_app_name = app, aq_version = v, aq_revision = r\<rparr>,
         sa_response = Some (new_AttachResponse 269 attach_server_features)\<rparr>"
proof -
  let ?c = "c\<lparr>co_buf := data @ drop (length data) (co_buf c), co_msg_size := word_of_nat (le_decode hdr)\<rparr>"
  let ?p = "co_msgProcessor c"
  define q where "q = ?p\<lparr>mp_type := 1, mp_msg := Some AttachMsg,
      mp_attachMsg := (mp_attachMsg ?p)\<lparr>sa_request :=
        \<lparr>aq_user_name = user, aq_app_name = app, aq_version = v, aq_revision = r\<rparr>\<rparr>\<rparr>"
  have "MsgProcessor_decode (hdr @ le16 1 @ c_str user @ c_str app @ le16 v @ le16 r
      @ (extra @ drop (length data) (co_buf c))) 2 ?p = Inr q"
    unfolding q_def using assms(1,3-5)
    by (intro decode_attach_message) (simp_all add: conn_ready_def conn_inv_def)
  then have dec: "MsgProcessor_decode (co_buf ?c) (unat (co_header_size ?c)) (co_msgProcessor ?c) = Inr q"
    using assms(2,6) by simp
  define d where "d = ?c\<lparr>co_msgProcessor := q\<lparr>mp_attachMsg := (mp_attachMsg q)\<lparr>sa_response :=
            Some (new_AttachResponse 269 attach_server_features)\<rparr>\<rparr>,
          co_header_size := 4, co_repoContextPool := snd (getIOContext (co_repoContextPool c)),
          co_pending := WritePosted\<rparr>"
  have "Connection_on_read NoError data c = Connection_on_message ?c"
    using on_read_whole [OF assms(1), of data] assms(2,5-8) by simp
  also have "\<dots> = Inr d"
    unfolding Connection_on_message_def dec
    by (cases c) (simp add: q_def d_def Let_def MsgProcessor_process_def SrvAttach_process_def
        Connection_perform_def split: prod.split)
  finally have "conn_step c (ReadBytes data) d"
    using assms(6,8) by (intro conn_stepI ready_enabled [OF assms(1)]) simp_all
  moreover have "mp_attachMsg (co_msgProcessor d) =
      \<lparr>sa_request = \<lparr>aq_user_name = user, aq_app_name = app, aq_version = v, aq_revision = r\<rparr>,
       sa_response = Some (new_AttachResponse 269 attach_server_features)\<rparr>"
    by (cases "mp_attachMsg ?p") (simp add: d_def q_def)
  moreover have "co_pending d = WritePosted" "co_header_size d = 4"
      "mp_msg (co_msgProcessor d) = Some AttachMsg"
    by (simp_all add: d_def q_def)
  ultimately show ?thesis by blast
qed

lemma security_request_step:
  assumes "conn_ready c" and "co_header_size c = 4" and "c_str_ok SEC_NAME_SIZE name"
    and "length hdr = 4" and "data = hdr @ le16 4 @ c_str name @ extra"
    and "le_decode hdr \<le> length data" and "length data \<le> BUFFER_SIZE"
  shows "\<exists>d. conn_step c (ReadBytes data) d \<and> conn_inv d
    \<and> co_pending d =
        SecurityRequested (get_security_async (fst (getIOContext (co_repoContextPool c))) name)"
proof -
  let ?c = "c\<lparr>co_buf := data @ drop (length data) (co_buf c), co_msg_size := word_of_nat (le_decode hdr)\<rparr>"
  let ?p = "co_msgProcessor c"
  define q where "q = ?p\<lparr>mp_type := 4, mp_msg := Some GetByNameMsg,
      mp_getByNameMsg := (mp_getByNameMsg ?p)\<lparr>gq_security_name := name\<rparr>\<rparr>"
  have "MsgProcessor_decode (hdr @ le16 4 @ c_str name
      @ (extra @ drop (length data) (co_buf c))) 4 ?p = Inr q"
    unfolding q_def using assms(1,3,4)
    by (intro decode_get_by_name_message) (simp_all add: conn_ready_def conn_inv_def)
  then have dec: "MsgProcessor_decode (co_buf ?c) (unat (co_header_size ?c)) (co_msgProcessor ?c) = Inr q"
    using assms(2,5) by simp
  define d where "d = ?c\<lparr>co_msgProcessor := q,
          co_repoContextPool := snd (getIOContext (co_repoContextPool c)),
          co_pending := SecurityRequested
            (get_security_async (fst (getIOContext (co_repoContextPool c))) name)\<rparr>"
  have "Connection_on_read NoError data c = Connection_on_message ?c"
    using on_read_whole [OF assms(1), of data] assms(2,4-7) by simp
  also have "\<dots> = Inr d"
    unfolding Connection_on_message_def dec
    by (cases c) (simp add: q_def d_def Let_def MsgProcessor_process_def GetByName_process_def
        Connection_perform_def split: prod.split)
  finally have step: "conn_step c (ReadBytes data) d"
    using assms(5,7) by (intro conn_stepI ready_enabled [OF assms(1)]) simp_all
  moreover have "conn_inv d"
    using conn_inv_step [OF _ step] assms(1) by (simp add: conn_ready_def)
  moreover have "co_pending d = SecurityRequested
      (get_security_async (fst (getIOContext (co_repoContextPool c))) name)"
    by (simp add: d_def)
  ultimately show ?thesis by blast
qed

lemma lookup_request_step:
  assumes "conn_ready c" and "co_header_size c = 4" and "c_str_ok SEC_NAME_SIZE prefix"
    and "length hdr = 4" and "length ty = 2"
    and "data = hdr @ le16 11 @ ty @ le16 count @ c_str prefix @ extra"
    and "le_decode hdr \<le> length data" and "length data \<le> BUFFER_SIZE"
  shows "\<exists>d. conn_step c (ReadBytes data) d \<and> conn_inv d
    \<and> co_pending d =
        LookupRequested (lookup_async (fst (getIOContext (co_repoContextPool c))) prefix count)"
proof -
  let ?c = "c\<lparr>co_buf := data @ drop (length data) (co_buf c), co_msg_size := word_of_nat (le_decode hdr)\<rparr>"
  let ?p = "co_msgProcessor c" and ?l = "mp_lookupMsg (co_msgProcessor c)"
  define q where "q = ?p\<lparr>mp_type := 11, mp_msg := Some LookupMsg,
      mp_lookupMsg := ?l\<lparr>nm_request :=
        \<lparr>nq_type = set_low16 (nq_type (nm_request ?l)) (word_of_nat (le_decode ty)),
         nq_count = count, nq_prefix = prefix\<rparr>\<rparr>\<rparr>"
  have "MsgProcessor_decode (hdr @ le16 11 @ ty @ le16 count @ c_str prefix
      @ (extra @ drop (length data) (co_buf c))) 4 ?p = Inr q"
    unfolding q_def using assms(1,3-5)
    by (intro decode_lookup_message) (simp_all add: conn_ready_def conn_inv_def)
  then have dec: "MsgProcessor_decode (co_buf ?c) (unat (co_header_size ?c)) (co_msgProcessor ?c) = Inr q"
    using assms(2,6) by simp
  define d where "d = ?c\<lparr>co_msgProcessor := q,
          co_repoContextPool := snd (getIOContext (co_repoContextPool c)),
          co_pending := LookupRequested
            (lookup_async (fst (getIOContext (co_repoContextPool c))) prefix count)\<rparr>"
  have "Connection_on_read NoError data c = Connection_on_message ?c"
    using on_read_whole [OF assms(1), of data] assms(2,4-8) by simp
  also have "\<dots> = Inr d"
    unfolding Connection_on_message_def dec
    by (cases c) (simp add: q_def d_def Let_def MsgProcessor_process_def NameLookup_process_def
        Connection_perform_def split: prod.split)
  finally have step: "conn_step c (ReadBytes data) d"
    using assms(6,8) by (intro conn_stepI ready_enabled [OF assms(1)]) simp_all
  moreover have "conn_inv d"
    using conn_inv_step [OF _ step] assms(1) by (simp add: conn_ready_def)
  moreover have "co_pending d = LookupRequested
      (lookup_async (fst (getIOContext (co_repoContextPool c))) prefix count)"
    by (simp add: d_def)
  ultimately show ?thesis by blast
qed

section \<open>Properties of the connection\<close>

lemma freed_blob_encode:
  assumes "gm_response m = Some r" and "gr_status r = GBN_SUCCESS"
    and "gr_sec r = Some sec" and "h (sec_blob sec) = None"
    and "length (sec_name sec) + 31 \<le> length buf"
  shows "GetByName_encode h m buf = Inl UseAfterFree"
proof -
  define head where "head s = [le_encode 4 (unat (s :: size_t)), le16 (gr_status r)]" for s
  have "length (concat (head s @ security_fields sec)) \<le> length buf" for s
    using assms(5) length_security_fields [of sec]
    by (simp add: head_def RESPONSE_FIELD_SIZE_def)
  then have "\<exists>b. puts buf 0 (head s @ security_fields sec) = Inr b" for s
    by (simp add: puts_start)
  then show ?thesis
    using assms(1-4) unfolding GetByName_encode_def head_def [symmetric] Let_def
    by (auto simp: GBN_SUCCESS_def GBN_ERROR_def deref_def rbind_Inl_iff head_def)
qed


definition sample_pool :: IOContextPool where
  "sample_pool = \<lparr>ioContexts = [0, 1], work_guards = [0, 1], nextIOContext = 0, threadsPerContext = 1\<rparr>"

lemma sample_pool_inv: "pool_inv sample_pool"
  by (simp add: pool_inv_def sample_pool_def)

lemma sample_connection:
  "recv_wf (Connection_read (new_Connection sample_pool))"
  "co_index (Connection_read (new_Connection sample_pool)) = 0"
  "co_header_size (Connection_read (new_Connection sample_pool)) = 2"
  using conn_inv_new [OF sample_pool_inv]
  by (simp_all add: conn_inv_def) (simp_all add: Connection_read_def new_Connection_def)


text \<open>C2 Invariant. In every state that a new connection can reach, whatever the peer sends and the
  database answers, the receive buffer keeps its size, the index stays inside it, the header size is 2
  or 4, the message size fits the header, and the outstanding operation agrees with the selected
  message.\<close>
theorem connection_invariant:
  assumes "pool_inv pool" and "conn_reach (Connection_read (new_Connection pool)) c"
  shows "conn_inv c"
  using conn_inv_reach [OF assms(2)] conn_inv_new [OF assms(1)] by simp

theorem connection_invariant_witness:
  "conn_inv (Connection_read (new_Connection sample_pool))"
  using connection_invariant [OF sample_pool_inv reach_start] .

text \<open>Safety. In a reachable state no reaction of the connection dereferences a null message or a
  null response: a fault of the model is a read or write outside a buffer, or a use of freed memory.\<close>
lemma connection_no_null:
  assumes "pool_inv pool" and "conn_reach (Connection_read (new_Connection pool)) c"
    and "conn_enabled (co_pending c) RunPosted"
  shows "conn_react RunPosted c \<noteq> Inl NullPointer"
proof -
  have inv: "conn_inv c" using conn_inv_reach [OF assms(2)] conn_inv_new [OF assms(1)] by simp
  have "co_pending c = WritePosted" using assms(3) by (cases "co_pending c") simp_all
  then have "response_ready (co_msgProcessor c)" using inv by (simp add: conn_inv_def)
  then have "MsgProcessor_encode (co_heap c) (co_msgProcessor c) (co_buf c) \<noteq> Inl NullPointer"
    by (rule encode_not_null)
  then show ?thesis
    by (auto simp: Connection_write_def rbind_Inl_iff read_at_def split: if_splits)
qed

lemma sample_attached:
  obtains d where "conn_step (Connection_read (new_Connection sample_pool))
      (ReadBytes (le16 10 @ le16 1 @ c_str [] @ c_str [] @ le16 1 @ le16 2)) d"
    and "co_pending d = WritePosted"
  using attach_request_step [OF conn_ready_new [OF sample_pool_inv] sample_connection(3), of "[]" "[]"
      "le16 10" "le16 10 @ le16 1 @ c_str [] @ c_str [] @ le16 1 @ le16 2" 1 2 "[]"]
  by (auto simp: c_str_ok_def USER_NAME_SIZE_def APP_NAME_SIZE_def BUFFER_SIZE_def)

text \<open>Error path. A first read of a single byte makes a new connection process a message that has
  not arrived: the message size is still 0, the zeros of the fresh buffer are decoded, no message has
  type 0, and the connection is closed although the client was about to send the rest.\<close>
lemma short_first_read_closes:
  "\<exists>d. Connection_on_read NoError [x] (Connection_read (new_Connection pool)) = Inr d
     \<and> \<not> co_open d \<and> co_pending d = Idle"
proof -
  let ?c = "Connection_read (new_Connection pool)"
  have wf: "recv_wf ?c" and idx: "co_index ?c = 0"
    by (simp_all add: Connection_read_def new_Connection_def recv_wf_def)
  have rec: "received [x] ?c = ?c\<lparr>co_buf := x # replicate (BUFFER_SIZE - 1) 0, co_index := 1\<rparr>"
    by (simp add: received_def Connection_read_def new_Connection_def Let_def)
  have "get16 (x # replicate (BUFFER_SIZE - 1) 0) 2 = Inr 0"
    by (simp add: get16_def read_at_def BUFFER_SIZE_def drop_Cons' numeral_2_eq_2)
  then have "Connection_on_message (?c\<lparr>co_buf := x # replicate (BUFFER_SIZE - 1) 0, co_index := 0\<rparr>) =
      Inr (?c\<lparr>co_buf := x # replicate (BUFFER_SIZE - 1) 0, co_index := 0,
        co_msgProcessor := new_MsgProcessor, co_open := False, co_pending := Idle\<rparr>)"
    by (simp add: Connection_on_message_def Connection_read_def new_Connection_def MsgProcessor_decode_def
        new_MsgProcessor_def select_msg_def Let_def)
  moreover have "co_msg_size (received [x] ?c) = 0"
    unfolding rec by (simp add: Connection_read_def new_Connection_def)
  then have "Connection_on_read NoError [x] ?c = Connection_on_message ((received [x] ?c)\<lparr>co_index := 0\<rparr>)"
    using on_read_received [OF wf, of "[x]" NoError] idx by (simp add: BUFFER_SIZE_def)
  ultimately show ?thesis unfolding rec by simp
qed

text \<open>C7 Liveness. Once a connection has processed a message, the end of the stream is not noticed:
  the read handler treats it like a read of no bytes, compares the index 0 with the size of the previous
  message and reads again, in the same state, so every further end of file repeats it.\<close>
theorem eof_after_message_repeats:
  assumes "conn_ready c" and "0 < unat (co_msg_size c)"
  shows "conn_step c ReadEof c"
proof -
  have wf: "recv_wf c" and idx: "co_index c = 0" and pend: "co_pending c = Reading BUFFER_SIZE"
    using assms(1) by (simp_all add: conn_ready_def conn_inv_def)
  have rec: "received [] c = c"
    using recv_wfD(1) [OF wf] idx by (cases c) (auto simp: received_def Let_def)
  have "Connection_on_read Eof [] c = Inr (Connection_read c)"
    using on_read_received [OF wf, of "[]" Eof] idx assms(2) by (simp add: rec)
  moreover have "Connection_read c = c"
    using read_space [of c] idx pend by (cases c) simp
  ultimately show ?thesis using pend by (intro conn_stepI) (simp_all add: BUFFER_SIZE_def)
qed

text \<open>A connection that has answered an attach request and waits for the next one.\<close>

definition sample_waiting :: Connection where
  "sample_waiting =
     \<lparr>co_index = 0, co_msg_size = 10, co_header_size = 4, co_buf = replicate BUFFER_SIZE 0,
      co_msgProcessor = new_MsgProcessor, co_repoContextPool = sample_pool, co_open = True,
      co_heap = Map.empty, co_pending = Reading BUFFER_SIZE\<rparr>"

lemma sample_waiting_ready: "conn_ready sample_waiting"
  by (simp add: conn_ready_def sample_waiting_def conn_inv_def recv_wf_def mp_inv_new sample_pool_inv)

theorem eof_after_message_repeats_witness: "conn_step sample_waiting ReadEof sample_waiting"
  using eof_after_message_repeats [OF sample_waiting_ready] by (simp add: sample_waiting_def)

text \<open>Liveness. A header that announces more bytes than the receive buffer holds is accepted: when
  the buffer is full the connection reads into an empty buffer, which completes at once without a byte,
  and stays in the same state.\<close>
lemma oversized_message_repeats:
  assumes "conn_inv c" and "co_pending c = Reading 0"
    and "co_msg_size c = word_of_nat (le_decode (take (unat (co_header_size c)) (co_buf c)))"
    and "BUFFER_SIZE < unat (co_msg_size c)"
  shows "conn_step c (ReadBytes []) c"
proof -
  have wf: "recv_wf c" and idx: "unat (co_index c) = BUFFER_SIZE"
    using assms(1,2) by (auto simp: conn_inv_def recv_wf_def)
  note len = recv_wfD(2,5) [OF wf]
  have "word_of_nat (unat (co_index c)) = co_index c" by simp
  then have widx: "word_of_nat BUFFER_SIZE = co_index c" unfolding idx .
  have rec: "received [] c = c"
    using idx len widx assms(3) by (cases c) (simp add: received_def Let_def)
  have "Connection_on_read NoError [] c = Inr (Connection_read c)"
    using on_read_received [OF wf, of "[]" NoError] idx assms(4) by (simp add: rec)
  moreover have "Connection_read c = c"
    using read_space [of c] idx assms(2) by (cases c) simp
  ultimately show ?thesis using assms(2) by (intro conn_stepI) simp_all
qed

definition sample_oversized :: Connection where
  "sample_oversized =
     sample_waiting\<lparr>co_index := word_of_nat BUFFER_SIZE, co_pending := Reading 0,
       co_buf := le32 40000 @ replicate (BUFFER_SIZE - 4) 0, co_msg_size := 40000\<rparr>"



text \<open>C6 Memory safety. A security that the database returned is never sent: its bytes belong to a
  vector that is destroyed when the completion returns, and the write that the completion posted reads
  them afterwards.\<close>
theorem found_security_use_after_free:
  assumes "conn_inv c" and "co_pending c = SecurityRequested q"
    and "length (row_name row) + 31 \<le> BUFFER_SIZE"
  shows "\<exists>d. conn_step c (SecurityDone False (row # rows) a) d
    \<and> conn_enabled (co_pending d) RunPosted \<and> conn_react RunPosted d = Inl UseAfterFree"
proof -
  define r where "r = \<lparr>gr_size = 6 + (word_of_nat (length (row_name row)) + 25),
    gr_status = GBN_SUCCESS, gr_error_type = 0, gr_sec = Some (security_of_row a row)\<rparr>"
  define m where "m = (mp_getByNameMsg (co_msgProcessor c))\<lparr>gm_response := Some r\<rparr>"
  define d where "d = c\<lparr>co_heap := (co_heap c)(a := None),
    co_msgProcessor := (co_msgProcessor c)\<lparr>mp_getByNameMsg := m\<rparr>, co_pending := WritePosted\<rparr>"
  have step: "conn_step c (SecurityDone False (row # rows) a) d"
    using assms(2)
    by (intro conn_stepI)
       (simp_all add: Connection_on_security_def get_security_completion_found
         Connection_perform_posted_def Connection_perform_def d_def m_def r_def)
  have "GetByName_encode ((co_heap c)(a := None)) m (co_buf c) = Inl UseAfterFree"
    by (rule freed_blob_encode [where r = r and sec = "security_of_row a row"])
       (use assms in \<open>simp_all add: m_def r_def security_of_row_def conn_inv_def recv_wf_def\<close>)
  then have "Connection_write d = Inl UseAfterFree"
    using assms(1,2)
    by (simp add: Connection_write_def MsgProcessor_encode_def d_def conn_inv_def)
  then have "conn_enabled (co_pending d) RunPosted \<and> conn_react RunPosted d = Inl UseAfterFree"
    by (simp add: d_def)
  then show ?thesis using step by blast
qed

definition sample_requested :: Connection where
  "sample_requested = sample_waiting\<lparr>co_pending := SecurityRequested (get_security_async 0 [97]),
     co_msgProcessor := new_MsgProcessor\<lparr>mp_type := 4, mp_msg := Some GetByNameMsg\<rparr>\<rparr>"

definition sample_row :: security_row where
  "sample_row = \<lparr>row_name = [97], row_typeId = 1, row_lastTransaction = 2, row_updateCount = 3,
     row_dateCreated = 4, row_dbIdUpdated = 5, row_versionInfo = 6, row_mem = [1, 2, 3]\<rparr>"

lemma sample_requested_inv: "conn_inv sample_requested"
  using sample_waiting_ready queries_built(1) [of 0 "[97]"]
  by (simp add: sample_requested_def sample_waiting_def conn_ready_def conn_inv_def recv_wf_def
      mp_inv_def select_msg_def)

theorem found_security_use_after_free_witness:
  "\<exists>d. conn_step sample_requested (SecurityDone False [sample_row] 7) d
    \<and> conn_enabled (co_pending d) RunPosted \<and> conn_react RunPosted d = Inl UseAfterFree"
  using found_security_use_after_free [OF sample_requested_inv, of "get_security_async 0 [97]" sample_row
      "[]" 7]
  by (simp add: sample_requested_def sample_waiting_def sample_row_def BUFFER_SIZE_def)

end
