(* ===== verification/Server.thy ===== *)
theory Server
  imports Server_Connection
begin

text \<open>
  \<^verbatim>\<open>middleware-cpp/server/secserv.h\<close> and \<^verbatim>\<open>metrics.h\<close>: the server owns a pool of I/O contexts and a
  pool of database contexts, accepts connections one after the other and hands each a context, a
  gauge and a copy of the database pool. A gauge is a family of metrics and the value of its label
  \<^verbatim>\<open>number\<close>; what a gauge shows has no influence on the server.
\<close>

section \<open>Gauges (metrics.h)\<close>

type_synonym metric = "string \<times> string"

record 'm gauge_fields =
  g_msgRead :: 'm
  g_msgDecoded :: 'm
  g_msgProcessed :: 'm
  g_msgEncoded :: 'm
  g_getByNameTotal :: 'm
  g_getByNameDecode :: 'm
  g_getByNameProcess :: 'm
  g_getByNameEncode :: 'm
  g_lookupDecode :: 'm
  g_lookupProcess :: 'm
  g_lookupEncode :: 'm
  g_dbConnection :: 'm
  g_queryExec :: 'm

type_synonym Gauge = "metric gauge_fields"
type_synonym Gauges = "string gauge_fields"

text \<open>\<^verbatim>\<open>family.Add({{"number", ...}})\<close>: the gauge of the family with that label.\<close>

definition family_add :: "string \<Rightarrow> string \<Rightarrow> metric" where
  "family_add family number = (family, number)"

definition Gauges_create :: "Gauges \<Rightarrow> int \<Rightarrow> Gauge" where
  "Gauges_create gs i =
     \<lparr>g_msgRead = family_add (g_msgRead gs) (std_to_string i),
      g_msgDecoded = family_add (g_msgDecoded gs) (std_to_string i),
      g_msgProcessed = family_add (g_msgProcessed gs) (std_to_string i),
      g_msgEncoded = family_add (g_msgEncoded gs) (std_to_string i),
      g_getByNameTotal = family_add (g_getByNameTotal gs) (std_to_string i),
      g_getByNameDecode = family_add (g_getByNameDecode gs) (std_to_string i),
      g_getByNameProcess = family_add (g_getByNameProcess gs) (std_to_string i),
      g_getByNameEncode = family_add (g_getByNameEncode gs) (std_to_string i),
      g_lookupDecode = family_add (g_lookupDecode gs) (std_to_string i),
      g_lookupProcess = family_add (g_lookupProcess gs) (std_to_string i),
      g_lookupEncode = family_add (g_lookupEncode gs) (std_to_string i),
      g_dbConnection = family_add (g_dbConnection gs) (std_to_string i),
      g_queryExec = family_add (g_queryExec gs) (std_to_string i)\<rparr>"

text \<open>The families that the server's constructor registers.\<close>

definition server_gauges :: Gauges where
  "server_gauges =
     \<lparr>g_msgRead = ''msg_read'', g_msgDecoded = ''msg_decoded'', g_msgProcessed = ''msg_processed'',
      g_msgEncoded = ''msg_encoded'', g_getByNameTotal = ''get_object_total'',
      g_getByNameDecode = ''get_object_decode'', g_getByNameProcess = ''get_object_process'',
      g_getByNameEncode = ''get_object_encode'', g_lookupDecode = ''lookup_decode'',
      g_lookupProcess = ''lookup_process'', g_lookupEncode = ''lookup_encode'',
      g_dbConnection = ''get_connection'', g_queryExec = ''exec_query''\<rparr>"

section \<open>The server (secserv.h)\<close>

record served =
  se_connection :: Connection
  se_context :: io_context
  se_gauge :: Gauge

record Server =
  sv_contextPool :: IOContextPool
  sv_repoContextPool :: IOContextPool
  sv_acceptor_context :: io_context
  sv_counter :: int
  sv_accepting :: "served option"
  sv_served :: "served list"

text \<open>\<^verbatim>\<open>eventLoop\<close> up to the asynchronous accept. The connection copies the database pool.\<close>

definition eventLoop :: "Server \<Rightarrow> Server" where
  "eventLoop s =
     (let (context, pool) = getIOContext (sv_contextPool s);
          counter = sv_counter s + 1;
          gauge = Gauges_create server_gauges counter;
          connection = new_Connection (sv_repoContextPool s) in
      s\<lparr>sv_contextPool := pool, sv_counter := counter,
        sv_accepting := Some \<lparr>se_connection = connection, se_context = context, se_gauge = gauge\<rparr>\<rparr>)"

definition new_Server :: "nat \<Rightarrow> nat \<Rightarrow> nat \<Rightarrow> nat \<Rightarrow> pool_error + Server" where
  "new_Server ioContextPoolSize ioThreadPerContext dbContextPoolSize dbThreadPerContext =
     (case new_IOContextPool ioContextPoolSize ioThreadPerContext of
        Inl e \<Rightarrow> Inl e
      | Inr contextPool \<Rightarrow>
          (case new_IOContextPool dbContextPoolSize dbThreadPerContext of
             Inl e \<Rightarrow> Inl e
           | Inr repoContextPool \<Rightarrow>
               let (context, contextPool) = getIOContext contextPool in
               Inr (eventLoop
                 \<lparr>sv_contextPool = contextPool, sv_repoContextPool = repoContextPool,
                  sv_acceptor_context = context, sv_counter = 0, sv_accepting = None,
                  sv_served = []\<rparr>)))"

text \<open>The completion of an accept: on an error the loop is not continued.\<close>

definition Server_on_accept :: "bool \<Rightarrow> Server \<Rightarrow> Server" where
  "Server_on_accept ec s =
     (case sv_accepting s of
        None \<Rightarrow> s
      | Some p \<Rightarrow>
          if ec then s\<lparr>sv_accepting := None\<rparr>
          else eventLoop
            (s\<lparr>sv_accepting := None,
               sv_served := sv_served s @ [p\<lparr>se_connection := Connection_read (se_connection p)\<rparr>]\<rparr>))"

definition Server_accepts :: "bool list \<Rightarrow> Server \<Rightarrow> Server" where
  "Server_accepts ecs s = foldl (\<lambda>s ec. Server_on_accept ec s) s ecs"

text \<open>The threads that \<^verbatim>\<open>run()\<close> starts, for the two pools.\<close>

definition Server_run :: "Server \<Rightarrow> io_context list \<times> io_context list" where
  "Server_run s = (run_pool (sv_contextPool s), run_pool (sv_repoContextPool s))"

section \<open>Invariant\<close>

definition server_inv :: "Server \<Rightarrow> bool" where
  "server_inv s \<longleftrightarrow>
     pool_inv (sv_contextPool s) \<and> pool_inv (sv_repoContextPool s)
     \<and> (\<forall>p \<in> set_option (sv_accepting s).
          se_connection p = new_Connection (sv_repoContextPool s)
          \<and> se_context p \<in> set (ioContexts (sv_contextPool s)))
     \<and> (\<forall>p \<in> set (sv_served s).
          se_connection p = Connection_read (new_Connection (sv_repoContextPool s))
          \<and> se_context p \<in> set (ioContexts (sv_contextPool s)))"

lemma eventLoop_simps [simp]:
  "sv_contextPool (eventLoop s) = snd (getIOContext (sv_contextPool s))"
  "sv_repoContextPool (eventLoop s) = sv_repoContextPool s"
  "sv_served (eventLoop s) = sv_served s"
  "sv_counter (eventLoop s) = sv_counter s + 1"
  "sv_accepting (eventLoop s) =
     Some \<lparr>se_connection = new_Connection (sv_repoContextPool s),
           se_context = fst (getIOContext (sv_contextPool s)),
           se_gauge = Gauges_create server_gauges (sv_counter s + 1)\<rparr>"
  by (simp_all add: eventLoop_def Let_def split: prod.splits)

lemma server_inv_eventLoop: "server_inv s \<Longrightarrow> server_inv (eventLoop s)"
  by (simp add: server_inv_def pool.get_invar pool.get_contexts pool.get_in)

lemma new_Server_cases:
  assumes "new_Server a b c d = Inr s"
  obtains p q where "new_IOContextPool a b = Inr p" and "new_IOContextPool c d = Inr q"
    and "s = eventLoop \<lparr>sv_contextPool = snd (getIOContext p), sv_repoContextPool = q,
      sv_acceptor_context = fst (getIOContext p), sv_counter = 0, sv_accepting = None, sv_served = []\<rparr>"
  using assms by (auto simp: new_Server_def Let_def split: sum.splits prod.splits)

lemma server_inv_new:
  assumes "new_Server a b c d = Inr s"
  shows "server_inv s"
  using assms
proof (cases rule: new_Server_cases)
  case (1 p q)
  have "pool_inv (snd (getIOContext p))" by (rule pool.get_invar [OF pool_inv_new [OF 1(1)]])
  then show ?thesis
    unfolding 1(3) using pool_inv_new [OF 1(2)]
    by (intro server_inv_eventLoop) (simp add: server_inv_def)
qed

lemma server_inv_accept:
  assumes "server_inv s"
  shows "server_inv (Server_on_accept ec s)"
proof (cases "sv_accepting s")
  case None
  then show ?thesis using assms by (simp add: Server_on_accept_def)
next
  case (Some p)
  have "server_inv (s\<lparr>sv_accepting := None\<rparr>)"
    using assms by (simp add: server_inv_def)
  moreover have "server_inv (s\<lparr>sv_accepting := None,
      sv_served := sv_served s @ [p\<lparr>se_connection := Connection_read (se_connection p)\<rparr>]\<rparr>)"
    using assms Some by (simp add: server_inv_def ball_Un)
  ultimately show ?thesis
    using Some by (simp add: Server_on_accept_def server_inv_eventLoop)
qed

lemma server_inv_accepts: "server_inv s \<Longrightarrow> server_inv (Server_accepts ecs s)"
  unfolding Server_accepts_def
  by (induction ecs arbitrary: s) (simp_all add: server_inv_accept)

lemma accepts_repo_pool: "sv_repoContextPool (Server_accepts ecs s) = sv_repoContextPool s"
  unfolding Server_accepts_def
  by (induction ecs arbitrary: s) (simp_all add: Server_on_accept_def split: option.splits)

section \<open>Properties of the server\<close>

text \<open>Invariant. After any sequence of accepts and accept errors, every connection runs on a context
  of the server's pool, starts from the initial state, and holds its own copy of the database pool as
  the server was built with it.\<close>
lemma server_invariant:
  assumes "new_Server a b c d = Inr s"
  shows "server_inv (Server_accepts ecs s)"
  using server_inv_new [OF assms] by (rule server_inv_accepts)

definition sample_server :: Server where
  "sample_server = projr (new_Server 2 1 2 1)"

lemma sample_server_new: "new_Server 2 1 2 1 = Inr sample_server"
  by (simp add: sample_server_def new_Server_def new_IOContextPool_def Let_def split: prod.split)

text \<open>Functional. The database contexts that a served connection uses are chosen from its own copy of the
  pool, which starts at the first context: the first request of every connection, however many there
  are, runs on the same database context.\<close>
lemma first_db_context_shared:
  assumes "new_Server a b c d = Inr s" and "p \<in> set (sv_served (Server_accepts ecs s))"
  shows "fst (getIOContext (co_repoContextPool (se_connection p))) = 0"
proof -
  obtain pq q where q: "new_IOContextPool c d = Inr q" "sv_repoContextPool s = q"
    using assms(1) by (cases rule: new_Server_cases) simp
  have "se_connection p = Connection_read (new_Connection q)"
    using server_inv_accepts [OF server_inv_new [OF assms(1)], of ecs] assms(2) q(2)
    by (simp add: server_inv_def accepts_repo_pool)
  then show ?thesis
    using q(1)
    by (auto simp: Connection_read_def new_Connection_def getIOContext_def Let_def
        new_IOContextPool_def split: if_splits)
qed

lemma sample_served:
  "\<exists>p q r. sv_served (Server_accepts [False, False, False] sample_server) = [p, q, r]"
  by (simp add: Server_accepts_def Server_on_accept_def sample_server_def new_Server_def
      new_IOContextPool_def Let_def split: prod.split)

text \<open>Liveness. After one accept error the server accepts no further connection: no later accept
  changes it.\<close>
lemma accept_error_stops:
  "Server_accepts (True # ecs) s = (Server_on_accept True s)
     \<and> sv_accepting (Server_on_accept True s) = None
     \<and> sv_served (Server_on_accept True s) = sv_served s"
proof -
  have stopped: "sv_accepting (Server_on_accept True s) = None"
    by (simp add: Server_on_accept_def split: option.split)
  have "Server_accepts ecs t = t" if "sv_accepting t = None" for t
    using that unfolding Server_accepts_def
    by (induction ecs) (simp_all add: Server_on_accept_def)
  then show ?thesis
    using stopped by (auto simp: Server_accepts_def Server_on_accept_def split: option.split)
qed

lemma accepts_contexts:
  "map se_context (sv_served (Server_accepts (replicate n False) (eventLoop s))) =
     map se_context (sv_served s) @ getIOContexts n (sv_contextPool s)"
proof (induction n arbitrary: s)
  case 0
  then show ?case by (simp add: Server_accepts_def)
next
  case (Suc n)
  define t where "t = (eventLoop s)\<lparr>sv_accepting := None, sv_served := sv_served s @
      [\<lparr>se_connection = Connection_read (new_Connection (sv_repoContextPool s)),
        se_context = fst (getIOContext (sv_contextPool s)),
        se_gauge = Gauges_create server_gauges (sv_counter s + 1)\<rparr>]\<rparr>"
  have "Server_on_accept False (eventLoop s) = eventLoop t"
    by (simp add: Server_on_accept_def t_def)
  then have "Server_accepts (replicate (Suc n) False) (eventLoop s) =
      Server_accepts (replicate n False) (eventLoop t)"
    by (simp add: Server_accepts_def)
  then show ?case using Suc.IH [of t] by (simp add: t_def)
qed

text \<open>Functional. The connections that a server accepts are spread over its I/O contexts in turn,
  beginning with the second one, the first being the acceptor's.\<close>
lemma served_round_robin:
  assumes "new_Server a b c d = Inr s"
  shows "map se_context (sv_served (Server_accepts (replicate n False) s)) =
    map (\<lambda>k. (k + 1) mod a) [0..<n]"
  using assms
proof (cases rule: new_Server_cases)
  case (1 p q)
  let ?p = "snd (getIOContext p)"
  have a: "0 < a" and p: "ioContexts p = [0..<a]" "nextIOContext p = 0"
    using 1(1) by (auto simp: new_IOContextPool_def split: if_splits)
  have inv: "pool_inv p" by (rule pool_inv_new [OF 1(1)])
  have "map se_context (sv_served (Server_accepts (replicate n False) s)) = getIOContexts n ?p"
    unfolding 1(3) by (simp add: accepts_contexts)
  also have "\<dots> = map (\<lambda>k. ioContexts ?p ! ((nextIOContext ?p + k) mod length (ioContexts ?p))) [0..<n]"
    by (rule getIOContexts_round_robin [OF pool.get_invar [OF inv]])
  also have "\<dots> = map (\<lambda>k. (k + 1) mod a) [0..<n]"
    using a p getIOContext_next [OF inv]
    by (intro map_cong refl) (simp add: getIOContext_contexts mod_add_left_eq)
  finally show ?thesis .
qed

text \<open>Safety. No two connections share a gauge: the gauges of different connection numbers differ in
  every field.\<close>
lemma gauges_distinct:
  assumes "i \<noteq> j" and "0 \<le> i" and "0 \<le> j"
  shows "g_msgRead (Gauges_create gs i) \<noteq> g_msgRead (Gauges_create gs j)
    \<and> g_queryExec (Gauges_create gs i) \<noteq> g_queryExec (Gauges_create gs j)
    \<and> g_getByNameTotal (Gauges_create gs i) \<noteq> g_getByNameTotal (Gauges_create gs j)"
  using assms by (auto simp: Gauges_create_def family_add_def std_to_string_inj)

end
