(* ===== verification/Protocol.thy ===== *)
theory Protocol
  imports Client_Messages Server
begin

text \<open>
  The client and the server together: what the client puts on the wire is what the server's connection
  decodes, and what the connection writes is what the client reads. \<open>beyond\<close> are the bytes that
  happen to follow the client's request block in memory, which the client sends along.
\<close>

section \<open>What the client sends\<close>

lemma asio_write_ok:
  assumes "n = length block + k" and "k \<le> length beyond" and "n < 2 ^ 63"
  shows "asio_write beyond block (word_of_nat n) = Inr (block @ take k beyond)"
proof -
  have "unat (word_of_nat n :: size_t) = n" using assms(3) by (intro unat_size_of_nat) simp
  then show ?thesis using assms by (simp add: asio_write_def read_at_def)
qed

lemma asio_write_over:
  assumes "length block < n" and "n < 2 ^ 63"
  shows "asio_write [] block (word_of_nat n) = Inl OutOfBoundsRead"
proof -
  have "unat (word_of_nat n :: size_t) = n" using assms(2) by (intro unat_size_of_nat) simp
  then show ?thesis using assms by (simp add: asio_write_def read_at_def)
qed

definition attach_block :: "(nat \<Rightarrow> byte) \<Rightarrow> bytes" where
  "attach_block junk =
     le16 22 @ le16 1 @ c_str (ascii ''Rahul'') @ c_str (ascii ''secdb'') @ le16 1 @ le16 2
     @ map junk [20..<24]"

lemma Client_attach_send_write:
  "Client_attach_send junk beyond = asio_write beyond (attach_block junk) (word_of_nat 30)"
proof -
  have len: "length (ascii ''Rahul'') = 5" "length (ascii ''secdb'') = 5"
    by (simp_all add: ascii_def)
  have "cl_AttachRequest_encode junk (new_cl_AttachRequest (ascii ''Rahul'') (ascii ''secdb'') 1 2) =
      Inr (attach_block junk)"
    by (subst cl_AttachRequest_encode_layout) (simp_all add: len attach_block_def)
  moreover have "(scast (ca_size (new_cl_AttachRequest (ascii ''Rahul'') (ascii ''secdb'') 1 2)) + 8 :: size_t)
      = word_of_nat 30"
    by (simp add: new_cl_AttachRequest_def len)
  ultimately show ?thesis by (simp add: Client_attach_send_def)
qed

lemma length_attach_block: "length (attach_block junk) = 24"
  by (simp add: attach_block_def ascii_def)

definition security_block :: "(nat \<Rightarrow> byte) \<Rightarrow> bytes \<Rightarrow> bytes" where
  "security_block junk name =
     le32 (word_of_nat (length name + 9)) @ le16 4 @ c_str name @ map junk [length name + 7..<length name + 9]"

lemma Client_getSecurity_send_write:
  assumes "length name < 2 ^ 29"
  shows "Client_getSecurity_send junk beyond name =
    asio_write beyond (security_block junk name) (word_of_nat (length name + 17))"
proof -
  have "cg_size (new_cl_GetByNameRequest name) = word_of_nat (length name + 9)"
    by (simp add: new_cl_GetByNameRequest_def ac_simps)
  then have "(scast (cg_size (new_cl_GetByNameRequest name)) + 8 :: size_t) = word_of_nat (length name + 17)"
    using assms scast_blob_size [of "length name + 9"] by simp
  then show ?thesis
    unfolding Client_getSecurity_send_def Let_def cl_GetByNameRequest_encode_layout [OF assms]
      security_block_def by (simp add: add.commute)
qed

lemma length_security_block: "length (security_block junk name) = length name + 9"
  by (simp add: security_block_def)

definition lookup_block :: "(nat \<Rightarrow> byte) \<Rightarrow> bytes \<Rightarrow> short \<Rightarrow> bytes" where
  "lookup_block junk prefix count =
     (le_encode 2 7 @ drop 2 (le32 (word_of_nat (length prefix + 13)))) @ le16 11
     @ [junk 6, junk 7] @ le16 count @ c_str prefix
     @ map junk [length prefix + 11..<length prefix + 13]"

lemma Client_lookup_send_write:
  assumes "length prefix < 2 ^ 29"
  shows "Client_lookup_send junk beyond prefix count =
    asio_write beyond (lookup_block junk prefix count) (word_of_nat (length prefix + 21))"
proof -
  have "cn_size (new_cl_NameLookupRequest t count prefix) = word_of_nat (length prefix + 13)" for t
    by (simp add: new_cl_NameLookupRequest_def ac_simps)
  then have "(scast (cn_size (new_cl_NameLookupRequest t count prefix)) + 8 :: size_t) =
      word_of_nat (length prefix + 21)" for t
    using assms scast_blob_size [of "length prefix + 13"] by simp
  moreover have "unat (cl_LookupType_value CL_GET_GE) = 7" by simp
  ultimately show ?thesis
    unfolding Client_lookup_send_def Let_def cl_NameLookupRequest_encode_layout [OF assms]
      lookup_block_def by (simp only: rbind_simps append_assoc)
qed

lemma length_lookup_block: "length (lookup_block junk prefix count) = length prefix + 13"
  by (simp add: lookup_block_def le32_def)

lemma lookup_block_header:
  assumes "length prefix < 2 ^ 15"
  shows "le_encode 2 7 @ drop 2 (le32 (word_of_nat (length prefix + 13))) = [7, 0, 0, 0]"
proof -
  have n: "unat (word_of_nat (length prefix + 13) :: cint) = length prefix + 13"
    unfolding unat_of_nat using assms by simp
  have two: "(2 :: nat) = Suc (Suc 0)" and four: "(4 :: nat) = Suc (Suc (Suc (Suc 0)))" by simp_all
  have "(length prefix + 13) div 256 div 256 = 0" using assms by simp
  then show ?thesis
    unfolding le32_def n two four le_encode.simps drop_Suc_Cons drop_0 by simp
qed

section \<open>End to end\<close>

text \<open>C3 Round trip. The attach handshake: whatever the uninitialised bytes of the request are and whatever
  follows it in memory, a server connection that reads the client's attach request in one piece recognises
  it, switches to four-byte headers and answers with a frame from which the client reads version 269 and
  the server's feature bits.\<close>
theorem attach_handshake:
  assumes "conn_ready c" and "co_header_size c = 2" and "6 \<le> length beyond"
  shows "\<exists>sent d e out. Client_attach_send junk beyond = Inr sent
    \<and> conn_step c (ReadBytes sent) d \<and> co_header_size d = 4
    \<and> sa_request (mp_attachMsg (co_msgProcessor d)) =
        \<lparr>aq_user_name = ascii ''Rahul'', aq_app_name = ascii ''secdb'', aq_version = 1, aq_revision = 2\<rparr>
    \<and> conn_step d RunPosted e \<and> co_pending e = Writing out
    \<and> Client_attach_recv False junk' (out @ rest) =
        Inr (\<lparr>cr_version_revision = 269, cr_server_features = attach_server_features\<rparr>, rest)"
proof -
  let ?user = "ascii ''Rahul''" and ?app = "ascii ''secdb''"
  let ?sent = "attach_block junk @ take 6 beyond"
  have sent: "Client_attach_send junk beyond = Inr ?sent"
    unfolding Client_attach_send_write
    by (rule asio_write_ok) (use assms(3) in \<open>simp_all add: length_attach_block\<close>)
  have "c_str_ok USER_NAME_SIZE ?user" "c_str_ok APP_NAME_SIZE ?app"
    by (simp_all add: c_str_ok_def ascii_def USER_NAME_SIZE_def APP_NAME_SIZE_def)
  moreover have "length ?sent = 30" using assms(3) by (simp add: length_attach_block)
  ultimately obtain d where d: "conn_step c (ReadBytes ?sent) d" "co_pending d = WritePosted"
      "co_header_size d = 4" "mp_msg (co_msgProcessor d) = Some AttachMsg"
      "mp_attachMsg (co_msgProcessor d) =
        \<lparr>sa_request = \<lparr>aq_user_name = ?user, aq_app_name = ?app, aq_version = 1, aq_revision = 2\<rparr>,
         sa_response = Some (new_AttachResponse 269 attach_server_features)\<rparr>"
    using attach_request_step [OF assms(1,2), of ?user ?app "le16 22" ?sent 1 2
        "map junk [20..<24] @ take 6 beyond"]
    by (auto simp: attach_block_def BUFFER_SIZE_def)
  have inv: "conn_inv d" using conn_inv_step [OF _ d(1)] assms(1) by (simp add: conn_ready_def)
  obtain e where e: "conn_step d RunPosted e"
      "co_pending e = Writing (attach_frame (mp_attachMsg (co_msgProcessor d)))"
    using attach_response [OF d(2,4)] inv d(5)
    by (auto simp: attach_ready_def conn_inv_def recv_wf_def)
  have "attach_frame (mp_attachMsg (co_msgProcessor d)) = le16 8 @ le16 269 @ le32 attach_server_features"
    by (simp add: d(5) attach_frame_def new_AttachResponse_def)
  then have "Client_attach_recv False junk' (attach_frame (mp_attachMsg (co_msgProcessor d)) @ rest) =
      Inr (\<lparr>cr_version_revision = 269, cr_server_features = attach_server_features\<rparr>, rest)"
    using Client_attach_recv_frame [of junk' 269 attach_server_features rest] by simp
  then show ?thesis using sent d e by fastforce
qed

theorem attach_handshake_witness:
  "\<exists>sent d. Client_attach_send (\<lambda>_. 0) [1, 2, 3, 4, 5, 6] = Inr sent
     \<and> conn_step (Connection_read (new_Connection sample_pool)) (ReadBytes sent) d
     \<and> co_header_size d = 4"
  using attach_handshake [OF conn_ready_new [OF sample_pool_inv] sample_connection(3),
      of "[1, 2, 3, 4, 5, 6]" "\<lambda>_. 0" "\<lambda>_. 0" "[]"]
  by auto

text \<open>Round trip. A request for a security by name: the connection asks the database for exactly that
  name; when no row comes back it answers with an error frame, and the client's decoder returns a security
  object nobody has filled in.\<close>
lemma security_request_missing:
  assumes "conn_ready c" and "co_header_size c = 4" and "c_str_ok SEC_NAME_SIZE name"
    and "8 \<le> length beyond"
  shows "\<exists>sent d d' e. Client_getSecurity_send junk beyond name = Inr sent
    \<and> conn_step c (ReadBytes sent) d
    \<and> co_pending d =
        SecurityRequested (get_security_async (fst (getIOContext (co_repoContextPool c))) name)
    \<and> conn_step d (SecurityDone False [] a) d' \<and> conn_step d' RunPosted e
    \<and> co_pending e = Writing error_frame
    \<and> Client_getSecurity_recv False junk' uninit (error_frame @ rest) = Inr (new_cl_Security uninit, rest)"
proof -
  let ?sent = "security_block junk name @ take 8 beyond"
  have small: "length name < 32" using assms(3) by (simp add: c_str_ok_def SEC_NAME_SIZE_def)
  then have large: "length name < 2 ^ 29" by simp
  have sent: "Client_getSecurity_send junk beyond name = Inr ?sent"
    unfolding Client_getSecurity_send_write [OF large]
    by (rule asio_write_ok) (use small assms(4) in \<open>simp_all add: length_security_block\<close>)
  have hdr: "le_decode (le32 (word_of_nat (length name + 9))) = length name + 9"
    using small unfolding le_decode_words unat_of_nat by simp
  have len: "length ?sent = length name + 17" using assms(4) by (simp add: length_security_block)
  obtain d where d: "conn_step c (ReadBytes ?sent) d" "conn_inv d" "co_pending d =
        SecurityRequested (get_security_async (fst (getIOContext (co_repoContextPool c))) name)"
    using security_request_step [OF assms(1-3), of "le32 (word_of_nat (length name + 9))" ?sent
        "map junk [length name + 7..<length name + 9] @ take 8 beyond"] hdr len small
    by (auto simp: security_block_def BUFFER_SIZE_def simp del: of_nat_add le_decode_words)
  obtain d' e where "conn_step d (SecurityDone False [] a) d'" "conn_step d' RunPosted e"
      "co_pending e = Writing error_frame"
    using missing_response [OF d(2,3)] by blast
  then show ?thesis using sent d Client_getSecurity_recv_error by blast
qed

text \<open>C5 Round trip. A prefix lookup: although the client writes the lookup type over the low half of
  the size field and never sends the type, a connection that reads the request in one piece asks the database
  for the given prefix and count; the names that the database returns reach the client in order, provided
  the answer fits the send buffer.\<close>
theorem lookup_round_trip:
  assumes "conn_ready c" and "co_header_size c = 4" and "c_str_ok SEC_NAME_SIZE prefix"
    and "8 \<le> length beyond"
    and "length (lookup_frame_of names) \<le> BUFFER_SIZE" and "list_all (c_str_ok CL_SEC_NAME_SIZE) names"
  shows "\<exists>sent d d' e. Client_lookup_send junk beyond prefix count = Inr sent
    \<and> conn_step c (ReadBytes sent) d
    \<and> co_pending d =
        LookupRequested (lookup_async (fst (getIOContext (co_repoContextPool c))) prefix count)
    \<and> conn_step d (LookupDone False names) d' \<and> conn_step d' RunPosted e
    \<and> co_pending e = Writing (lookup_frame_of names)
    \<and> Client_lookup_recv False junk' (lookup_frame_of names @ rest) = Inr (names, rest)"
proof -
  let ?sent = "lookup_block junk prefix count @ take 8 beyond"
  have small: "length prefix < 32" using assms(3) by (simp add: c_str_ok_def SEC_NAME_SIZE_def)
  then have large: "length prefix < 2 ^ 29" and short: "length prefix < 2 ^ 15" by simp_all
  have sent: "Client_lookup_send junk beyond prefix count = Inr ?sent"
    unfolding Client_lookup_send_write [OF large]
    by (rule asio_write_ok) (use small assms(4) in \<open>simp_all add: length_lookup_block\<close>)
  have len: "length ?sent = length prefix + 21" using assms(4) by (simp add: length_lookup_block)
  have block: "?sent = [7, 0, 0, 0] @ le16 11 @ [junk 6, junk 7] @ le16 count @ c_str prefix
      @ (map junk [length prefix + 11..<length prefix + 13] @ take 8 beyond)"
    by (simp only: lookup_block_def lookup_block_header [OF short] append_assoc)
  obtain d where d: "conn_step c (ReadBytes ?sent) d" "conn_inv d" "co_pending d =
        LookupRequested (lookup_async (fst (getIOContext (co_repoContextPool c))) prefix count)"
    using lookup_request_step [OF assms(1-3) _ _ block] len small by (auto simp: BUFFER_SIZE_def)
  obtain d' e where de: "conn_step d (LookupDone False names) d'" "conn_step d' RunPosted e"
      "co_pending e = Writing (lookup_frame_of names)"
    using lookup_response [OF d(2,3) assms(5)] by blast
  have bytes: "6 + names_length names \<le> 32768"
    using assms(5) by (simp add: length_lookup_frame_of BUFFER_SIZE_def)
  have "length names \<le> names_length names"
    unfolding names_length_def by (induction names) (auto simp: c_str_def)
  then have "Client_lookup_recv False junk' (lookup_frame_of names @ rest) = Inr (names, rest)"
    using bytes by (intro Client_lookup_recv_frame [OF _ _ assms(6)]) simp_all
  then show ?thesis using sent d de by blast
qed

theorem lookup_round_trip_witness:
  "\<exists>sent. Client_lookup_send (\<lambda>_. 0) [1, 2, 3, 4, 5, 6, 7, 8] [97] 5 = Inr sent
     \<and> Client_lookup_recv False (\<lambda>_. 0) (lookup_frame_of [[97, 98], [97, 99]] @ []) = Inr ([[97, 98], [97, 99]], [])"
  using lookup_round_trip [OF sample_waiting_ready, of "[97]" "[1, 2, 3, 4, 5, 6, 7, 8]"
      "[[97, 98], [97, 99]]" "\<lambda>_. 0" 5 "\<lambda>_. 0" "[]"]
  by (fastforce simp: sample_waiting_def c_str_ok_def SEC_NAME_SIZE_def CL_SEC_NAME_SIZE_def
      length_lookup_frame_of names_length_def BUFFER_SIZE_def c_str_def)






text \<open>Memory safety. Every request of the client is sent with a length eight bytes beyond the announced size,
  which is more than the block that holds it: with nothing readable after the block the send reads out of
  bounds, for any user data.\<close>
lemma client_sends_past_block:
  assumes "length name < 2 ^ 20"
  shows "Client_attach_send junk [] = Inl OutOfBoundsRead
    \<and> Client_getSecurity_send junk [] name = Inl OutOfBoundsRead
    \<and> Client_lookup_send junk [] name count = Inl OutOfBoundsRead"
proof -
  have large: "length name < 2 ^ 29" using assms by simp
  have "asio_write [] (attach_block junk) (word_of_nat 30) = Inl OutOfBoundsRead"
    by (rule asio_write_over) (simp_all add: length_attach_block)
  moreover have "asio_write [] (security_block junk name) (word_of_nat (length name + 17)) = Inl OutOfBoundsRead"
    by (rule asio_write_over) (use assms in \<open>simp_all add: length_security_block\<close>)
  moreover have "asio_write [] (lookup_block junk name count) (word_of_nat (length name + 21)) = Inl OutOfBoundsRead"
    by (rule asio_write_over) (use assms in \<open>simp_all add: length_lookup_block\<close>)
  ultimately show ?thesis
    by (simp only: Client_attach_send_write Client_getSecurity_send_write [OF large]
        Client_lookup_send_write [OF large])
qed

text \<open>Error path. When the server answers that a security does not exist, the object that the client gets has
  no bytes assigned, and its destructor frees a pointer nobody has set.\<close>
lemma missing_security_delete_faults:
  "\<exists>s. Client_getSecurity_recv False junk uninit (error_frame @ rest) = Inr (s, rest)
     \<and> delete_cl_Security s = Inl Uninitialised"
  using Client_getSecurity_recv_error
  by (intro exI [of _ "new_cl_Security uninit"]) (simp add: delete_cl_Security_def new_cl_Security_def)

text \<open>Memory safety. A request for a name of 32 bytes or more makes the server compute with a null pointer: the
  search for the terminator is limited to 32 bytes and its failure is not checked.\<close>
lemma long_name_faults:
  assumes "0 \<notin> set name" and "SEC_NAME_SIZE \<le> length name" and "length pre = data" and "mp_inv p"
  shows "MsgProcessor_decode (pre @ le16 4 @ c_str name @ rest) data p = Inl NullPointer"
proof -
  have t: "get16 (pre @ le16 4 @ c_str name @ rest) data = Inr 4" using assms(3) by (simp add: get_append)
  have ty: "set_low16 (mp_type p) 4 = 4"
    using assms(4) by (subst set_low16_short) (simp_all add: mp_inv_def)
  have d: "GetByName_decode (pre @ le16 4 @ c_str name @ rest) (data + 2) m = Inl NullPointer" for m
    using GetByName_decode_long [OF assms(1,2), of "pre @ le16 4" "data + 2" rest m] assms(3) by simp
  show ?thesis
    unfolding MsgProcessor_decode_def t rbind_simps Let_def ty
    by (simp add: select_msg_def d del: add_2_eq_Suc')
qed

end
