(* ===== verification/Pool_Storage.thy ===== *)
theory Pool_Storage
  imports Prelude "HOL-Library.Multiset"
begin

text \<open>
  \<^verbatim>\<open>yamail/resource_pool/time_traits.hpp\<close>, \<^verbatim>\<open>error.hpp\<close>, \<^verbatim>\<open>detail/idle.hpp\<close> and
  \<^verbatim>\<open>detail/storage.hpp\<close>: the cells of a resource pool, kept in three linked lists between which they
  are spliced. A list node keeps its address when it is spliced, so a cell is a number, the lists hold
  numbers, and the contents of the cells are a store. An iterator that is in no list of the storage
  (or is not the iterator of any list at all) cannot be spliced: that is a fault of the model.

  Time points and durations are ticks of the steady clock in a signed 64-bit integer, written as
  \<open>int\<close>; the saturating addition is shown to stay in range in all its intermediate results.
\<close>

section \<open>Time (time_traits.hpp)\<close>

definition tick_min :: int where "tick_min = - (2 ^ 63)"
definition tick_max :: int where "tick_max = 2 ^ 63 - 1"

abbreviation tick :: "int \<Rightarrow> bool" where
  "tick t \<equiv> tick_min \<le> t \<and> t \<le> tick_max"

definition time_add :: "int \<Rightarrow> int \<Rightarrow> int" where
  "time_add t d =
     (if t \<ge> 0
      then if tick_max - t < d then tick_max else t + d
      else if - (t - tick_min) > d then tick_min else t + d)"

text \<open>The addition saturates, and neither it nor the differences it compares overflow.\<close>

lemma time_add_saturates:
  assumes "tick t" and "tick d"
  shows "time_add t d = max tick_min (min tick_max (t + d))"
  using assms by (auto simp: time_add_def tick_min_def tick_max_def)

lemma time_add_no_overflow:
  assumes "tick t" and "tick d"
  shows "tick (time_add t d)"
    and "t \<ge> 0 \<Longrightarrow> tick (tick_max - t)"
    and "t < 0 \<Longrightarrow> tick (t - tick_min) \<and> tick (- (t - tick_min))"
  using assms by (auto simp: time_add_def tick_min_def tick_max_def)

lemma time_add_mono:
  assumes "tick t" "tick u" "tick d" "t \<le> u"
  shows "time_add t d \<le> time_add u d"
  using assms by (simp add: time_add_saturates)

lemma time_add_ge: "tick t \<Longrightarrow> tick d \<Longrightarrow> 0 \<le> d \<Longrightarrow> t \<le> time_add t d"
  by (simp add: time_add_saturates)

section \<open>Errors (error.hpp)\<close>

text \<open>
  The exceptions of the library, and the two ways an iterator can be unusable for a list operation.
\<close>

datatype rp_error =
    empty_handle
  | unusable_handle
  | zero_pool_capacity
  | singular_iterator
  | foreign_iterator

datatype pool_code = pool_ok | get_resource_timeout | request_queue_overflow | pool_disabled

definition pool_code_value :: "pool_code \<Rightarrow> int" where
  "pool_code_value c =
     (case c of pool_ok \<Rightarrow> 0 | get_resource_timeout \<Rightarrow> 1 | request_queue_overflow \<Rightarrow> 2 | pool_disabled \<Rightarrow> 3)"

text \<open>\<^verbatim>\<open>message(int)\<close> throws a logic error, here \<open>Inl\<close> with its text, for a value outside the enumeration.\<close>

definition pool_message :: "int \<Rightarrow> string + string" where
  "pool_message v =
     (if v = pool_code_value pool_ok then Inr ''no error''
      else if v = pool_code_value get_resource_timeout then Inr ''get resource timeout''
      else if v = pool_code_value request_queue_overflow then Inr ''request queue overflow''
      else if v = pool_code_value pool_disabled then Inr ''resource pool is disabled''
      else Inl (''no message for yamail::resource_pool::error: '' @ std_to_string v))"

lemma pool_message_of_code: "\<exists>s. pool_message (pool_code_value c) = Inr s"
  by (cases c) (auto simp: pool_message_def pool_code_value_def)

section \<open>The storage (idle.hpp, storage.hpp)\<close>

type_synonym cell = nat

record 'v idle =
  id_value :: "'v option"
  drop_time :: int
  reset_time :: int
  waste_on_recycle :: bool

text \<open>The default constructor: no value, the largest drop time; a time point starts at the epoch.\<close>

definition new_idle :: "'v idle" where
  "new_idle = \<lparr>id_value = None, drop_time = tick_max, reset_time = 0, waste_on_recycle = False\<rparr>"

definition idle_of :: "'v \<Rightarrow> int \<Rightarrow> int \<Rightarrow> 'v idle" where
  "idle_of v drop_at reset =
     \<lparr>id_value = Some v, drop_time = drop_at, reset_time = reset, waste_on_recycle = False\<rparr>"

record 'v storage =
  idle_timeout :: int
  lifespan :: int
  cells :: "cell \<Rightarrow> 'v idle"
  available_cells :: "cell list"
  used_cells :: "cell list"
  wasted_cells :: "cell list"

record storage_stats =
  st_available :: nat
  st_used :: nat
  st_wasted :: nat

definition new_storage :: "nat \<Rightarrow> int \<Rightarrow> int \<Rightarrow> 'v storage" where
  "new_storage capacity timeout life =
     \<lparr>idle_timeout = timeout, lifespan = life, cells = (\<lambda>_. new_idle),
      available_cells = [], used_cells = [], wasted_cells = [0..<capacity]\<rparr>"

text \<open>The constructors that are given values, by a generator or a pair of iterators.\<close>

definition storage_of :: "int \<Rightarrow> 'v list \<Rightarrow> int \<Rightarrow> int \<Rightarrow> 'v storage" where
  "storage_of now vs timeout life =
     (let drop_at = min (time_add now timeout) (time_add now life) in
      \<lparr>idle_timeout = timeout, lifespan = life,
       cells = (\<lambda>i. if i < length vs then idle_of (vs ! i) drop_at now else new_idle),
       available_cells = [0..<length vs], used_cells = [], wasted_cells = []\<rparr>)"

definition storage_stats_of :: "'v storage \<Rightarrow> storage_stats" where
  "storage_stats_of s =
     \<lparr>st_available = length (available_cells s), st_used = length (used_cells s),
      st_wasted = length (wasted_cells s)\<rparr>"

definition set_cell :: "cell \<Rightarrow> ('v idle \<Rightarrow> 'v idle) \<Rightarrow> 'v storage \<Rightarrow> 'v storage" where
  "set_cell c f s = s\<lparr>cells := (cells s)(c := f (cells s c))\<rparr>"

abbreviation reset_value :: "'v idle \<Rightarrow> 'v idle" where
  "reset_value i \<equiv> i\<lparr>id_value := None\<rparr>"

function lease :: "int \<Rightarrow> 'v storage \<Rightarrow> cell option \<times> 'v storage" where
  "lease now s =
     (case available_cells s of
        candidate # rest \<Rightarrow>
          if drop_time (cells s candidate) > now
          then (Some candidate, s\<lparr>available_cells := rest, used_cells := used_cells s @ [candidate]\<rparr>)
          else lease now ((set_cell candidate reset_value s)
                 \<lparr>available_cells := rest, wasted_cells := wasted_cells s @ [candidate]\<rparr>)
      | [] \<Rightarrow>
          (case wasted_cells s of
             result # rest \<Rightarrow>
               (Some result, (set_cell result (\<lambda>i. i\<lparr>waste_on_recycle := False\<rparr>) s)
                  \<lparr>wasted_cells := rest, used_cells := used_cells s @ [result]\<rparr>)
           | [] \<Rightarrow> (None, s)))"
  by pat_completeness auto
termination
  by (relation "measure (\<lambda>(now, s). length (available_cells s))") (auto simp: set_cell_def)

declare lease.simps [simp del]

definition storage_waste :: "cell \<Rightarrow> 'v storage \<Rightarrow> rp_error + 'v storage" where
  "storage_waste c s =
     (if c \<in> set (used_cells s)
      then Inr ((set_cell c reset_value s)
             \<lparr>used_cells := remove1 c (used_cells s), wasted_cells := wasted_cells s @ [c]\<rparr>)
      else Inl foreign_iterator)"

definition storage_recycle :: "int \<Rightarrow> cell \<Rightarrow> 'v storage \<Rightarrow> rp_error + 'v storage" where
  "storage_recycle now c s =
     (if waste_on_recycle (cells s c) then storage_waste c s
      else
        let life_end = time_add (reset_time (cells s c)) (lifespan s) in
        if life_end \<le> now then storage_waste c s
        else if c \<in> set (used_cells s)
        then Inr ((set_cell c (\<lambda>i. i\<lparr>drop_time := min (time_add now (idle_timeout s)) life_end\<rparr>) s)
               \<lparr>used_cells := remove1 c (used_cells s), available_cells := available_cells s @ [c]\<rparr>)
        else Inl foreign_iterator)"

definition storage_is_valid :: "int \<Rightarrow> cell \<Rightarrow> 'v storage \<Rightarrow> bool" where
  "storage_is_valid now c s =
     (if waste_on_recycle (cells s c) then False
      else
        let life_end = time_add (reset_time (cells s c)) (lifespan s) in
        if life_end \<le> now then False else True)"

definition storage_invalidate :: "'v storage \<Rightarrow> 'v storage" where
  "storage_invalidate s =
     (let s = fold (\<lambda>c. set_cell c reset_value) (available_cells s) s;
          s = s\<lparr>wasted_cells := wasted_cells s @ available_cells s, available_cells := []\<rparr> in
      fold (\<lambda>c. set_cell c (\<lambda>i. i\<lparr>waste_on_recycle := True\<rparr>)) (used_cells s) s)"


section \<open>The cells of a storage\<close>

text \<open>
  Every cell is in exactly one list; wasted cells hold nothing; what is available has not been marked
  for wasting and will be dropped before its life ends.
\<close>

definition all_cells :: "'v storage \<Rightarrow> cell list" where
  "all_cells s = available_cells s @ used_cells s @ wasted_cells s"

definition storage_inv :: "nat \<Rightarrow> 'v storage \<Rightarrow> bool" where
  "storage_inv n s \<longleftrightarrow>
     mset (all_cells s) = mset [0..<n]
     \<and> (\<forall>c \<in> set (wasted_cells s). id_value (cells s c) = None)
     \<and> (\<forall>c \<in> set (available_cells s). \<not> waste_on_recycle (cells s c)
          \<and> drop_time (cells s c) \<le> time_add (reset_time (cells s c)) (lifespan s))"

lemma storage_inv_distinct: "storage_inv n s \<Longrightarrow> distinct (all_cells s)"
  by (metis distinct_upt mset_eq_imp_distinct_iff storage_inv_def)

lemma storage_inv_length:
  "storage_inv n s \<Longrightarrow> length (available_cells s) + length (used_cells s) + length (wasted_cells s) = n"
  using mset_eq_length [of "all_cells s" "[0..<n]"] by (simp add: storage_inv_def all_cells_def)

lemma storage_inv_used: "storage_inv n s \<Longrightarrow> c \<in> set (used_cells s) \<Longrightarrow> c < n"
  using mset_eq_setD [of "all_cells s" "[0..<n]"] by (auto simp: storage_inv_def all_cells_def)

lemma set_cell_simps [simp]:
  "available_cells (set_cell c f s) = available_cells s"
  "used_cells (set_cell c f s) = used_cells s"
  "wasted_cells (set_cell c f s) = wasted_cells s"
  "lifespan (set_cell c f s) = lifespan s"
  "idle_timeout (set_cell c f s) = idle_timeout s"
  "cells (set_cell c f s) = (cells s)(c := f (cells s c))"
  by (simp_all add: set_cell_def)

lemma storage_inv_new: "storage_inv n (new_storage n timeout life)"
  by (simp add: storage_inv_def new_storage_def all_cells_def new_idle_def)

lemma storage_inv_of: "storage_inv (length vs) (storage_of now vs timeout life)"
  by (simp add: storage_inv_def storage_of_def all_cells_def idle_of_def Let_def)

lemma storage_inv_lease:
  "storage_inv n s \<Longrightarrow> storage_inv n (snd (lease now s))"
proof (induction now s rule: lease.induct)
  case (1 now s)
  note distinct = storage_inv_distinct [OF "1.prems"]
  show ?case
  proof (cases "available_cells s")
    case Nil
    then show ?thesis using "1.prems" distinct
      by (subst lease.simps)
        (cases "wasted_cells s"; auto simp: storage_inv_def all_cells_def)
  next
    case (Cons c rest)
    let ?w = "(set_cell c reset_value s)\<lparr>available_cells := rest, wasted_cells := wasted_cells s @ [c]\<rparr>"
    have "storage_inv n ?w" if "\<not> now < drop_time (cells s c)"
      using "1.prems" distinct Cons by (auto simp: storage_inv_def all_cells_def)
    then show ?thesis using "1.IH" [OF Cons] Cons "1.prems"
      by (subst lease.simps) (auto simp: storage_inv_def all_cells_def)
  qed
qed

lemma storage_inv_waste:
  assumes "storage_inv n s" and "storage_waste c s = Inr s'"
  shows "storage_inv n s'"
  using assms storage_inv_distinct [OF assms(1)]
  by (auto simp: storage_inv_def storage_waste_def all_cells_def split: if_splits)

lemma storage_inv_recycle:
  assumes "storage_inv n s" and "storage_recycle now c s = Inr s'"
  shows "storage_inv n s'"
proof -
  note distinct = storage_inv_distinct [OF assms(1)]
  show ?thesis
  proof (cases "storage_recycle now c s = storage_waste c s")
    case True
    then show ?thesis using storage_inv_waste assms by metis
  next
    case False
    then show ?thesis using assms distinct storage_inv_used [OF assms(1)]
      by (auto simp: storage_inv_def storage_recycle_def all_cells_def Let_def split: if_splits)
  qed
qed

text \<open>Invalidation as one update of every cell.\<close>

lemma fold_set_cell:
  "distinct cs \<Longrightarrow> fold (\<lambda>c. set_cell c f) cs s =
     s\<lparr>cells := (\<lambda>c. if c \<in> set cs then f (cells s c) else cells s c)\<rparr>"
proof (induction cs arbitrary: s)
  case Nil
  then show ?case by simp
next
  case (Cons a cs)
  then show ?case by (auto simp: set_cell_def intro!: storage.equality)
qed

lemma storage_invalidate_eq:
  assumes "distinct (all_cells s)"
  shows "storage_invalidate s = s\<lparr>available_cells := [], wasted_cells := wasted_cells s @ available_cells s,
    cells := (\<lambda>c. if c \<in> set (available_cells s) then reset_value (cells s c)
                  else if c \<in> set (used_cells s) then (cells s c)\<lparr>waste_on_recycle := True\<rparr>
                  else cells s c)\<rparr>"
  using assms
  by (cases s) (auto simp: storage_invalidate_def fold_set_cell all_cells_def Let_def fun_eq_iff)

lemma storage_inv_invalidate: "storage_inv n s \<Longrightarrow> storage_inv n (storage_invalidate s)"
  by (frule storage_inv_distinct)
    (auto simp: storage_invalidate_eq storage_inv_def all_cells_def ac_simps)


section \<open>What the operations do\<close>

text \<open>A lease fails exactly when every cell is in use.\<close>

lemma lease_none_iff:
  "fst (lease now s) = None \<longleftrightarrow> available_cells s = [] \<and> wasted_cells s = []"
proof (induction now s rule: lease.induct)
  case (1 now s)
  then show ?case
    by (subst lease.simps) (auto split: list.splits)
qed

lemma lease_none_eq: "fst (lease now s) = None \<Longrightarrow> snd (lease now s) = s"
  by (subst lease.simps) (auto simp: lease_none_iff)

lemma lease_fails_iff_all_used:
  "storage_inv n s \<Longrightarrow> fst (lease now s) = None \<longleftrightarrow> length (used_cells s) = n"
  using storage_inv_length [of n s] by (auto simp: lease_none_iff)

text \<open>
  A leased cell goes to the end of the used ones. When it holds a value, the value was there before, has
  not been marked for wasting, and neither its idle time nor its life has ended.
\<close>

lemma lease_some_used:
  "fst (lease now s) = Some c \<Longrightarrow> used_cells (snd (lease now s)) = used_cells s @ [c]"
proof (induction now s rule: lease.induct)
  case (1 now s)
  then show ?case
    by (auto simp: lease.simps [of now s] split: list.splits if_splits)
qed

lemma lease_some_value:
  assumes "storage_inv n s" and "fst (lease now s) = Some c"
    and "id_value (cells (snd (lease now s)) c) = Some v"
  shows "cells (snd (lease now s)) c = cells s c \<and> c \<in> set (available_cells s)
    \<and> now < drop_time (cells s c) \<and> now < time_add (reset_time (cells s c)) (lifespan s)"
  using assms
proof (induction now s rule: lease.induct)
  case (1 now s)
  note distinct = storage_inv_distinct [OF "1.prems"(1)]
  show ?case
  proof (cases "available_cells s")
    case Nil
    then show ?thesis using "1.prems"
      by (auto simp: lease.simps [of now s] storage_inv_def split: list.splits)
  next
    case (Cons a rest)
    show ?thesis
    proof (cases "now < drop_time (cells s a)")
      case True
      then show ?thesis using "1.prems" Cons
        by (auto simp: lease.simps [of now s] storage_inv_def)
    next
      case False
      let ?w = "(set_cell a reset_value s)\<lparr>available_cells := rest, wasted_cells := wasted_cells s @ [a]\<rparr>"
      have eq: "lease now s = lease now ?w" using Cons False by (simp add: lease.simps [of now s])
      have "storage_inv n ?w"
        using "1.prems"(1) distinct Cons by (auto simp: storage_inv_def all_cells_def)
      then have "cells (snd (lease now ?w)) c = cells ?w c \<and> c \<in> set rest
          \<and> now < drop_time (cells ?w c) \<and> now < time_add (reset_time (cells ?w c)) (lifespan s)"
        using "1.IH" [OF Cons False] "1.prems"(2,3) eq by simp
      moreover have "c \<noteq> a" if "c \<in> set rest" using that distinct Cons by (auto simp: all_cells_def)
      ultimately show ?thesis using eq Cons by auto
    qed
  qed
qed

text \<open>Used cells are always accepted back; any other iterator is a fault.\<close>

lemma storage_waste_used: "c \<in> set (used_cells s) \<Longrightarrow> \<exists>s'. storage_waste c s = Inr s'"
  by (simp add: storage_waste_def)

lemma storage_recycle_used: "c \<in> set (used_cells s) \<Longrightarrow> \<exists>s'. storage_recycle now c s = Inr s'"
  by (simp add: storage_recycle_def storage_waste_def Let_def)

lemma storage_returns_used:
  assumes "storage_waste c s = Inr s' \<or> storage_recycle now c s = Inr s'"
  shows "c \<in> set (used_cells s) \<and> used_cells s' = remove1 c (used_cells s)"
  using assms
  by (auto simp: storage_waste_def storage_recycle_def Let_def split: if_splits)

text \<open>The value of a cell that was in use when the storage was invalidated is never kept.\<close>

lemma recycle_after_invalidate:
  assumes inv: "storage_inv n s" and c: "c \<in> set (used_cells s)"
  shows "\<exists>s'. storage_recycle now c (storage_invalidate s) = Inr s'
    \<and> c \<in> set (wasted_cells s') \<and> id_value (cells s' c) = None"
proof -
  have "distinct (all_cells s)" using storage_inv_distinct [OF inv] .
  then have "c \<notin> set (available_cells s)" using c by (auto simp: all_cells_def)
  then show ?thesis using c
    by (simp add: storage_invalidate_eq [OF \<open>distinct (all_cells s)\<close>] storage_recycle_def storage_waste_def)
qed

lemma lease_after_invalidate:
  assumes "storage_inv n s" and "fst (lease now (storage_invalidate s)) = Some c"
  shows "id_value (cells (snd (lease now (storage_invalidate s))) c) = None"
proof -
  have "available_cells (storage_invalidate s) = []"
    using storage_invalidate_eq [OF storage_inv_distinct [OF assms(1)]] by simp
  then show ?thesis
    using lease_some_value [OF storage_inv_invalidate [OF assms(1)] assms(2)] by fastforce
qed

end
