(* ===== verification/Pool_Queue.thy ===== *)
theory Pool_Queue
  imports Pool_Storage Io_Context_Pool
begin

text \<open>
  \<^verbatim>\<open>yamail/resource_pool/async/detail/queue.hpp\<close>: the requests that wait for a resource, in the order
  they came and, in a multimap, by the time they expire. List nodes are numbers with a store of their
  contents; nodes of answered requests are kept for later ones. A multimap is the list of its
  entries in key order, equal keys in the order of insertion; an iterator into it is the entry, which
  the node of the entry identifies. Of a timer the model keeps the expiry it is armed for: setting a new
  expiry aborts the wait before it.

  The operations refine a plain first-in first-out list of requests with their expiry times.
\<close>

section \<open>Multimaps\<close>

fun mm_insert :: "int \<Rightarrow> 'b \<Rightarrow> (int \<times> 'b) list \<Rightarrow> (int \<times> 'b) list" where
  "mm_insert k v [] = [(k, v)]"
| "mm_insert k v (e # es) = (if k < fst e then (k, v) # e # es else e # mm_insert k v es)"

definition mm_upto :: "int \<Rightarrow> (int \<times> 'b) list \<Rightarrow> (int \<times> 'b) list" where
  "mm_upto k es = takeWhile (\<lambda>e. fst e \<le> k) es"

definition mm_after :: "int \<Rightarrow> (int \<times> 'b) list \<Rightarrow> (int \<times> 'b) list" where
  "mm_after k es = dropWhile (\<lambda>e. fst e \<le> k) es"

lemma mm_insert_insort:
  "mm_insert k v (insort_key fst e es) = insort_key fst e (mm_insert k v es)"
  if "sorted (map fst es)"
  using that by (induction es) auto

lemma mm_insert_sort: "mm_insert k v (sort_key fst es) = sort_key fst (es @ [(k, v)])"
proof (induction es)
  case (Cons e es)
  then show ?case by (simp add: mm_insert_insort)
qed simp

lemma mm_upto_sorted: "sorted (map fst es) \<Longrightarrow> mm_upto k es = filter (\<lambda>e. fst e \<le> k) es"
  by (induction es) (auto simp: mm_upto_def intro!: filter_False [symmetric])

lemma mm_after_sorted: "sorted (map fst es) \<Longrightarrow> mm_after k es = filter (\<lambda>e. \<not> fst e \<le> k) es"
proof (induction es)
  case (Cons e es)
  then show ?case by (auto simp: mm_after_def intro!: filter_True [symmetric])
qed (simp add: mm_after_def)

section \<open>The queue\<close>

type_synonym node = nat

record 'r expiring_request =
  er_io_context :: io_context
  er_request :: "'r option"
  er_order_it :: node
  er_expires_at_it :: "int \<times> node"

record 'r rqueue =
  rq_capacity :: nat
  rq_nodes :: "node \<Rightarrow> 'r expiring_request"
  rq_allocated :: nat
  ordered_requests_pool :: "node list"
  ordered_requests :: "node list"
  expires_at_requests :: "(int \<times> node) list"
  rq_timers :: "io_context \<rightharpoonup> int option"

definition new_expiring_request :: "'r expiring_request" where
  "new_expiring_request =
     \<lparr>er_io_context = 0, er_request = None, er_order_it = 0, er_expires_at_it = (0, 0)\<rparr>"

definition new_rqueue :: "nat \<Rightarrow> 'r rqueue" where
  "new_rqueue capacity =
     \<lparr>rq_capacity = capacity, rq_nodes = (\<lambda>_. new_expiring_request), rq_allocated = 0,
      ordered_requests_pool = [], ordered_requests = [], expires_at_requests = [],
      rq_timers = Map.empty\<rparr>"

definition rq_size :: "'r rqueue \<Rightarrow> nat" where
  "rq_size q = length (expires_at_requests q)"

definition rq_empty :: "'r rqueue \<Rightarrow> bool" where
  "rq_empty q = (ordered_requests q = [])"

definition fit_capacity :: "'r rqueue \<Rightarrow> bool" where
  "fit_capacity q = (length (expires_at_requests q) < rq_capacity q)"

text \<open>\<^verbatim>\<open>get_timer\<close> finds the timer of an I/O context, or makes one that is not armed.\<close>

definition get_timer :: "io_context \<Rightarrow> 'r rqueue \<Rightarrow> int option \<times> 'r rqueue" where
  "get_timer io q =
     (case rq_timers q io of
        Some t \<Rightarrow> (t, q)
      | None \<Rightarrow> (None, q\<lparr>rq_timers := (rq_timers q)(io \<mapsto> None)\<rparr>))"

definition update_timer :: "'r rqueue \<Rightarrow> 'r rqueue" where
  "update_timer q =
     (case expires_at_requests q of
        [] \<Rightarrow> q\<lparr>rq_timers := Map.empty\<rparr>
      | (expires_at, n) # _ \<Rightarrow>
          let io = er_io_context (rq_nodes q n);
              (t, q) = get_timer io q in
          q\<lparr>rq_timers := (rq_timers q)(io \<mapsto> Some expires_at)\<rparr>)"

definition rq_push :: "int \<Rightarrow> io_context \<Rightarrow> int \<Rightarrow> 'r \<Rightarrow> 'r rqueue \<Rightarrow> bool \<times> 'r rqueue" where
  "rq_push now io wait_duration r q =
     (if \<not> fit_capacity q then (False, q)
      else
        let q = (if ordered_requests_pool q = []
                 then q\<lparr>ordered_requests_pool := [rq_allocated q],
                        rq_allocated := rq_allocated q + 1,
                        rq_nodes := (rq_nodes q)(rq_allocated q := new_expiring_request)\<rparr>
                 else q);
            order_it = hd (ordered_requests_pool q);
            q = q\<lparr>ordered_requests_pool := tl (ordered_requests_pool q),
                  ordered_requests := ordered_requests q @ [order_it]\<rparr>;
            expires_at = time_add now wait_duration;
            q = q\<lparr>rq_nodes := (rq_nodes q)(order_it :=
                   \<lparr>er_io_context = io, er_request = Some r, er_order_it = order_it,
                    er_expires_at_it = (expires_at, order_it)\<rparr>),
                  expires_at_requests := mm_insert expires_at order_it (expires_at_requests q)\<rparr> in
        (True, update_timer q))"

definition rq_pop :: "'r rqueue \<Rightarrow> ('r option \<times> io_context) option \<times> 'r rqueue" where
  "rq_pop q =
     (case ordered_requests q of
        [] \<Rightarrow> (None, q)
      | ordered_it # rest \<Rightarrow>
          let req = rq_nodes q ordered_it;
              result = (er_request req, er_io_context req);
              q = q\<lparr>rq_nodes := (rq_nodes q)(ordered_it := req\<lparr>er_request := None\<rparr>),
                    expires_at_requests := remove1 (er_expires_at_it req) (expires_at_requests q),
                    ordered_requests_pool := ordered_it # ordered_requests_pool q,
                    ordered_requests := rest\<rparr> in
          (Some result, update_timer q))"

text \<open>The body of the loop of \<^verbatim>\<open>cancel\<close>: post the handler of one expired request, free its node.\<close>

definition rq_expire ::
    "int \<times> node \<Rightarrow> ('r option \<times> io_context) list \<times> 'r rqueue \<Rightarrow> ('r option \<times> io_context) list \<times> 'r rqueue" where
  "rq_expire e pq =
     (let (posts, q) = pq;
          n = snd e;
          req = rq_nodes q n in
      (posts @ [(er_request req, er_io_context req)],
       q\<lparr>rq_nodes := (rq_nodes q)(n := req\<lparr>er_request := None\<rparr>),
         ordered_requests_pool := er_order_it req # ordered_requests_pool q,
         ordered_requests := remove1 (er_order_it req) (ordered_requests q)\<rparr>))"

definition rq_cancel ::
    "bool \<Rightarrow> int \<Rightarrow> 'r rqueue \<Rightarrow> ('r option \<times> io_context) list \<times> 'r rqueue" where
  "rq_cancel ec expires_at q =
     (if ec then ([], q)
      else
        let (posts, q) = fold rq_expire (mm_upto expires_at (expires_at_requests q)) ([], q);
            q = q\<lparr>expires_at_requests := mm_after expires_at (expires_at_requests q)\<rparr> in
        (posts, update_timer q))"

section \<open>The invariant\<close>

text \<open>
  A request is in both orders: the multimap is the sequence of requests sorted by expiry. Nodes point to
  themselves and their entries, and a waiting request has a handler. The timer of the earliest request's
  context is armed for its expiry.
\<close>

abbreviation rq_entry :: "'r rqueue \<Rightarrow> node \<Rightarrow> int \<times> node" where
  "rq_entry q n \<equiv> er_expires_at_it (rq_nodes q n)"

definition rq_wf :: "'r rqueue \<Rightarrow> bool" where
  "rq_wf q \<longleftrightarrow>
     distinct (ordered_requests q @ ordered_requests_pool q)
     \<and> (\<forall>n \<in> set (ordered_requests q @ ordered_requests_pool q). n < rq_allocated q)
     \<and> (\<forall>n \<in> set (ordered_requests q). er_order_it (rq_nodes q n) = n \<and> snd (rq_entry q n) = n
          \<and> er_request (rq_nodes q n) \<noteq> None)
     \<and> expires_at_requests q = sort_key fst (map (rq_entry q) (ordered_requests q))
     \<and> length (ordered_requests q) \<le> rq_capacity q"

definition rq_armed :: "'r rqueue \<Rightarrow> bool" where
  "rq_armed q \<longleftrightarrow>
     (case expires_at_requests q of
        [] \<Rightarrow> True
      | (t, n) # _ \<Rightarrow> rq_timers q (er_io_context (rq_nodes q n)) = Some (Some t))"

lemma update_timer_simps [simp]:
  "rq_capacity (update_timer q) = rq_capacity q"
  "rq_nodes (update_timer q) = rq_nodes q"
  "rq_allocated (update_timer q) = rq_allocated q"
  "ordered_requests_pool (update_timer q) = ordered_requests_pool q"
  "ordered_requests (update_timer q) = ordered_requests q"
  "expires_at_requests (update_timer q) = expires_at_requests q"
  by (auto simp: update_timer_def get_timer_def Let_def split: list.splits option.splits)

lemma rq_wf_update_timer [simp]: "rq_wf (update_timer q) = rq_wf q"
  by (simp add: rq_wf_def)

lemma rq_armed_update_timer [simp]: "rq_armed (update_timer q)"
proof (cases "expires_at_requests q")
  case (Cons e es)
  then have "expires_at_requests (update_timer q) = e # es" by simp
  with Cons show ?thesis
    by (auto simp: rq_armed_def update_timer_def get_timer_def Let_def split: option.splits prod.splits)
qed (simp add: rq_armed_def)

lemma rq_wf_new [simp]: "rq_wf (new_rqueue n)" and rq_armed_new [simp]: "rq_armed (new_rqueue n)"
  by (simp_all add: rq_wf_def rq_armed_def new_rqueue_def)

lemma rq_size_wf: "rq_wf q \<Longrightarrow> rq_size q = length (ordered_requests q)"
  by (simp add: rq_wf_def rq_size_def)

lemma rq_empty_wf: "rq_wf q \<Longrightarrow> rq_empty q \<longleftrightarrow> rq_size q = 0"
  by (simp add: rq_size_wf rq_empty_def)

lemma rq_get_timer: "rq_wf q \<Longrightarrow> rq_wf (snd (get_timer io q)) \<and> (rq_armed q \<longrightarrow> rq_armed (snd (get_timer io q)))"
  by (auto simp: get_timer_def rq_wf_def rq_armed_def split: option.splits list.splits)


section \<open>Refinement of a first-in first-out list\<close>

type_synonym 'r waiter = "int \<times> 'r option \<times> io_context"

definition rq_waiter :: "'r rqueue \<Rightarrow> node \<Rightarrow> 'r waiter" where
  "rq_waiter q n = (fst (rq_entry q n), er_request (rq_nodes q n), er_io_context (rq_nodes q n))"

definition rq_content :: "'r rqueue \<Rightarrow> 'r waiter list" where
  "rq_content q = map (rq_waiter q) (ordered_requests q)"

lemma rq_content_simps [simp]:
  "rq_content (new_rqueue n) = []"
  "rq_content (update_timer q) = rq_content q"
  "length (rq_content q) = length (ordered_requests q)"
  by (simp_all add: rq_content_def new_rqueue_def rq_waiter_def cong: map_cong)

lemma fit_capacity_content: "rq_wf q \<Longrightarrow> fit_capacity q \<longleftrightarrow> length (rq_content q) < rq_capacity q"
  by (simp add: fit_capacity_def rq_wf_def)

lemma rq_push_full: "\<not> fit_capacity q \<Longrightarrow> rq_push now io w r q = (False, q)"
  by (simp add: rq_push_def)

text \<open>The state after a node has been taken for a new request, before the timer is set.\<close>

definition rq_enter :: "node \<Rightarrow> node list \<Rightarrow> nat \<Rightarrow> int \<Rightarrow> io_context \<Rightarrow> 'r \<Rightarrow> 'r rqueue \<Rightarrow> 'r rqueue" where
  "rq_enter n pool alloc t io r q =
     q\<lparr>ordered_requests_pool := pool, rq_allocated := alloc,
       ordered_requests := ordered_requests q @ [n],
       rq_nodes := (rq_nodes q)(n := \<lparr>er_io_context = io, er_request = Some r, er_order_it = n,
                                      er_expires_at_it = (t, n)\<rparr>),
       expires_at_requests := mm_insert t n (expires_at_requests q)\<rparr>"

lemma rq_enter_wf:
  assumes "rq_wf q" and "fit_capacity q" and "n \<notin> set (ordered_requests q)"
    and "distinct (n # pool)" and "set pool \<subseteq> set (ordered_requests_pool q)"
    and "rq_allocated q \<le> alloc" and "n < alloc"
  shows "rq_wf (rq_enter n pool alloc t io r q)"
    and "rq_content (rq_enter n pool alloc t io r q) = rq_content q @ [(t, Some r, io)]"
proof -
  let ?q = "rq_enter n pool alloc t io r q"
  have same: "map (rq_entry ?q) (ordered_requests q) = map (rq_entry q) (ordered_requests q)"
    using assms(3) by (auto simp: rq_enter_def)
  have entries: "map (rq_entry ?q) (ordered_requests ?q) = map (rq_entry q) (ordered_requests q) @ [(t, n)]"
    unfolding same [symmetric] by (simp add: rq_enter_def)
  have ex: "expires_at_requests q = sort_key fst (map (rq_entry q) (ordered_requests q))"
    using assms(1) by (simp add: rq_wf_def)
  have "expires_at_requests ?q = sort_key fst (map (rq_entry ?q) (ordered_requests ?q))"
    unfolding entries by (simp add: rq_enter_def ex mm_insert_sort)
  moreover have "distinct (ordered_requests ?q @ ordered_requests_pool ?q)"
    using assms by (auto simp: rq_enter_def rq_wf_def)
  moreover have "m < rq_allocated ?q"
    if "m \<in> set (ordered_requests ?q @ ordered_requests_pool ?q)" for m
  proof -
    have "\<forall>m \<in> set (ordered_requests q) \<union> set (ordered_requests_pool q). m < rq_allocated q"
      using assms(1) by (simp add: rq_wf_def)
    moreover have "m = n \<or> m \<in> set (ordered_requests q) \<union> set (ordered_requests_pool q)"
      using that assms(5) by (auto simp: rq_enter_def)
    ultimately show ?thesis using assms(6,7) by (auto simp: rq_enter_def intro: order_less_le_trans)
  qed
  moreover have "\<forall>m \<in> set (ordered_requests ?q). er_order_it (rq_nodes ?q m) = m
      \<and> snd (rq_entry ?q m) = m \<and> er_request (rq_nodes ?q m) \<noteq> None"
    using assms(1,3) by (auto simp: rq_enter_def rq_wf_def)
  moreover have "length (ordered_requests ?q) \<le> rq_capacity ?q"
    using assms(1,2) by (simp add: rq_enter_def fit_capacity_content)
  ultimately show "rq_wf ?q" unfolding rq_wf_def by blast
  show "rq_content ?q = rq_content q @ [(t, Some r, io)]"
    using assms(3) by (auto simp: rq_content_def rq_waiter_def rq_enter_def)
qed

lemma rq_push_eq:
  assumes "rq_wf q" and "fit_capacity q"
  shows "\<exists>n pool alloc. rq_push now io w r q =
      (True, update_timer (rq_enter n pool alloc (time_add now w) io r q))
    \<and> n \<notin> set (ordered_requests q) \<and> distinct (n # pool)
    \<and> set pool \<subseteq> set (ordered_requests_pool q) \<and> rq_allocated q \<le> alloc \<and> n < alloc"
proof (cases "ordered_requests_pool q")
  case Nil
  let ?n = "rq_allocated q"
  have "rq_push now io w r q = (True, update_timer (rq_enter ?n [] (?n + 1) (time_add now w) io r q))"
    using assms(2) Nil by (cases q) (simp add: rq_push_def rq_enter_def Let_def)
  moreover have "?n \<notin> set (ordered_requests q)" using assms(1) by (auto simp: rq_wf_def)
  ultimately show ?thesis by (intro exI conjI) auto
next
  case (Cons n pool)
  have "rq_push now io w r q =
      (True, update_timer (rq_enter n pool (rq_allocated q) (time_add now w) io r q))"
    using assms(2) Cons by (cases q) (simp add: rq_push_def rq_enter_def Let_def)
  moreover have "n \<notin> set (ordered_requests q)" "distinct (n # pool)" "n < rq_allocated q"
    using assms(1) Cons by (auto simp: rq_wf_def)
  ultimately show ?thesis using Cons by (intro exI conjI) auto
qed

lemma rq_push_fits:
  assumes "rq_wf q" and "fit_capacity q"
  shows "fst (rq_push now io w r q)
    \<and> rq_content (snd (rq_push now io w r q)) = rq_content q @ [(time_add now w, Some r, io)]
    \<and> rq_wf (snd (rq_push now io w r q))"
  using rq_push_eq [OF assms, of now io w r] rq_enter_wf [OF assms] by fastforce

lemma rq_push_refines:
  assumes "rq_wf q"
  shows "fst (rq_push now io w r q) \<longleftrightarrow> length (rq_content q) < rq_capacity q"
    and "rq_content (snd (rq_push now io w r q)) =
      (if length (rq_content q) < rq_capacity q then rq_content q @ [(time_add now w, Some r, io)]
       else rq_content q)"
    and "rq_wf (snd (rq_push now io w r q))"
    and "rq_armed q \<Longrightarrow> rq_armed (snd (rq_push now io w r q))"
    and "rq_capacity (snd (rq_push now io w r q)) = rq_capacity q"
  using rq_push_fits [OF assms, of now io w r] fit_capacity_content [OF assms] assms
  by (cases "fit_capacity q"; simp add: rq_push_full; simp add: rq_push_def Let_def)+

text \<open>Taking the first request.\<close>

lemma rq_pop_none: "ordered_requests q = [] \<Longrightarrow> rq_pop q = (None, q)"
  by (simp add: rq_pop_def)

lemma rq_pop_some:
  assumes "rq_wf q" and "ordered_requests q = n # ns"
  shows "fst (rq_pop q) = Some (snd (rq_waiter q n))"
    and "rq_content (snd (rq_pop q)) = map (rq_waiter q) ns"
    and "rq_wf (snd (rq_pop q))"
proof -
  have n: "n \<notin> set ns" using assms by (simp add: rq_wf_def)
  have ex: "expires_at_requests q = insort_key fst (rq_entry q n) (sort_key fst (map (rq_entry q) ns))"
    using assms by (simp add: rq_wf_def)
  have entries: "map (rq_entry (snd (rq_pop q))) ns = map (rq_entry q) ns"
    using n assms(2) by (auto simp: rq_pop_def Let_def)
  show "fst (rq_pop q) = Some (snd (rq_waiter q n))"
    using assms by (simp add: rq_pop_def rq_waiter_def Let_def)
  show "rq_content (snd (rq_pop q)) = map (rq_waiter q) ns"
    using n assms(2) by (auto simp: rq_content_def rq_waiter_def rq_pop_def Let_def)
  have "expires_at_requests (snd (rq_pop q)) = sort_key fst (map (rq_entry q) ns)"
    using assms(2) ex by (simp add: rq_pop_def Let_def)
  then show "rq_wf (snd (rq_pop q))"
    unfolding entries [symmetric] using assms n by (auto simp: rq_wf_def rq_pop_def Let_def)
qed

lemma rq_pop_refines:
  assumes "rq_wf q"
  shows "fst (rq_pop q) = (case rq_content q of [] \<Rightarrow> None | w # ws \<Rightarrow> Some (snd w))"
    and "rq_content (snd (rq_pop q)) = tl (rq_content q)"
    and "rq_wf (snd (rq_pop q))"
    and "rq_armed q \<Longrightarrow> rq_armed (snd (rq_pop q))"
    and "rq_capacity (snd (rq_pop q)) = rq_capacity q"
proof -
  consider "ordered_requests q = []" | n ns where "ordered_requests q = n # ns"
    by (cases "ordered_requests q") auto
  note cases = this
  show "fst (rq_pop q) = (case rq_content q of [] \<Rightarrow> None | w # ws \<Rightarrow> Some (snd w))"
    by (rule cases) (auto simp: rq_pop_none rq_pop_some [OF assms] rq_content_def)
  show "rq_content (snd (rq_pop q)) = tl (rq_content q)"
  proof (rule cases)
    fix n ns
    assume "ordered_requests q = n # ns"
    then show ?thesis using rq_pop_some(2) [OF assms] by (simp add: rq_content_def [of q])
  qed (simp add: rq_pop_none rq_content_def)
  show "rq_wf (snd (rq_pop q))"
    by (rule cases) (auto simp: rq_pop_none rq_pop_some [OF assms] assms)
  show "rq_armed q \<Longrightarrow> rq_armed (snd (rq_pop q))"
    by (simp add: rq_pop_def Let_def split: list.splits)
  show "rq_capacity (snd (rq_pop q)) = rq_capacity q"
    by (simp add: rq_pop_def Let_def split: list.splits)
qed


text \<open>Expiring requests: the loop of \<^verbatim>\<open>cancel\<close> as one update.\<close>

lemma rq_expire_eq:
  assumes "er_order_it (rq_nodes q (snd e)) = snd e" and "distinct (ordered_requests q)"
  shows "rq_expire e (ps, q) = (ps @ [snd (rq_waiter q (snd e))],
    q\<lparr>rq_nodes := (rq_nodes q)(snd e := (rq_nodes q (snd e))\<lparr>er_request := None\<rparr>),
      ordered_requests_pool := snd e # ordered_requests_pool q,
      ordered_requests := filter (\<lambda>n. n \<noteq> snd e) (ordered_requests q)\<rparr>)"
proof -
  have "remove1 (snd e) (ordered_requests q) = filter (\<lambda>n. n \<noteq> snd e) (ordered_requests q)"
    using assms(2) by (simp add: distinct_remove1_removeAll removeAll_filter_not_eq eq_commute)
  then show ?thesis using assms(1) by (simp add: rq_expire_def rq_waiter_def Let_def)
qed

lemma fold_rq_expire:
  assumes "distinct (map snd es)" and "\<forall>e \<in> set es. er_order_it (rq_nodes q (snd e)) = snd e"
    and "distinct (ordered_requests q)"
  shows "fold rq_expire es (ps, q) =
    (ps @ map (\<lambda>e. snd (rq_waiter q (snd e))) es,
     q\<lparr>rq_nodes := (\<lambda>n. if n \<in> snd ` set es then (rq_nodes q n)\<lparr>er_request := None\<rparr> else rq_nodes q n),
       ordered_requests_pool := rev (map snd es) @ ordered_requests_pool q,
       ordered_requests := filter (\<lambda>n. n \<notin> snd ` set es) (ordered_requests q)\<rparr>)"
  using assms
proof (induction es arbitrary: ps q)
  case Nil
  then show ?case by simp
next
  case (Cons e es)
  let ?q = "q\<lparr>rq_nodes := (rq_nodes q)(snd e := (rq_nodes q (snd e))\<lparr>er_request := None\<rparr>),
      ordered_requests_pool := snd e # ordered_requests_pool q,
      ordered_requests := filter (\<lambda>n. n \<noteq> snd e) (ordered_requests q)\<rparr>"
  let ?ps = "ps @ [snd (rq_waiter q (snd e))]"
  have step: "rq_expire e (ps, q) = (?ps, ?q)"
    using Cons.prems by (intro rq_expire_eq) auto
  have other: "snd f \<noteq> snd e" if "f \<in> set es" for f
    using that Cons.prems(1) by (auto simp: image_iff)
  then have "fold rq_expire es (?ps, ?q) = (?ps @ map (\<lambda>f. snd (rq_waiter ?q (snd f))) es,
     ?q\<lparr>rq_nodes := (\<lambda>n. if n \<in> snd ` set es then (rq_nodes ?q n)\<lparr>er_request := None\<rparr> else rq_nodes ?q n),
       ordered_requests_pool := rev (map snd es) @ ordered_requests_pool ?q,
       ordered_requests := filter (\<lambda>n. n \<notin> snd ` set es) (ordered_requests ?q)\<rparr>)"
    using Cons.prems by (intro Cons.IH) auto
  moreover have "map (\<lambda>f. snd (rq_waiter ?q (snd f))) es = map (\<lambda>f. snd (rq_waiter q (snd f))) es"
    using other by (simp add: rq_waiter_def)
  moreover have "(\<lambda>n. if n \<in> snd ` set es then (rq_nodes ?q n)\<lparr>er_request := None\<rparr> else rq_nodes ?q n) =
      (\<lambda>n. if n \<in> snd ` set (e # es) then (rq_nodes q n)\<lparr>er_request := None\<rparr> else rq_nodes q n)"
    by (auto simp: fun_eq_iff)
  moreover have "filter (\<lambda>n. n \<notin> snd ` set es) (ordered_requests ?q) =
      filter (\<lambda>n. n \<notin> snd ` set (e # es)) (ordered_requests q)"
    by (simp add: conj_commute)
  ultimately show ?case by (simp only: fold_simps step) simp
qed

lemma rq_cancel_eq:
  fixes t :: int
  assumes "rq_wf q"
  defines "es \<equiv> filter (\<lambda>e. fst e \<le> t) (expires_at_requests q)"
  shows "rq_cancel False t q =
    (map (\<lambda>e. snd (rq_waiter q (snd e))) es,
     update_timer (q\<lparr>rq_nodes := (\<lambda>n. if n \<in> snd ` set es then (rq_nodes q n)\<lparr>er_request := None\<rparr> else rq_nodes q n),
       ordered_requests_pool := rev (map snd es) @ ordered_requests_pool q,
       ordered_requests := filter (\<lambda>n. n \<notin> snd ` set es) (ordered_requests q),
       expires_at_requests := filter (\<lambda>e. \<not> fst e \<le> t) (expires_at_requests q)\<rparr>))"
proof -
  have ex: "expires_at_requests q = sort_key fst (map (rq_entry q) (ordered_requests q))"
    and nodes: "\<forall>n \<in> set (ordered_requests q). er_order_it (rq_nodes q n) = n \<and> snd (rq_entry q n) = n"
    and dist: "distinct (ordered_requests q)"
    using assms(1) by (auto simp: rq_wf_def)
  have sorted: "sorted (map fst (expires_at_requests q))" by (simp add: ex)
  have ids: "map (snd \<circ> rq_entry q) (ordered_requests q) = ordered_requests q"
    using nodes by (simp add: map_idI)
  have "distinct (map snd (expires_at_requests q))"
  proof -
    have "mset (map snd (expires_at_requests q)) = mset (ordered_requests q)"
      by (metis ex ids list.map_comp mset_map mset_sort)
    then show ?thesis using dist mset_eq_imp_distinct_iff by blast
  qed
  then have "distinct (map snd es)" by (simp add: es_def distinct_map_filter)
  moreover have "\<forall>e \<in> set es. er_order_it (rq_nodes q (snd e)) = snd e"
    using nodes by (auto simp: es_def ex) (metis snd_conv)
  ultimately show ?thesis
    using fold_rq_expire [of es q "[]"] dist sorted
    by (simp add: rq_cancel_def mm_upto_sorted mm_after_sorted es_def)
qed


lemma rq_cancel_ordered:
  assumes "rq_wf q"
  shows "ordered_requests (snd (rq_cancel False t q)) =
    filter (\<lambda>n. \<not> fst (rq_entry q n) \<le> t) (ordered_requests q)"
proof -
  have "n \<in> snd ` set (filter (\<lambda>e. fst e \<le> t) (expires_at_requests q)) \<longleftrightarrow> fst (rq_entry q n) \<le> t"
    if n: "n \<in> set (ordered_requests q)" for n
  proof
    assume "n \<in> snd ` set (filter (\<lambda>e. fst e \<le> t) (expires_at_requests q))"
    then obtain m where "m \<in> set (ordered_requests q)" "fst (rq_entry q m) \<le> t" "snd (rq_entry q m) = n"
      using assms by (auto simp: rq_wf_def)
    then show "fst (rq_entry q n) \<le> t" using assms by (auto simp: rq_wf_def)
  next
    assume "fst (rq_entry q n) \<le> t"
    then have "rq_entry q n \<in> set (filter (\<lambda>e. fst e \<le> t) (expires_at_requests q))" "snd (rq_entry q n) = n"
      using n assms by (auto simp: rq_wf_def)
    then show "n \<in> snd ` set (filter (\<lambda>e. fst e \<le> t) (expires_at_requests q))" by (metis imageI)
  qed
  then show ?thesis by (simp add: rq_cancel_eq [OF assms] cong: filter_cong)
qed

text \<open>The entries and the waiting requests are the same nodes, seen two ways.\<close>

lemma insort_key_map: "insort_key f (g x) (map g ys) = map g (insort_key (f \<circ> g) x ys)"
  by (induction ys) auto

lemma sort_key_map: "sort_key f (map g xs) = map g (sort_key (f \<circ> g) xs)"
  by (induction xs) (simp_all add: insort_key_map comp_def)

abbreviation rq_expiry :: "'r rqueue \<Rightarrow> node \<Rightarrow> int" where
  "rq_expiry q n \<equiv> fst (rq_entry q n)"

lemma rq_expired_entries:
  assumes "rq_wf q"
  shows "filter (\<lambda>e. fst e \<le> t) (expires_at_requests q) =
      map (rq_entry q) (sort_key (rq_expiry q) (filter (\<lambda>n. rq_expiry q n \<le> t) (ordered_requests q)))"
  using assms by (simp add: rq_wf_def filter_sort filter_map sort_key_map comp_def)

lemma rq_expired_nodes:
  assumes "rq_wf q"
  shows "map snd (filter (\<lambda>e. fst e \<le> t) (expires_at_requests q)) =
      sort_key (rq_expiry q) (filter (\<lambda>n. rq_expiry q n \<le> t) (ordered_requests q))"
proof -
  have "snd (rq_entry q n) = n" if "n \<in> set (ordered_requests q)" for n
    using that assms by (simp add: rq_wf_def)
  then show ?thesis unfolding rq_expired_entries [OF assms] by (auto intro!: map_idI)
qed

lemma rq_cancel_posts:
  assumes "rq_wf q"
  shows "fst (rq_cancel False t q) = map snd (sort_key fst (filter (\<lambda>w. fst w \<le> t) (rq_content q)))"
proof -
  have "fst (rq_cancel False t q) =
      map (\<lambda>n. snd (rq_waiter q n)) (map snd (filter (\<lambda>e. fst e \<le> t) (expires_at_requests q)))"
    by (simp add: rq_cancel_eq [OF assms])
  then show ?thesis unfolding rq_expired_nodes [OF assms]
    by (simp add: rq_content_def filter_map sort_key_map rq_waiter_def comp_def)
qed

lemma rq_cancel_wf:
  assumes wf: "rq_wf q"
  shows "rq_wf (snd (rq_cancel False t q))"
    and "rq_content (snd (rq_cancel False t q)) = filter (\<lambda>w. \<not> fst w \<le> t) (rq_content q)"
proof -
  let ?q = "snd (rq_cancel False t q)"
  note ordered = rq_cancel_ordered [OF wf]
  have nodes: "rq_nodes ?q n = rq_nodes q n" if "n \<in> set (ordered_requests ?q)" for n
    using that by (simp add: rq_cancel_eq [OF wf])
  show "rq_content ?q = filter (\<lambda>w. \<not> fst w \<le> t) (rq_content q)"
    using nodes by (simp add: rq_content_def rq_waiter_def ordered filter_map comp_def)
  have "map (rq_entry ?q) (ordered_requests ?q) =
      filter (\<lambda>e. \<not> fst e \<le> t) (map (rq_entry q) (ordered_requests q))"
    using nodes by (simp add: ordered filter_map comp_def)
  then have ex: "expires_at_requests ?q = sort_key fst (map (rq_entry ?q) (ordered_requests ?q))"
    using wf by (simp add: rq_cancel_eq [OF wf] rq_wf_def filter_sort)
  have "ordered_requests_pool ?q =
      rev (map snd (filter (\<lambda>e. fst e \<le> t) (expires_at_requests q))) @ ordered_requests_pool q"
    by (simp add: rq_cancel_eq [OF wf])
  then have "mset (ordered_requests ?q @ ordered_requests_pool ?q) =
      mset (ordered_requests q @ ordered_requests_pool q)"
    unfolding rq_expired_nodes [OF wf] ordered
    by (simp add: ac_simps)
  then have "distinct (ordered_requests ?q @ ordered_requests_pool ?q)"
      "set (ordered_requests ?q @ ordered_requests_pool ?q) = set (ordered_requests q @ ordered_requests_pool q)"
    using wf mset_eq_imp_distinct_iff mset_eq_setD unfolding rq_wf_def by metis+
  moreover have "length (ordered_requests ?q) \<le> rq_capacity ?q" "rq_allocated ?q = rq_allocated q"
    "set (ordered_requests ?q) \<subseteq> set (ordered_requests q)"
    using wf by (auto simp: ordered rq_wf_def rq_cancel_eq [OF wf] intro: le_trans [OF length_filter_le])
  ultimately show "rq_wf ?q" using wf ex nodes unfolding rq_wf_def by auto
qed

lemma rq_cancel_refines:
  assumes "rq_wf q"
  shows "fst (rq_cancel ec t q) =
      (if ec then [] else map snd (sort_key fst (filter (\<lambda>w. fst w \<le> t) (rq_content q))))"
    and "rq_content (snd (rq_cancel ec t q)) =
      (if ec then rq_content q else filter (\<lambda>w. \<not> fst w \<le> t) (rq_content q))"
    and "rq_wf (snd (rq_cancel ec t q))"
    and "rq_armed q \<Longrightarrow> rq_armed (snd (rq_cancel ec t q))"
    and "rq_capacity (snd (rq_cancel ec t q)) = rq_capacity q"
proof -
  have ec: "rq_cancel True t q = ([], q)" by (simp add: rq_cancel_def)
  show "fst (rq_cancel ec t q) =
      (if ec then [] else map snd (sort_key fst (filter (\<lambda>w. fst w \<le> t) (rq_content q))))"
    by (cases ec) (simp_all add: ec rq_cancel_posts [OF assms])
  show "rq_content (snd (rq_cancel ec t q)) =
      (if ec then rq_content q else filter (\<lambda>w. \<not> fst w \<le> t) (rq_content q))"
    by (cases ec) (simp_all add: ec rq_cancel_wf [OF assms])
  show "rq_wf (snd (rq_cancel ec t q))"
    by (cases ec) (simp_all add: ec rq_cancel_wf [OF assms] assms)
  show "rq_armed q \<Longrightarrow> rq_armed (snd (rq_cancel ec t q))"
    by (cases ec) (simp_all add: ec rq_cancel_eq [OF assms])
  show "rq_capacity (snd (rq_cancel ec t q)) = rq_capacity q"
    by (cases ec) (simp_all add: ec rq_cancel_eq [OF assms])
qed


section \<open>What the pool relies on\<close>

text \<open>
  The pool takes requests out one at a time. The contract: they come out in the order of the content.
  A client that takes them out until there is none gets all of them, in order.
\<close>

locale request_queue =
  fixes wf :: "'q \<Rightarrow> bool"
    and content :: "'q \<Rightarrow> 'w list"
    and served :: "'w \<Rightarrow> 'r"
    and pop :: "'q \<Rightarrow> 'r option \<times> 'q"
  assumes pop_wf: "wf q \<Longrightarrow> wf (snd (pop q))"
    and pop_result: "wf q \<Longrightarrow> fst (pop q) = (case content q of [] \<Rightarrow> None | w # ws \<Rightarrow> Some (served w))"
    and pop_content: "wf q \<Longrightarrow> content (snd (pop q)) = tl (content q)"
begin

lemma pop_none_iff: "wf q \<Longrightarrow> fst (pop q) = None \<longleftrightarrow> content q = []"
  by (simp add: pop_result split: list.splits)

lemma pop_some: "wf q \<Longrightarrow> fst (pop q) = Some r \<Longrightarrow> \<exists>w. content q = w # content (snd (pop q)) \<and> r = served w"
  by (auto simp: pop_result pop_content split: list.splits)

lemma drain_serves_all:
  assumes drain: "\<And>q. drain q = (case pop q of
      (None, q') \<Rightarrow> ([], q')
    | (Some r, q') \<Rightarrow> (let (rs, q'') = drain q' in (r # rs, q'')))"
    and "wf q"
  shows "fst (drain q) = map served (content q) \<and> content (snd (drain q)) = [] \<and> wf (snd (drain q))"
  using assms(2)
proof (induction "content q" arbitrary: q)
  case Nil
  then have "fst (pop q) = None" by (simp add: pop_none_iff)
  then show ?case using Nil pop_wf [of q] pop_content [of q]
    by (subst (1 2 3) drain) (auto split: prod.splits)
next
  case (Cons w ws)
  then have "pop q = (Some (served w), snd (pop q))" "content (snd (pop q)) = ws" "wf (snd (pop q))"
    using pop_result [of q] pop_content [of q] pop_wf [of q] by (metis list.simps(5) prod.collapse list.sel(3))+
  then show ?case using Cons.hyps(1) [of "snd (pop q)"] Cons.hyps(2)
    by (subst (1 2 3) drain) (auto split: prod.splits simp: Cons.hyps(2) [symmetric])
qed

end

interpretation waiting: request_queue rq_wf rq_content snd rq_pop
  by unfold_locales (simp_all add: rq_pop_refines)

section \<open>Runs of a queue\<close>

datatype 'r queue_op = Push int io_context int 'r | Pop | Cancel bool int

datatype 'r queue_out = Pushed bool | Popped "('r option \<times> io_context) option" | Expired "('r option \<times> io_context) list"

fun queue_op_step :: "'r queue_op \<Rightarrow> 'r rqueue \<Rightarrow> 'r queue_out \<times> 'r rqueue" where
  "queue_op_step (Push now io w r) q = map_prod Pushed id (rq_push now io w r q)"
| "queue_op_step Pop q = map_prod Popped id (rq_pop q)"
| "queue_op_step (Cancel ec t) q = map_prod Expired id (rq_cancel ec t q)"

text \<open>The specification: a bounded list of requests, each with the time it expires.\<close>

fun fifo_op_step :: "nat \<Rightarrow> 'r queue_op \<Rightarrow> 'r waiter list \<Rightarrow> 'r queue_out \<times> 'r waiter list" where
  "fifo_op_step cap (Push now io w r) ws =
     (if length ws < cap then (Pushed True, ws @ [(time_add now w, Some r, io)]) else (Pushed False, ws))"
| "fifo_op_step cap Pop ws =
     (case ws of [] \<Rightarrow> (Popped None, []) | w # ws \<Rightarrow> (Popped (Some (snd w)), ws))"
| "fifo_op_step cap (Cancel ec t) ws =
     (if ec then (Expired [], ws)
      else (Expired (map snd (sort_key fst (filter (\<lambda>w. fst w \<le> t) ws))), filter (\<lambda>w. \<not> fst w \<le> t) ws))"

fun run_ops :: "('o \<Rightarrow> 's \<Rightarrow> 'out \<times> 's) \<Rightarrow> 'o list \<Rightarrow> 's \<Rightarrow> 'out list \<times> 's" where
  "run_ops step [] s = ([], s)"
| "run_ops step (x # xs) s =
     (let (y, s) = step x s; (ys, s) = run_ops step xs s in (y # ys, s))"

definition rq_state :: "nat \<Rightarrow> 'r rqueue \<Rightarrow> bool" where
  "rq_state cap q \<longleftrightarrow> rq_wf q \<and> rq_armed q \<and> rq_capacity q = cap"

lemma queue_op_simulates:
  assumes "rq_state cap q"
  shows "fst (queue_op_step x q) = fst (fifo_op_step cap x (rq_content q))
    \<and> rq_content (snd (queue_op_step x q)) = snd (fifo_op_step cap x (rq_content q))
    \<and> rq_state cap (snd (queue_op_step x q))"
proof (cases x)
  case (Push now io w r)
  then show ?thesis using assms rq_push_refines [of q now io w r] by (simp add: rq_state_def)
next
  case Pop
  then show ?thesis using assms rq_pop_refines [of q]
    by (cases "rq_content q") (simp_all add: rq_state_def)
next
  case (Cancel ec t)
  then show ?thesis using assms rq_cancel_refines [of q ec t] by (simp add: rq_state_def)
qed

lemma run_ops_simulates:
  assumes "rq_state cap q"
  shows "fst (run_ops queue_op_step xs q) = fst (run_ops (fifo_op_step cap) xs (rq_content q))
    \<and> rq_content (snd (run_ops queue_op_step xs q)) = snd (run_ops (fifo_op_step cap) xs (rq_content q))
    \<and> rq_state cap (snd (run_ops queue_op_step xs q))"
  using assms
proof (induction xs arbitrary: q)
  case (Cons x xs)
  then show ?case using queue_op_simulates [OF Cons.prems, of x] Cons.IH [of "snd (queue_op_step x q)"]
    by (simp add: case_prod_beta Let_def)
qed simp

section \<open>Properties\<close>

text \<open>C13 Refinement. Whatever is pushed, popped and expired in whatever order, the queue of waiting requests,
  two intrusive orders over recycled nodes, gives the answers of a plain bounded first-in first-out list of
  requests with expiry times: a request is refused only when the queue is full, requests are served in the order
  they came, and a timer answers exactly the requests that have expired, earliest first. Its size is the
  length of that list, and while a request waits a timer is armed for the earliest expiry.\<close>
theorem queue_refines_fifo:
  "fst (run_ops queue_op_step xs (new_rqueue cap)) = fst (run_ops (fifo_op_step cap) xs [])
   \<and> rq_content (snd (run_ops queue_op_step xs (new_rqueue cap))) = snd (run_ops (fifo_op_step cap) xs [])
   \<and> rq_size (snd (run_ops queue_op_step xs (new_rqueue cap))) = length (snd (run_ops (fifo_op_step cap) xs []))
   \<and> rq_armed (snd (run_ops queue_op_step xs (new_rqueue cap)))"
proof -
  let ?q = "snd (run_ops queue_op_step xs (new_rqueue cap))"
  have "rq_state cap (new_rqueue cap)" by (simp add: rq_state_def) (simp add: new_rqueue_def)
  from run_ops_simulates [OF this, of xs] have
    "fst (run_ops queue_op_step xs (new_rqueue cap)) = fst (run_ops (fifo_op_step cap) xs [])"
    "rq_content ?q = snd (run_ops (fifo_op_step cap) xs [])" and state: "rq_state cap ?q"
    by simp_all
  moreover from this have "rq_size ?q = length (snd (run_ops (fifo_op_step cap) xs []))"
    using rq_size_wf [of ?q] by (metis rq_content_simps(3) rq_state_def)
  ultimately show ?thesis by (simp add: rq_state_def)
qed

end
