(* ===== verification/Resource_Pool.thy ===== *)
theory Resource_Pool
  imports Pool_Queue
begin

text \<open>
  The resource pools of \<^verbatim>\<open>yamail/resource_pool\<close>: \<^verbatim>\<open>async/detail/pool_impl.hpp\<close>,
  \<^verbatim>\<open>async/pool.hpp\<close>, \<^verbatim>\<open>handle.hpp\<close>, \<^verbatim>\<open>sync/detail/pool_impl.hpp\<close> and
  \<^verbatim>\<open>sync/pool.hpp\<close>. The asynchronous pool hands cells of its storage out through handlers it posts
  to I/O contexts and keeps requests that find no free cell in its queue; what it has posted is part of
  the state. Every critical section is one step; \<^verbatim>\<open>get\<close> has two of them, and other operations may run
  in between.
\<close>

section \<open>Handlers (async/detail/pool_impl.hpp)\<close>

text \<open>
  The function objects that are posted, and the call of the user's handler each of them makes. A
  queued handler is wrapped in a pointer (\<^verbatim>\<open>list_iterator_handler\<close>) that is null once it has been
  moved from; a default-constructed iterator is \<open>None\<close>.
\<close>

datatype 'h posted =
    OnListIterator pool_code "cell option" 'h
  | OnError pool_code "'h option"
  | OnServeQueued cell "'h option"
  | OnExpired "'h option"

record 'h handler_call =
  hc_handler :: 'h
  hc_code :: pool_code
  hc_cell :: "cell option"

definition list_iterator_handler :: "'h option \<Rightarrow> pool_code \<Rightarrow> cell option \<Rightarrow> 'h handler_call res" where
  "list_iterator_handler impl ec it =
     (case impl of
        None \<Rightarrow> Inl NullPointer
      | Some h \<Rightarrow> Inr \<lparr>hc_handler = h, hc_code = ec, hc_cell = it\<rparr>)"

definition on_list_iterator_handler :: "pool_code \<Rightarrow> cell option \<Rightarrow> 'h \<Rightarrow> 'h handler_call" where
  "on_list_iterator_handler ec it h = \<lparr>hc_handler = h, hc_code = ec, hc_cell = it\<rparr>"

definition on_error_handler :: "pool_code \<Rightarrow> 'h option \<Rightarrow> 'h handler_call res" where
  "on_error_handler ec impl = list_iterator_handler impl ec None"

definition on_serve_queued_handler :: "cell \<Rightarrow> 'h option \<Rightarrow> 'h handler_call res" where
  "on_serve_queued_handler it impl = list_iterator_handler impl pool_ok (Some it)"

definition expired_handler :: "'h option \<Rightarrow> 'h handler_call res" where
  "expired_handler impl = list_iterator_handler impl get_resource_timeout None"

lemmas posted_handler_defs =
  list_iterator_handler_def on_list_iterator_handler_def on_error_handler_def
  on_serve_queued_handler_def expired_handler_def

fun run_posted :: "'h posted \<Rightarrow> 'h handler_call res" where
  "run_posted (OnListIterator ec it h) = Inr (on_list_iterator_handler ec it h)"
| "run_posted (OnError ec impl) = on_error_handler ec impl"
| "run_posted (OnServeQueued it impl) = on_serve_queued_handler it impl"
| "run_posted (OnExpired impl) = expired_handler impl"

section \<open>The asynchronous pool\<close>

record ('v, 'h) pool_impl =
  pi_storage :: "'v storage"
  pi_capacity :: nat
  pi_callbacks :: "'h rqueue"
  pi_disabled :: bool
  pi_posted :: "(io_context \<times> 'h posted) list"

record pool_stats =
  ps_size :: nat
  ps_available :: nat
  ps_used :: nat
  ps_queue_size :: nat

definition assert_capacity :: "nat \<Rightarrow> rp_error + nat" where
  "assert_capacity n = (if n = 0 then Inl zero_pool_capacity else Inr n)"

definition new_pool_impl :: "nat \<Rightarrow> nat \<Rightarrow> int \<Rightarrow> int \<Rightarrow> rp_error + ('v, 'h) pool_impl" where
  "new_pool_impl capacity queue_capacity timeout life =
     rbind (assert_capacity capacity) (\<lambda>n.
     Inr \<lparr>pi_storage = new_storage n timeout life, pi_capacity = capacity,
          pi_callbacks = new_rqueue queue_capacity, pi_disabled = False, pi_posted = []\<rparr>)"

text \<open>The constructor with a generator; \<open>vs\<close> are the values it makes.\<close>

definition pool_impl_of :: "int \<Rightarrow> 'v list \<Rightarrow> nat \<Rightarrow> int \<Rightarrow> int \<Rightarrow> rp_error + ('v, 'h) pool_impl" where
  "pool_impl_of now vs queue_capacity timeout life =
     rbind (assert_capacity (length vs)) (\<lambda>n.
     Inr \<lparr>pi_storage = storage_of now vs timeout life, pi_capacity = n,
          pi_callbacks = new_rqueue queue_capacity, pi_disabled = False, pi_posted = []\<rparr>)"

definition pool_size :: "('v, 'h) pool_impl \<Rightarrow> nat" where
  "pool_size p = (let s = storage_stats_of (pi_storage p) in st_available s + st_used s)"

definition pool_available :: "('v, 'h) pool_impl \<Rightarrow> nat" where
  "pool_available p = st_available (storage_stats_of (pi_storage p))"

definition pool_used :: "('v, 'h) pool_impl \<Rightarrow> nat" where
  "pool_used p = st_used (storage_stats_of (pi_storage p))"

definition pool_stats_of :: "('v, 'h) pool_impl \<Rightarrow> pool_stats" where
  "pool_stats_of p =
     (let s = storage_stats_of (pi_storage p) in
      \<lparr>ps_size = st_available s + st_used s, ps_available = st_available s, ps_used = st_used s,
       ps_queue_size = rq_size (pi_callbacks p)\<rparr>)"

definition post :: "io_context \<Rightarrow> 'h posted \<Rightarrow> ('v, 'h) pool_impl \<Rightarrow> ('v, 'h) pool_impl" where
  "post io x p = p\<lparr>pi_posted := pi_posted p @ [(io, x)]\<rparr>"

definition pool_recycle :: "int \<Rightarrow> cell option \<Rightarrow> ('v, 'h) pool_impl \<Rightarrow> rp_error + ('v, 'h) pool_impl" where
  "pool_recycle now res_it p =
     (case res_it of
        None \<Rightarrow> Inl singular_iterator
      | Some c \<Rightarrow>
          let (queued, q) = rq_pop (pi_callbacks p);
              p = p\<lparr>pi_callbacks := q\<rparr> in
          case queued of
            None \<Rightarrow> rbind (storage_recycle now c (pi_storage p)) (\<lambda>s. Inr (p\<lparr>pi_storage := s\<rparr>))
          | Some (request, io) \<Rightarrow>
              let valid = storage_is_valid now c (pi_storage p);
                  p = (if \<not> valid then p\<lparr>pi_storage := set_cell c reset_value (pi_storage p)\<rparr> else p) in
              Inr (post io (OnServeQueued c request) p))"

definition pool_waste :: "int \<Rightarrow> cell option \<Rightarrow> ('v, 'h) pool_impl \<Rightarrow> rp_error + ('v, 'h) pool_impl" where
  "pool_waste now res_it p =
     (case res_it of
        None \<Rightarrow> Inl singular_iterator
      | Some c \<Rightarrow>
          let (queued, q) = rq_pop (pi_callbacks p);
              p = p\<lparr>pi_callbacks := q\<rparr> in
          case queued of
            None \<Rightarrow> rbind (storage_waste c (pi_storage p)) (\<lambda>s. Inr (p\<lparr>pi_storage := s\<rparr>))
          | Some (request, io) \<Rightarrow>
              let p = p\<lparr>pi_storage := set_cell c reset_value (pi_storage p)\<rparr> in
              Inr (post io (OnServeQueued c request) p))"

text \<open>
  \<^verbatim>\<open>get\<close> up to the second unlocking: answered at once, or (\<open>True\<close>) still to be queued. Then the part
  that queues it, which locks again.
\<close>

definition pool_get_lease ::
    "int \<Rightarrow> io_context \<Rightarrow> 'h \<Rightarrow> int \<Rightarrow> ('v, 'h) pool_impl \<Rightarrow> bool \<times> ('v, 'h) pool_impl" where
  "pool_get_lease now io h wait_duration p =
     (if pi_disabled p then (False, post io (OnListIterator pool_disabled None h) p)
      else
        let (cell, s) = lease now (pi_storage p);
            p = p\<lparr>pi_storage := s\<rparr> in
        case cell of
          Some c \<Rightarrow> (False, post io (OnListIterator pool_ok (Some c) h) p)
        | None \<Rightarrow>
            if wait_duration = 0
            then (False, post io (OnListIterator get_resource_timeout None h) p)
            else (True, p))"

definition pool_get_enqueue ::
    "int \<Rightarrow> io_context \<Rightarrow> 'h \<Rightarrow> int \<Rightarrow> ('v, 'h) pool_impl \<Rightarrow> ('v, 'h) pool_impl" where
  "pool_get_enqueue now io h wait_duration p =
     (let (pushed, q) = rq_push now io wait_duration h (pi_callbacks p);
          p = p\<lparr>pi_callbacks := q\<rparr> in
      if pushed then p else post io (OnError request_queue_overflow (Some h)) p)"

definition pool_get :: "int \<Rightarrow> io_context \<Rightarrow> 'h \<Rightarrow> int \<Rightarrow> ('v, 'h) pool_impl \<Rightarrow> ('v, 'h) pool_impl" where
  "pool_get now io h wait_duration p =
     (let (queueing, p) = pool_get_lease now io h wait_duration p in
      if queueing then pool_get_enqueue now io h wait_duration p else p)"

text \<open>The loop of \<^verbatim>\<open>disable\<close>: every waiting request is answered.\<close>

lemma rq_pop_shorter: "rq_pop q = (Some x, q') \<Longrightarrow> length (ordered_requests q') < length (ordered_requests q)"
  by (auto simp: rq_pop_def Let_def split: list.splits)

function drain_callbacks :: "'h rqueue \<Rightarrow> ('h option \<times> io_context) list \<times> 'h rqueue" where
  "drain_callbacks q =
     (case rq_pop q of
        (None, q') \<Rightarrow> ([], q')
      | (Some r, q') \<Rightarrow> (let (rs, q'') = drain_callbacks q' in (r # rs, q'')))"
  by pat_completeness auto
termination
  by (relation "measure (\<lambda>q. length (ordered_requests q))") (simp, metis in_measure rq_pop_shorter)

declare drain_callbacks.simps [simp del]

definition pool_disable :: "('v, 'h) pool_impl \<Rightarrow> ('v, 'h) pool_impl" where
  "pool_disable p =
     (let p = p\<lparr>pi_disabled := True\<rparr>;
          (queued, q) = drain_callbacks (pi_callbacks p);
          p = p\<lparr>pi_callbacks := q\<rparr> in
      fold (\<lambda>(request, io). post io (OnError pool_disabled request)) queued p)"

definition pool_invalidate :: "('v, 'h) pool_impl \<Rightarrow> ('v, 'h) pool_impl" where
  "pool_invalidate p = p\<lparr>pi_storage := storage_invalidate (pi_storage p)\<rparr>"

text \<open>The timer of the queue fires.\<close>

definition pool_timer :: "bool \<Rightarrow> int \<Rightarrow> ('v, 'h) pool_impl \<Rightarrow> ('v, 'h) pool_impl" where
  "pool_timer ec expires_at p =
     (let (posts, q) = rq_cancel ec expires_at (pi_callbacks p) in
      fold (\<lambda>(request, io). post io (OnExpired request)) posts (p\<lparr>pi_callbacks := q\<rparr>))"

section \<open>Handles (handle.hpp)\<close>

text \<open>
  A handle refers to the abstract class \<^verbatim>\<open>pool_returns\<close>, here its two virtual functions on the state of
  the pool behind it. Its resource is absent, or an iterator.
\<close>

record 'p pool_returns =
  returns_recycle :: "int \<Rightarrow> cell option \<Rightarrow> 'p \<Rightarrow> rp_error + 'p"
  returns_waste :: "int \<Rightarrow> cell option \<Rightarrow> 'p \<Rightarrow> rp_error + 'p"

datatype use_strategy = UseRecycle | UseWaste

record rp_handle =
  hd_strategy :: use_strategy
  hd_resource_it :: "cell option option"

definition handle_unusable :: "rp_handle \<Rightarrow> bool" where
  "handle_unusable h = (hd_resource_it h = None)"

definition handle_empty :: "'v storage \<Rightarrow> rp_handle \<Rightarrow> rp_error + bool" where
  "handle_empty s h =
     (case hd_resource_it h of
        None \<Rightarrow> Inr True
      | Some None \<Rightarrow> Inl singular_iterator
      | Some (Some c) \<Rightarrow> Inr (id_value (cells s c) = None))"

definition handle_get :: "'v storage \<Rightarrow> rp_handle \<Rightarrow> rp_error + 'v" where
  "handle_get s h =
     rbind (handle_empty s h) (\<lambda>e.
     if e then Inl empty_handle
     else case hd_resource_it h of
            Some (Some c) \<Rightarrow> (case id_value (cells s c) of Some v \<Rightarrow> Inr v | None \<Rightarrow> Inl empty_handle)
          | _ \<Rightarrow> Inl empty_handle)"

definition handle_recycle :: "'p pool_returns \<Rightarrow> int \<Rightarrow> rp_handle \<Rightarrow> 'p \<Rightarrow> rp_error + rp_handle \<times> 'p" where
  "handle_recycle vt now h p =
     (case hd_resource_it h of
        None \<Rightarrow> Inl unusable_handle
      | Some it \<Rightarrow> rbind (returns_recycle vt now it p) (\<lambda>p. Inr (h\<lparr>hd_resource_it := None\<rparr>, p)))"

definition handle_waste :: "'p pool_returns \<Rightarrow> int \<Rightarrow> rp_handle \<Rightarrow> 'p \<Rightarrow> rp_error + rp_handle \<times> 'p" where
  "handle_waste vt now h p =
     (case hd_resource_it h of
        None \<Rightarrow> Inl unusable_handle
      | Some it \<Rightarrow> rbind (returns_waste vt now it p) (\<lambda>p. Inr (h\<lparr>hd_resource_it := None\<rparr>, p)))"

definition handle_reset :: "int \<Rightarrow> 'v \<Rightarrow> rp_handle \<Rightarrow> 'v storage \<Rightarrow> rp_error + 'v storage" where
  "handle_reset now v h s =
     (case hd_resource_it h of
        None \<Rightarrow> Inl unusable_handle
      | Some None \<Rightarrow> Inl singular_iterator
      | Some (Some c) \<Rightarrow> Inr (set_cell c (\<lambda>i. i\<lparr>id_value := Some v, reset_time := now\<rparr>) s))"

definition handle_use :: "'p pool_returns \<Rightarrow> int \<Rightarrow> rp_handle \<Rightarrow> 'p \<Rightarrow> rp_error + rp_handle \<times> 'p" where
  "handle_use vt now h p =
     (case hd_strategy h of UseRecycle \<Rightarrow> handle_recycle vt now h p | UseWaste \<Rightarrow> handle_waste vt now h p)"

definition handle_destroy :: "'p pool_returns \<Rightarrow> int \<Rightarrow> rp_handle \<Rightarrow> 'p \<Rightarrow> rp_error + 'p" where
  "handle_destroy vt now h p =
     (if \<not> handle_unusable h then rbind (handle_use vt now h p) (\<lambda>(_, p). Inr p) else Inr p)"

text \<open>Move construction: the new handle, and what is left of the other.\<close>

definition handle_move :: "rp_handle \<Rightarrow> rp_handle \<times> rp_handle" where
  "handle_move other = (other, other\<lparr>hd_resource_it := None\<rparr>)"

definition handle_assign ::
    "'p pool_returns \<Rightarrow> int \<Rightarrow> rp_handle \<Rightarrow> rp_handle \<Rightarrow> 'p \<Rightarrow> rp_error + (rp_handle \<times> rp_handle) \<times> 'p" where
  "handle_assign vt now this other p =
     rbind (if \<not> handle_unusable this then handle_use vt now this p else Inr (this, p)) (\<lambda>(this, p).
     Inr ((this\<lparr>hd_strategy := hd_strategy other, hd_resource_it := hd_resource_it other\<rparr>,
           other\<lparr>hd_resource_it := None\<rparr>), p))"

text \<open>\<^verbatim>\<open>on_get_handler\<close> of the asynchronous pool: an error comes with an unusable handle.\<close>

definition on_get_handler :: "use_strategy \<Rightarrow> pool_code \<Rightarrow> cell option \<Rightarrow> pool_code \<times> rp_handle" where
  "on_get_handler strategy ec res =
     (if ec \<noteq> pool_ok then (ec, \<lparr>hd_strategy = strategy, hd_resource_it = None\<rparr>)
      else (ec, \<lparr>hd_strategy = strategy, hd_resource_it = Some res\<rparr>))"

text \<open>
  The pool itself: the handler it passes on carries the strategy, and becomes a call of the user's
  handler with a handle. Its destructor disables the implementation.
\<close>

definition async_get ::
    "int \<Rightarrow> io_context \<Rightarrow> 'u \<Rightarrow> use_strategy \<Rightarrow> int \<Rightarrow> ('v, 'u \<times> use_strategy) pool_impl \<Rightarrow>
     ('v, 'u \<times> use_strategy) pool_impl" where
  "async_get now io user strategy wait_duration p = pool_get now io (user, strategy) wait_duration p"

definition get_auto_waste ::
    "int \<Rightarrow> io_context \<Rightarrow> 'u \<Rightarrow> int \<Rightarrow> ('v, 'u \<times> use_strategy) pool_impl \<Rightarrow> ('v, 'u \<times> use_strategy) pool_impl" where
  "get_auto_waste now io user wait_duration p = async_get now io user UseWaste wait_duration p"

definition get_auto_recycle ::
    "int \<Rightarrow> io_context \<Rightarrow> 'u \<Rightarrow> int \<Rightarrow> ('v, 'u \<times> use_strategy) pool_impl \<Rightarrow> ('v, 'u \<times> use_strategy) pool_impl" where
  "get_auto_recycle now io user wait_duration p = async_get now io user UseRecycle wait_duration p"

definition user_call :: "('u \<times> use_strategy) handler_call \<Rightarrow> 'u \<times> pool_code \<times> rp_handle" where
  "user_call c =
     (let (user, strategy) = hc_handler c in (user, on_get_handler strategy (hc_code c) (hc_cell c)))"

definition async_pool_destroy :: "('v, 'h) pool_impl \<Rightarrow> ('v, 'h) pool_impl" where
  "async_pool_destroy p = pool_disable p"

section \<open>The synchronous pool\<close>

record 'v sync_pool =
  sp_storage :: "'v storage"
  sp_capacity :: nat
  sp_disabled :: bool

definition new_sync_pool :: "nat \<Rightarrow> int \<Rightarrow> int \<Rightarrow> rp_error + 'v sync_pool" where
  "new_sync_pool capacity timeout life =
     rbind (assert_capacity capacity) (\<lambda>n.
     Inr \<lparr>sp_storage = new_storage n timeout life, sp_capacity = capacity, sp_disabled = False\<rparr>)"

text \<open>The constructor with a generator; \<open>vs\<close> are the values it makes.\<close>

definition sync_pool_of :: "int \<Rightarrow> 'v list \<Rightarrow> int \<Rightarrow> int \<Rightarrow> rp_error + 'v sync_pool" where
  "sync_pool_of now vs timeout life =
     rbind (assert_capacity (length vs)) (\<lambda>n.
     Inr \<lparr>sp_storage = storage_of now vs timeout life, sp_capacity = length vs, sp_disabled = False\<rparr>)"

record sync_stats =
  ss_size :: nat
  ss_available :: nat
  ss_used :: nat

definition sync_size :: "'v sync_pool \<Rightarrow> nat" where
  "sync_size p = (let s = storage_stats_of (sp_storage p) in st_available s + st_used s)"

definition sync_available :: "'v sync_pool \<Rightarrow> nat" where
  "sync_available p = st_available (storage_stats_of (sp_storage p))"

definition sync_used :: "'v sync_pool \<Rightarrow> nat" where
  "sync_used p = st_used (storage_stats_of (sp_storage p))"

definition sync_stats_of :: "'v sync_pool \<Rightarrow> sync_stats" where
  "sync_stats_of p =
     (let s = storage_stats_of (sp_storage p) in
      \<lparr>ss_size = st_available s + st_used s, ss_available = st_available s, ss_used = st_used s\<rparr>)"

definition sync_recycle :: "int \<Rightarrow> cell option \<Rightarrow> 'v sync_pool \<Rightarrow> rp_error + 'v sync_pool" where
  "sync_recycle now res_it p =
     (case res_it of
        None \<Rightarrow> Inl singular_iterator
      | Some c \<Rightarrow> rbind (storage_recycle now c (sp_storage p)) (\<lambda>s. Inr (p\<lparr>sp_storage := s\<rparr>)))"

definition sync_waste :: "int \<Rightarrow> cell option \<Rightarrow> 'v sync_pool \<Rightarrow> rp_error + 'v sync_pool" where
  "sync_waste now res_it p =
     (case res_it of
        None \<Rightarrow> Inl singular_iterator
      | Some c \<Rightarrow> rbind (storage_waste c (sp_storage p)) (\<lambda>s. Inr (p\<lparr>sp_storage := s\<rparr>)))"

definition sync_disable :: "'v sync_pool \<Rightarrow> 'v sync_pool" where
  "sync_disable p = p\<lparr>sp_disabled := True\<rparr>"

definition sync_invalidate :: "'v sync_pool \<Rightarrow> 'v sync_pool" where
  "sync_invalidate p = p\<lparr>sp_storage := storage_invalidate (sp_storage p)\<rparr>"

text \<open>
  \<^verbatim>\<open>get\<close> waits on a condition variable while it finds nothing. What happens at each wait is given:
  whether it timed out, the time, and the pool as the other threads have left it. When the given waits
  are used up the call is still waiting.
\<close>

fun sync_get ::
    "int \<Rightarrow> 'v sync_pool \<Rightarrow> (bool \<times> int \<times> 'v sync_pool) list \<Rightarrow> (pool_code \<times> cell option \<times> 'v sync_pool) option" where
  "sync_get now p waits =
     (if sp_disabled p then Some (pool_disabled, None, p)
      else
        case lease now (sp_storage p) of
          (Some c, s) \<Rightarrow> Some (pool_ok, Some c, p\<lparr>sp_storage := s\<rparr>)
        | (None, s) \<Rightarrow>
            (case waits of
               [] \<Rightarrow> None
             | (timed_out, now', p') # waits' \<Rightarrow>
                 if timed_out then Some (get_resource_timeout, None, p')
                 else sync_get now' p' waits'))"

declare sync_get.simps [simp del]

definition sync_get_handle ::
    "use_strategy \<Rightarrow> int \<Rightarrow> 'v sync_pool \<Rightarrow> (bool \<times> int \<times> 'v sync_pool) list \<Rightarrow>
     (pool_code \<times> rp_handle \<times> 'v sync_pool) option" where
  "sync_get_handle strategy now p waits =
     map_option (\<lambda>(ec, res, p). (ec, \<lparr>hd_strategy = strategy, hd_resource_it = Some res\<rparr>, p))
       (sync_get now p waits)"


section \<open>What a handle relies on\<close>

text \<open>
  The contract of \<^verbatim>\<open>pool_returns\<close>: a cell that is in use can be given back, once. A handle that holds
  such a cell can be destroyed, moved and assigned without a fault; after it has given its cell back it is
  unusable and its destructor does nothing.
\<close>

definition handle_holds :: "cell set \<Rightarrow> rp_handle \<Rightarrow> bool" where
  "handle_holds used h \<longleftrightarrow> (\<forall>it. hd_resource_it h = Some it \<longrightarrow> (\<exists>c \<in> used. it = Some c))"

locale returning_pool =
  fixes vt :: "'p pool_returns"
    and ok :: "'p \<Rightarrow> bool"
    and in_use :: "'p \<Rightarrow> cell set"
  assumes recycle_in_use: "ok p \<Longrightarrow> c \<in> in_use p \<Longrightarrow>
      \<exists>p'. returns_recycle vt now (Some c) p = Inr p' \<and> ok p' \<and> in_use p - {c} \<subseteq> in_use p'"
    and waste_in_use: "ok p \<Longrightarrow> c \<in> in_use p \<Longrightarrow>
      \<exists>p'. returns_waste vt now (Some c) p = Inr p' \<and> ok p' \<and> in_use p - {c} \<subseteq> in_use p'"
begin

lemma use_fine:
  assumes "ok p" and "hd_resource_it h = Some (Some c)" and "c \<in> in_use p"
  shows "\<exists>p'. handle_use vt now h p = Inr (h\<lparr>hd_resource_it := None\<rparr>, p') \<and> ok p' \<and> in_use p - {c} \<subseteq> in_use p'"
  using recycle_in_use [OF assms(1,3), of now] waste_in_use [OF assms(1,3), of now] assms(2)
  by (cases "hd_strategy h") (auto simp: handle_use_def handle_recycle_def handle_waste_def)

lemma destroy_fine:
  assumes "ok p" and "handle_holds (in_use p) h"
  shows "\<exists>p'. handle_destroy vt now h p = Inr p' \<and> ok p'"
proof (cases "hd_resource_it h")
  case None
  then show ?thesis using assms by (simp add: handle_destroy_def handle_unusable_def)
next
  case (Some it)
  then obtain c where c: "hd_resource_it h = Some (Some c)" "c \<in> in_use p"
    using assms(2) by (auto simp: handle_holds_def)
  then show ?thesis using use_fine [OF assms(1) c, of now] by (auto simp: handle_destroy_def handle_unusable_def)
qed

lemma released_once:
  assumes "handle_use vt now h p = Inr (h', p')"
  shows "handle_unusable h' \<and> handle_destroy vt now h' p' = Inr p'
    \<and> handle_recycle vt now h' p' = Inl unusable_handle \<and> handle_waste vt now h' p' = Inl unusable_handle"
proof -
  have "hd_resource_it h' = None"
    using assms by (cases "hd_strategy h")
      (auto simp: handle_use_def handle_recycle_def handle_waste_def rbind_Inr_iff split: option.splits)
  then show ?thesis
    by (simp add: handle_unusable_def handle_destroy_def handle_recycle_def handle_waste_def)
qed

text \<open>Assignment gives the old cell back and takes the other handle's, when they hold different cells.\<close>

lemma assign_fine:
  assumes "ok p" and "handle_holds (in_use p) this" and "handle_holds (in_use p) other"
    and "hd_resource_it this \<noteq> None \<longrightarrow> hd_resource_it this \<noteq> hd_resource_it other"
  shows "\<exists>p'. handle_assign vt now this other p =
      Inr ((fst (handle_move other), snd (handle_move other)), p') \<and> ok p' \<and> handle_holds (in_use p') (fst (handle_move other))"
proof (cases "hd_resource_it this")
  case None
  then show ?thesis using assms
    by (cases this) (auto simp: handle_assign_def handle_unusable_def handle_move_def)
next
  case (Some it)
  then obtain c where c: "hd_resource_it this = Some (Some c)" "c \<in> in_use p"
    using assms(2) by (auto simp: handle_holds_def)
  from use_fine [OF assms(1) this, of now] obtain p' where
    p': "handle_use vt now this p = Inr (this\<lparr>hd_resource_it := None\<rparr>, p')" "ok p'" "in_use p - {c} \<subseteq> in_use p'"
    by blast
  have "handle_holds (in_use p') other" using assms(3,4) c p'(3) by (fastforce simp: handle_holds_def)
  then show ?thesis using c p'
    by (cases this; cases other) (auto simp: handle_assign_def handle_unusable_def handle_move_def)
qed

end


section \<open>The state of the asynchronous pool\<close>

definition pool_wf :: "('v, 'h) pool_impl \<Rightarrow> bool" where
  "pool_wf p \<longleftrightarrow>
     storage_inv (pi_capacity p) (pi_storage p) \<and> rq_wf (pi_callbacks p) \<and> rq_armed (pi_callbacks p)"

abbreviation pool_cells :: "('v, 'h) pool_impl \<Rightarrow> cell list" where
  "pool_cells p \<equiv> used_cells (pi_storage p)"

abbreviation pool_waiting :: "('v, 'h) pool_impl \<Rightarrow> 'h option list" where
  "pool_waiting p \<equiv> map (fst \<circ> snd) (rq_content (pi_callbacks p))"

lemma storage_inv_set_used:
  "storage_inv n s \<Longrightarrow> c \<in> set (used_cells s) \<Longrightarrow> storage_inv n (set_cell c f s)"
  using storage_inv_distinct [of n s] by (auto simp: storage_inv_def all_cells_def)

lemma post_simps [simp]:
  "pi_storage (post io x p) = pi_storage p"
  "pi_capacity (post io x p) = pi_capacity p"
  "pi_callbacks (post io x p) = pi_callbacks p"
  "pi_disabled (post io x p) = pi_disabled p"
  "pi_posted (post io x p) = pi_posted p @ [(io, x)]"
  by (simp_all add: post_def)

lemma fold_post:
  "fold (\<lambda>(r, io). post io (f r)) xs p = p\<lparr>pi_posted := pi_posted p @ map (\<lambda>(r, io). (io, f r)) xs\<rparr>"
  by (induction xs arbitrary: p) (auto simp: post_def)

text \<open>
  Giving a cell back: either it is stored (and leaves the used cells), or it goes on to the request that
  has waited longest.
\<close>

lemma pool_return_cases:
  fixes p :: "('v, 'h) pool_impl" and f :: "'v storage \<Rightarrow> rp_error + 'v storage"
  assumes wf: "pool_wf p" and c: "c \<in> set (pool_cells p)"
    and ret: "(f = storage_recycle now c \<and> pool_recycle now (Some c) p = r)
      \<or> (f = storage_waste c \<and> pool_waste now (Some c) p = r)"
  shows "case rq_content (pi_callbacks p) of
      [] \<Rightarrow> \<exists>s'. f (pi_storage p) = Inr s' \<and> r = Inr (p\<lparr>pi_storage := s'\<rparr>)
    | w # ws \<Rightarrow> \<exists>s' q'. r = Inr (p\<lparr>pi_storage := s', pi_callbacks := q',
                               pi_posted := pi_posted p @ [(snd (snd w), OnServeQueued c (fst (snd w)))]\<rparr>)
         \<and> storage_inv (pi_capacity p) s' \<and> used_cells s' = pool_cells p
         \<and> rq_wf q' \<and> rq_armed q' \<and> rq_content q' = ws"
proof -
  have q: "rq_wf (pi_callbacks p)" "rq_armed (pi_callbacks p)" and s: "storage_inv (pi_capacity p) (pi_storage p)"
    using wf by (auto simp: pool_wf_def)
  note pop = rq_pop_refines [OF q(1)] and inv = storage_inv_set_used [OF s c, of reset_value]
  show ?thesis
  proof (cases "rq_content (pi_callbacks p)")
    case Nil
    then have "rq_pop (pi_callbacks p) = (None, pi_callbacks p)"
      using rq_pop_none [of "pi_callbacks p"] by (simp add: rq_content_def)
    then show ?thesis
      using ret Nil storage_recycle_used [OF c, of now] storage_waste_used [OF c]
      by (auto simp: pool_recycle_def pool_waste_def)
  next
    case (Cons w ws)
    obtain q' where "rq_pop (pi_callbacks p) = (Some (snd w), q')"
      using pop(1) Cons by (cases "rq_pop (pi_callbacks p)") simp
    moreover have "rq_content q' = ws" "rq_wf q'" "rq_armed q'"
      using pop(2,3) pop(4) [OF q(2)] Cons calculation by simp_all
    ultimately show ?thesis
      using ret Cons inv s
      by (cases p; cases w) (auto simp: pool_recycle_def pool_waste_def post_def Let_def split: if_splits)
  qed
qed


lemma pool_return_wf:
  fixes p :: "('v, 'h) pool_impl"
  assumes "pool_wf p" and "c \<in> set (pool_cells p)"
    and "pool_recycle now (Some c) p = Inr p' \<or> pool_waste now (Some c) p = Inr p'"
  shows "pool_wf p' \<and> pi_capacity p' = pi_capacity p \<and> set (pool_cells p) - {c} \<subseteq> set (pool_cells p')"
proof -
  obtain f :: "'v storage \<Rightarrow> rp_error + 'v storage" where f: "f = storage_recycle now c \<or> f = storage_waste c"
    and "(f = storage_recycle now c \<and> pool_recycle now (Some c) p = Inr p')
      \<or> (f = storage_waste c \<and> pool_waste now (Some c) p = Inr p')"
    using assms(3) by blast
  note ret = pool_return_cases [OF assms(1,2) this(2)]
  have dist: "distinct (pool_cells p)"
    using assms(1) storage_inv_distinct by (fastforce simp: pool_wf_def all_cells_def)
  have stored: "storage_inv (pi_capacity p) s' \<and> set (pool_cells p) - {c} \<subseteq> set (used_cells s')"
    if "f (pi_storage p) = Inr s'" for s'
  proof -
    have "storage_inv (pi_capacity p) s'"
      using that f assms(1) storage_inv_recycle storage_inv_waste by (auto simp: pool_wf_def)
    moreover have "used_cells s' = remove1 c (pool_cells p)"
      using that f storage_returns_used [of c "pi_storage p" s' now] by auto
    ultimately show ?thesis using dist by simp
  qed
  show ?thesis using ret assms(1) stored
    by (cases "rq_content (pi_callbacks p)") (auto simp: pool_wf_def)
qed

definition async_returns :: "('v, 'h) pool_impl pool_returns" where
  "async_returns = \<lparr>returns_recycle = pool_recycle, returns_waste = pool_waste\<rparr>"

interpretation async: returning_pool async_returns pool_wf "\<lambda>p. set (pool_cells p)"
proof
  fix p :: "('a, 'b) pool_impl" and c now
  assume "pool_wf p" "c \<in> set (pool_cells p)"
  moreover from this have "\<exists>p'. pool_recycle now (Some c) p = Inr p'" "\<exists>p'. pool_waste now (Some c) p = Inr p'"
    using pool_return_cases [of p c "storage_recycle now c" now "pool_recycle now (Some c) p"]
      pool_return_cases [of p c "storage_waste c" now "pool_waste now (Some c) p"]
    by (auto split: list.splits)
  ultimately show
    "\<exists>p'. returns_recycle async_returns now (Some c) p = Inr p' \<and> pool_wf p' \<and> set (pool_cells p) - {c} \<subseteq> set (pool_cells p')"
    "\<exists>p'. returns_waste async_returns now (Some c) p = Inr p' \<and> pool_wf p' \<and> set (pool_cells p) - {c} \<subseteq> set (pool_cells p')"
    using pool_return_wf [of p c now] by (auto simp: async_returns_def)
qed

definition sync_wf :: "'v sync_pool \<Rightarrow> bool" where
  "sync_wf p \<longleftrightarrow> storage_inv (sp_capacity p) (sp_storage p)"

lemma sync_pool_of_wf: "sync_pool_of now vs timeout life = Inr p \<Longrightarrow> sync_wf p"
  by (auto simp: sync_pool_of_def assert_capacity_def sync_wf_def storage_inv_of rbind_Inr_iff split: if_splits)

text \<open>What the statistics count fits the capacity.\<close>

lemma sync_stats_capacity:
  assumes "sync_wf p"
  shows "ss_size (sync_stats_of p) = ss_available (sync_stats_of p) + ss_used (sync_stats_of p)"
    and "sync_size p = sync_available p + sync_used p" and "sync_size p \<le> sp_capacity p"
  using storage_inv_length [of "sp_capacity p" "sp_storage p"] assms
  by (simp_all add: sync_stats_of_def sync_size_def sync_available_def sync_used_def sync_wf_def storage_stats_of_def Let_def)

definition sync_returns :: "'v sync_pool pool_returns" where
  "sync_returns = \<lparr>returns_recycle = sync_recycle, returns_waste = sync_waste\<rparr>"

lemma sync_return_wf:
  fixes p :: "'v sync_pool" and f :: "'v storage \<Rightarrow> rp_error + 'v storage"
  assumes "sync_wf p" and "c \<in> set (used_cells (sp_storage p))"
    and "f = storage_recycle now c \<or> f = storage_waste c"
  shows "\<exists>s. f (sp_storage p) = Inr s \<and> sync_wf (p\<lparr>sp_storage := s\<rparr>)
    \<and> set (used_cells (sp_storage p)) - {c} \<subseteq> set (used_cells s)"
proof -
  have inv: "storage_inv (sp_capacity p) (sp_storage p)" using assms(1) by (simp add: sync_wf_def)
  obtain s where s: "f (sp_storage p) = Inr s"
    using storage_recycle_used [OF assms(2), of now] storage_waste_used [OF assms(2)] assms(3) by auto
  moreover have "storage_inv (sp_capacity p) s"
    using s assms(3) storage_inv_recycle [OF inv] storage_inv_waste [OF inv] by auto
  moreover have "used_cells s = remove1 c (used_cells (sp_storage p))"
    using s assms(3) storage_returns_used [of c "sp_storage p" s now] by auto
  moreover have "distinct (used_cells (sp_storage p))"
    using storage_inv_distinct [OF inv] by (simp add: all_cells_def)
  ultimately show ?thesis by (simp add: sync_wf_def)
qed

interpretation sync: returning_pool sync_returns sync_wf "\<lambda>p. set (used_cells (sp_storage p))"
proof
  fix p :: "'a sync_pool" and c now
  assume "sync_wf p" "c \<in> set (used_cells (sp_storage p))"
  note fine = sync_return_wf [OF this]
  show "\<exists>p'. returns_recycle sync_returns now (Some c) p = Inr p' \<and> sync_wf p'
      \<and> set (used_cells (sp_storage p)) - {c} \<subseteq> set (used_cells (sp_storage p'))"
    using fine [of "storage_recycle now c" now] by (auto simp: sync_returns_def sync_recycle_def)
  show "\<exists>p'. returns_waste sync_returns now (Some c) p = Inr p' \<and> sync_wf p'
      \<and> set (used_cells (sp_storage p)) - {c} \<subseteq> set (used_cells (sp_storage p'))"
    using fine [of "storage_waste c" now] by (auto simp: sync_returns_def sync_waste_def)
qed


text \<open>
  The handle a user gets with a cell that is in use can be destroyed, and one that came with an error
  does nothing.
\<close>

lemma user_handle_destroyed:
  assumes "pool_wf p" and "\<forall>c. hc_code call = pool_ok \<longrightarrow> hc_cell call = Some c \<longrightarrow> c \<in> set (pool_cells p)"
    and "hc_code call = pool_ok \<longrightarrow> hc_cell call \<noteq> None"
  shows "\<exists>p'. handle_destroy async_returns now (snd (snd (user_call call))) p = Inr p' \<and> pool_wf p'"
proof -
  have "handle_holds (set (pool_cells p)) (snd (snd (user_call call)))"
    using assms(2,3) by (auto simp: handle_holds_def user_call_def on_get_handler_def split: prod.splits if_splits)
  then show ?thesis using async.destroy_fine [OF assms(1)] by blast
qed

section \<open>Interleavings\<close>

text \<open>
  A state of the pool with its clients: the pool, the requests that are between the two critical
  sections of \<^verbatim>\<open>get\<close>, the handlers of all requests made so far, and all cells given back so far.
  Clients give back cells that are in use; timers may fire at any time and with any result.
\<close>

type_synonym 'h pending = "io_context \<times> 'h \<times> int"
type_synonym ('v, 'h) pool_conf = "('v, 'h) pool_impl \<times> 'h pending list \<times> 'h list \<times> cell list"

inductive pool_step :: "('v, 'h) pool_conf \<Rightarrow> ('v, 'h) pool_conf \<Rightarrow> bool" where
  get_now: "pool_get_lease now io h w p = (False, p') \<Longrightarrow>
    pool_step (p, pend, issued, ret) (p', pend, h # issued, ret)"
| get_later: "pool_get_lease now io h w p = (True, p') \<Longrightarrow>
    pool_step (p, pend, issued, ret) (p', (io, h, w) # pend, h # issued, ret)"
| enqueue: "(io, h, w) \<in> set pend \<Longrightarrow>
    pool_step (p, pend, issued, ret) (pool_get_enqueue now io h w p, remove1 (io, h, w) pend, issued, ret)"
| recycle: "c \<in> set (pool_cells p) \<Longrightarrow> pool_recycle now (Some c) p = Inr p' \<Longrightarrow>
    pool_step (p, pend, issued, ret) (p', pend, issued, c # ret)"
| waste: "c \<in> set (pool_cells p) \<Longrightarrow> pool_waste now (Some c) p = Inr p' \<Longrightarrow>
    pool_step (p, pend, issued, ret) (p', pend, issued, c # ret)"
| reset: "c \<in> set (pool_cells p) \<Longrightarrow> hd_resource_it h = Some (Some c) \<Longrightarrow>
    handle_reset now v h (pi_storage p) = Inr s \<Longrightarrow>
    pool_step (p, pend, issued, ret) (p\<lparr>pi_storage := s\<rparr>, pend, issued, ret)"
| timer: "pool_step (p, pend, issued, ret) (pool_timer ec t p, pend, issued, ret)"
| disable: "pool_step (p, pend, issued, ret) (pool_disable p, pend, issued, ret)"
| invalidate: "pool_step (p, pend, issued, ret) (pool_invalidate p, pend, issued, ret)"

inductive pool_reachable :: "('v, 'h) pool_conf \<Rightarrow> bool" where
  new: "new_pool_impl capacity queue_capacity timeout life = Inr p \<Longrightarrow> pool_reachable (p, [], [], [])"
| filled: "pool_impl_of now vs queue_capacity timeout life = Inr p \<Longrightarrow> pool_reachable (p, [], [], [])"
| step: "pool_reachable c \<Longrightarrow> pool_step c c' \<Longrightarrow> pool_reachable c'"

fun posted_handler :: "'h posted \<Rightarrow> 'h option" where
  "posted_handler (OnListIterator ec it h) = Some h"
| "posted_handler (OnError ec impl) = impl"
| "posted_handler (OnServeQueued it impl) = impl"
| "posted_handler (OnExpired impl) = impl"

fun posted_cells :: "'h posted \<Rightarrow> cell list" where
  "posted_cells (OnListIterator ec it h) = (case it of None \<Rightarrow> [] | Some c \<Rightarrow> [c])"
| "posted_cells (OnServeQueued c impl) = [c]"
| "posted_cells _ = []"

definition answered :: "('v, 'h) pool_impl \<Rightarrow> 'h option multiset" where
  "answered p = mset (map (posted_handler \<circ> snd) (pi_posted p))"

definition delivered :: "('v, 'h) pool_impl \<Rightarrow> cell multiset" where
  "delivered p = mset (concat (map (posted_cells \<circ> snd) (pi_posted p)))"

definition pending_handlers :: "'h pending list \<Rightarrow> 'h option multiset" where
  "pending_handlers pend = mset (map (Some \<circ> fst \<circ> snd) pend)"

text \<open>Every request is answered, waiting or about to wait; every cell handed out is in use or was given back.\<close>

definition conf_inv :: "('v, 'h) pool_conf \<Rightarrow> bool" where
  "conf_inv = (\<lambda>(p, pend, issued, ret).
     pool_wf p
     \<and> mset (map Some issued) = answered p + mset (pool_waiting p) + pending_handlers pend
     \<and> delivered p = mset (pool_cells p) + mset ret)"

lemma log_post [simp]:
  "answered (post io x p) = add_mset (posted_handler x) (answered p)"
  "delivered (post io x p) = delivered p + mset (posted_cells x)"
  by (simp_all add: answered_def delivered_def)

lemma log_update [simp]:
  "answered (p\<lparr>pi_storage := s\<rparr>) = answered p" "delivered (p\<lparr>pi_storage := s\<rparr>) = delivered p"
  "answered (p\<lparr>pi_callbacks := q\<rparr>) = answered p" "delivered (p\<lparr>pi_callbacks := q\<rparr>) = delivered p"
  "answered (p\<lparr>pi_disabled := d\<rparr>) = answered p" "delivered (p\<lparr>pi_disabled := d\<rparr>) = delivered p"
  by (simp_all add: answered_def delivered_def)

lemma pool_wf_post [simp]: "pool_wf (post io x p) = pool_wf p"
  by (simp add: pool_wf_def)

lemma pool_wf_storage:
  "pool_wf p \<Longrightarrow> storage_inv (pi_capacity p) s \<Longrightarrow> pool_wf (p\<lparr>pi_storage := s\<rparr>)"
  by (simp add: pool_wf_def)

lemma get_lease_inv:
  assumes "pool_wf p" and "pool_get_lease now io h w p = (queueing, p')"
  shows "pool_wf p' \<and> pi_callbacks p' = pi_callbacks p
    \<and> answered p' = (if queueing then answered p else add_mset (Some h) (answered p))
    \<and> (\<exists>new. delivered p' = delivered p + new \<and> mset (pool_cells p') = mset (pool_cells p) + new)"
proof -
  obtain c s where l: "lease now (pi_storage p) = (c, s)" by (cases "lease now (pi_storage p)")
  have inv: "storage_inv (pi_capacity p) s"
    using assms(1) storage_inv_lease [of "pi_capacity p" "pi_storage p" now] l by (simp add: pool_wf_def)
  have "used_cells s = pool_cells p @ (case c of None \<Rightarrow> [] | Some x \<Rightarrow> [x])"
    using lease_some_used [of now "pi_storage p"] lease_none_eq [of now "pi_storage p"] l
    by (cases c) auto
  then show ?thesis using assms inv l
    by (cases c) (auto simp: pool_get_lease_def Let_def pool_wf_storage split: if_splits)
qed

lemma get_enqueue_inv:
  assumes "pool_wf p"
  shows "pool_wf (pool_get_enqueue now io h w p)"
    and "answered (pool_get_enqueue now io h w p) + mset (pool_waiting (pool_get_enqueue now io h w p)) =
      add_mset (Some h) (answered p + mset (pool_waiting p))"
    and "delivered (pool_get_enqueue now io h w p) = delivered p"
    and "pi_storage (pool_get_enqueue now io h w p) = pi_storage p"
proof -
  obtain b q where q: "rq_push now io w h (pi_callbacks p) = (b, q)"
    by (cases "rq_push now io w h (pi_callbacks p)")
  have "rq_wf (pi_callbacks p)" "rq_armed (pi_callbacks p)" using assms by (auto simp: pool_wf_def)
  note push = rq_push_refines [OF this(1), of now io w h, unfolded q] this
  show "pool_wf (pool_get_enqueue now io h w p)" using assms push q
    by (auto simp: pool_get_enqueue_def pool_wf_def Let_def)
  show "answered (pool_get_enqueue now io h w p) + mset (pool_waiting (pool_get_enqueue now io h w p)) =
      add_mset (Some h) (answered p + mset (pool_waiting p))"
    using push q by (auto simp: pool_get_enqueue_def Let_def)
  show "delivered (pool_get_enqueue now io h w p) = delivered p"
    "pi_storage (pool_get_enqueue now io h w p) = pi_storage p"
    using q by (auto simp: pool_get_enqueue_def Let_def)
qed

lemma get_enqueue_storage: "pi_storage (pool_get_enqueue now io h w p) = pi_storage p"
  by (simp add: pool_get_enqueue_def Let_def split: prod.splits)

lemma pool_return_inv:
  fixes p :: "('v, 'h) pool_impl"
  assumes wf: "pool_wf p" and c: "c \<in> set (pool_cells p)"
    and ret: "pool_recycle now (Some c) p = Inr p' \<or> pool_waste now (Some c) p = Inr p'"
  shows "answered p' + mset (pool_waiting p') = answered p + mset (pool_waiting p)
    \<and> delivered p' + mset (pool_cells p) = add_mset c (delivered p + mset (pool_cells p'))"
proof -
  obtain f :: "'v storage \<Rightarrow> rp_error + 'v storage" where f: "f = storage_recycle now c \<or> f = storage_waste c"
    and "(f = storage_recycle now c \<and> pool_recycle now (Some c) p = Inr p')
      \<or> (f = storage_waste c \<and> pool_waste now (Some c) p = Inr p')"
    using ret by blast
  note cases = pool_return_cases [OF wf c this(2)]
  show ?thesis
  proof (cases "rq_content (pi_callbacks p)")
    case Nil
    with cases obtain s where s: "f (pi_storage p) = Inr s" "p' = p\<lparr>pi_storage := s\<rparr>" by auto
    then have "used_cells s = remove1 c (pool_cells p)"
      using f storage_returns_used [of c "pi_storage p" s now] by auto
    then show ?thesis using s c by simp
  next
    case (Cons w ws)
    with cases show ?thesis by (auto simp: answered_def delivered_def)
  qed
qed


lemma pool_timer_inv:
  assumes "pool_wf p"
  shows "pool_wf (pool_timer ec t p)"
    and "answered (pool_timer ec t p) + mset (pool_waiting (pool_timer ec t p)) = answered p + mset (pool_waiting p)"
    and "delivered (pool_timer ec t p) = delivered p"
    and "pi_storage (pool_timer ec t p) = pi_storage p"
proof -
  obtain posts q where q: "rq_cancel ec t (pi_callbacks p) = (posts, q)"
    by (cases "rq_cancel ec t (pi_callbacks p)")
  have wf: "rq_wf (pi_callbacks p)" "rq_armed (pi_callbacks p)" using assms by (auto simp: pool_wf_def)
  note cancel = rq_cancel_refines [OF wf(1), of ec t, unfolded q]
  have timer: "pool_timer ec t p = p\<lparr>pi_callbacks := q,
      pi_posted := pi_posted p @ map (\<lambda>(r, io). (io, OnExpired r)) posts\<rparr>"
    by (simp add: pool_timer_def q fold_post)
  have logged: "answered (pool_timer ec t p) = answered p + mset (map fst posts)"
    by (simp add: timer answered_def comp_def case_prod_beta)
  show "pool_wf (pool_timer ec t p)" using assms cancel wf by (simp add: timer pool_wf_def)
  show "answered (pool_timer ec t p) + mset (pool_waiting (pool_timer ec t p)) = answered p + mset (pool_waiting p)"
  proof (cases ec)
    case False
    have "mset (map fst posts) = image_mset (fst \<circ> snd) (mset (filter (\<lambda>w. fst w \<le> t) (rq_content (pi_callbacks p))))"
      using cancel(1) False by (simp add: multiset.map_comp comp_def)
    moreover have "mset (map (fst \<circ> snd) (rq_content q)) =
        image_mset (fst \<circ> snd) (mset (filter (\<lambda>w. \<not> fst w \<le> t) (rq_content (pi_callbacks p))))"
      using cancel(2) False by simp
    moreover have "mset (pool_waiting p) =
        image_mset (fst \<circ> snd) (filter_mset (\<lambda>w. fst w \<le> t) (mset (rq_content (pi_callbacks p))))
        + image_mset (fst \<circ> snd) (filter_mset (\<lambda>w. \<not> fst w \<le> t) (mset (rq_content (pi_callbacks p))))"
      by (simp flip: image_mset_union)
    ultimately show ?thesis unfolding logged by (simp add: timer)
  next
    case True
    then show ?thesis using cancel unfolding logged unfolding timer by simp
  qed
  show "delivered (pool_timer ec t p) = delivered p" "pi_storage (pool_timer ec t p) = pi_storage p"
    by (simp_all add: timer delivered_def comp_def case_prod_beta)
qed

lemma pool_disable_eq:
  assumes "pool_wf p"
  obtains q where "pool_disable p = p\<lparr>pi_disabled := True, pi_callbacks := q,
      pi_posted := pi_posted p @ map (\<lambda>w. (snd (snd w), OnError pool_disabled (fst (snd w)))) (rq_content (pi_callbacks p))\<rparr>"
    and "rq_content q = []" and "rq_wf q" and "rq_armed q"
proof -
  obtain rs q where drain: "drain_callbacks (pi_callbacks p) = (rs, q)"
    by (cases "drain_callbacks (pi_callbacks p)")
  have "rq_wf (pi_callbacks p)" using assms by (simp add: pool_wf_def)
  from waiting.drain_serves_all [OF drain_callbacks.simps this] drain
  have all: "rs = map snd (rq_content (pi_callbacks p))" "rq_content q = []" "rq_wf q" by simp_all
  moreover from this have "rq_armed q" by (simp add: rq_armed_def rq_wf_def rq_content_def)
  ultimately show ?thesis
    by (intro that [of q]) (simp_all add: pool_disable_def drain fold_post comp_def case_prod_beta)
qed

lemma pool_disable_inv:
  assumes "pool_wf p"
  shows "pool_wf (pool_disable p)"
    and "answered (pool_disable p) + mset (pool_waiting (pool_disable p)) = answered p + mset (pool_waiting p)"
    and "delivered (pool_disable p) = delivered p"
    and "pi_storage (pool_disable p) = pi_storage p"
proof -
  obtain q where q: "pool_disable p = p\<lparr>pi_disabled := True, pi_callbacks := q,
      pi_posted := pi_posted p @ map (\<lambda>w. (snd (snd w), OnError pool_disabled (fst (snd w)))) (rq_content (pi_callbacks p))\<rparr>"
    "rq_content q = []" "rq_wf q" "rq_armed q"
    using pool_disable_eq [OF assms] .
  show "pool_wf (pool_disable p)" using assms q(3,4) unfolding q(1) by (simp add: pool_wf_def)
  show "answered (pool_disable p) + mset (pool_waiting (pool_disable p)) = answered p + mset (pool_waiting p)"
    unfolding q(1) using q(2) by (simp add: answered_def comp_def)
  show "delivered (pool_disable p) = delivered p" unfolding q(1) by (simp add: delivered_def comp_def)
  show "pi_storage (pool_disable p) = pi_storage p" unfolding q(1) by simp
qed

lemma pool_invalidate_inv:
  assumes "pool_wf p"
  shows "pool_wf (pool_invalidate p)" and "pool_cells (pool_invalidate p) = pool_cells p"
proof -
  have inv: "storage_inv (pi_capacity p) (pi_storage p)" using assms by (simp add: pool_wf_def)
  show "pool_wf (pool_invalidate p)"
    using assms storage_inv_invalidate [OF inv] by (simp add: pool_invalidate_def pool_wf_def)
  show "pool_cells (pool_invalidate p) = pool_cells p"
    using storage_invalidate_eq [OF storage_inv_distinct [OF inv]] by (simp add: pool_invalidate_def)
qed

lemma conf_inv_step:
  assumes "pool_step c c'" and "conf_inv c"
  shows "conf_inv c'"
  using assms
proof cases
  case (get_now now io h w p p' pend issued ret)
  then show ?thesis using get_lease_inv [of p now io h w False p'] assms(2) by (auto simp: conf_inv_def)
next
  case (get_later now io h w p p' pend issued ret)
  then show ?thesis using get_lease_inv [of p now io h w True p'] assms(2)
    by (auto simp: conf_inv_def pending_handlers_def)
next
  case (enqueue io h w pend p issued ret now)
  then have "mset pend = add_mset (io, h, w) (mset (remove1 (io, h, w) pend))" by simp
  from arg_cong [OF this, of "image_mset (Some \<circ> fst \<circ> snd)"]
  have "pending_handlers pend = add_mset (Some h) (pending_handlers (remove1 (io, h, w) pend))"
    by (simp add: pending_handlers_def del: mset_remove1)
  then show ?thesis using enqueue get_enqueue_inv [of p now io h w] assms(2)
    by (auto simp: conf_inv_def)
next
  case (recycle c p now p' pend issued ret)
  then show ?thesis using pool_return_inv [of p c now p'] pool_return_wf [of p c now p'] assms(2)
    by (auto simp: conf_inv_def)
next
  case (waste c p now p' pend issued ret)
  then show ?thesis using pool_return_inv [of p c now p'] pool_return_wf [of p c now p'] assms(2)
    by (auto simp: conf_inv_def)
next
  case (reset c p h now v s pend issued ret)
  then show ?thesis using assms(2) storage_inv_set_used [of "pi_capacity p" "pi_storage p" c]
    by (auto simp: conf_inv_def handle_reset_def pool_wf_def)
next
  case (timer p pend issued ret ec t)
  then show ?thesis using pool_timer_inv [of p ec t] assms(2) by (auto simp: conf_inv_def)
next
  case (disable p pend issued ret)
  then show ?thesis using pool_disable_inv [of p] assms(2) by (auto simp: conf_inv_def)
next
  case (invalidate p pend issued ret)
  then show ?thesis using pool_invalidate_inv [of p] assms(2)
    by (auto simp: conf_inv_def pool_invalidate_def)
qed

lemma conf_inv_reachable: "pool_reachable c \<Longrightarrow> conf_inv c"
proof (induction rule: pool_reachable.induct)
  case (new capacity queue_capacity timeout life p)
  then show ?case
    by (auto simp: conf_inv_def new_pool_impl_def assert_capacity_def pool_wf_def storage_inv_new
        answered_def delivered_def pending_handlers_def split: if_splits) (simp_all add: new_storage_def)
next
  case (filled now vs queue_capacity timeout life p)
  then show ?case
    by (auto simp: conf_inv_def pool_impl_of_def assert_capacity_def pool_wf_def storage_inv_of
        answered_def delivered_def pending_handlers_def split: if_splits) (simp_all add: storage_of_def)
next
  case (step c c')
  then show ?case using conf_inv_step by blast
qed


section \<open>Requests taken one at a time\<close>

text \<open>
  When no operation runs between the two critical sections of \<^verbatim>\<open>get\<close>, a request waits only while
  every cell is in use.
\<close>

inductive atomic_reachable :: "('v, 'h) pool_conf \<Rightarrow> bool" where
  start: "pool_reachable (p, [], [], []) \<Longrightarrow> rq_content (pi_callbacks p) = [] \<Longrightarrow> atomic_reachable (p, [], [], [])"
| other: "atomic_reachable (p, [], issued, ret) \<Longrightarrow> pool_step (p, [], issued, ret) (p', [], issued', ret') \<Longrightarrow>
    atomic_reachable (p', [], issued', ret')"
| get: "atomic_reachable (p, [], issued, ret) \<Longrightarrow> atomic_reachable (pool_get now io h w p, [], h # issued, ret)"

definition no_idle :: "('v, 'h) pool_impl \<Rightarrow> bool" where
  "no_idle p \<longleftrightarrow> (rq_content (pi_callbacks p) \<noteq> [] \<longrightarrow> pool_used p = pi_capacity p)"

lemma pool_used_cells: "pool_used p = length (pool_cells p)"
  by (simp add: pool_used_def storage_stats_of_def)

lemma get_lease_no_idle:
  assumes "pool_wf p" and "no_idle p" and "pool_get_lease now io h w p = (queueing, p')"
  shows "no_idle p' \<and> pi_capacity p' = pi_capacity p \<and> (queueing \<longrightarrow> pool_used p' = pi_capacity p)"
proof -
  obtain c s where l: "lease now (pi_storage p) = (c, s)" by (cases "lease now (pi_storage p)")
  have inv: "storage_inv (pi_capacity p) (pi_storage p)" using assms(1) by (simp add: pool_wf_def)
  have "c = None \<longleftrightarrow> pool_used p = pi_capacity p"
    using lease_fails_iff_all_used [OF inv, of now] l by (simp add: pool_used_cells)
  moreover have "c = None \<Longrightarrow> s = pi_storage p" using lease_none_eq [of now "pi_storage p"] l by simp
  ultimately show ?thesis using assms(2,3) l
    by (cases c) (auto simp: no_idle_def pool_get_lease_def Let_def pool_used_def split: if_splits)
qed

lemma get_enqueue_no_idle:
  "pool_used p = pi_capacity p \<Longrightarrow> no_idle (pool_get_enqueue now io h w p)"
  by (auto simp: no_idle_def pool_get_enqueue_def pool_used_def Let_def split: prod.splits)

lemma pool_return_no_idle:
  fixes p :: "('v, 'h) pool_impl"
  assumes wf: "pool_wf p" and c: "c \<in> set (pool_cells p)" and "no_idle p"
    and ret: "pool_recycle now (Some c) p = Inr p' \<or> pool_waste now (Some c) p = Inr p'"
  shows "no_idle p'"
proof -
  obtain f :: "'v storage \<Rightarrow> rp_error + 'v storage" where
    "(f = storage_recycle now c \<and> pool_recycle now (Some c) p = Inr p')
      \<or> (f = storage_waste c \<and> pool_waste now (Some c) p = Inr p')"
    using ret by blast
  from pool_return_cases [OF wf c this] assms(3) show ?thesis
    by (auto simp: no_idle_def pool_used_cells split: list.splits)
qed

lemma no_idle_step:
  assumes "pool_step (p, [], issued, ret) (p', [], issued', ret')" and wf: "pool_wf p" and "no_idle p"
  shows "no_idle p'"
  using assms(1)
proof cases
  case (get_now now io h w)
  then show ?thesis using get_lease_no_idle [OF wf assms(3)] by blast
next
  case (reset c h now v s)
  then show ?thesis using assms(3)
    by (auto simp: no_idle_def handle_reset_def pool_used_cells split: option.splits)
next
  case (timer ec t)
  have "rq_content (pi_callbacks p) = [] \<Longrightarrow> rq_content (pi_callbacks (pool_timer ec t p)) = []"
    using rq_cancel_refines(2) [of "pi_callbacks p" ec t] wf
    by (auto simp: pool_timer_def pool_wf_def fold_post split: prod.splits)
  moreover have "pi_capacity (pool_timer ec t p) = pi_capacity p"
    by (simp add: pool_timer_def fold_post split: prod.splits)
  ultimately show ?thesis using timer assms(3) pool_timer_inv(4) [OF wf]
    by (auto simp: no_idle_def pool_used_def)
next
  case disable
  obtain q where "pi_callbacks (pool_disable p) = q" "rq_content q = []"
    by (rule pool_disable_eq [OF wf]) simp
  then show ?thesis using disable by (simp add: no_idle_def)
next
  case invalidate
  moreover have "pi_callbacks (pool_invalidate p) = pi_callbacks p" "pi_capacity (pool_invalidate p) = pi_capacity p"
    by (simp_all add: pool_invalidate_def)
  ultimately show ?thesis using assms(3) pool_invalidate_inv(2) [OF wf]
    by (simp add: no_idle_def pool_used_cells)
next
  case (recycle c now)
  then show ?thesis using pool_return_no_idle [OF wf _ assms(3)] by blast
next
  case (waste c now)
  then show ?thesis using pool_return_no_idle [OF wf _ assms(3)] by blast
qed simp_all

lemma enqueue_reachable:
  "pool_reachable (p, [(io, h, w)], issued, ret) \<Longrightarrow>
   pool_reachable (pool_get_enqueue now io h w p, [], issued, ret)"
  using pool_step.enqueue [of io h w "[(io, h, w)]" p issued ret now] pool_reachable.step by fastforce

lemma atomic_reachable_inv: "atomic_reachable c \<Longrightarrow> pool_reachable c \<and> no_idle (fst c)"
proof (induction rule: atomic_reachable.induct)
  case (start p)
  then show ?case by (simp add: no_idle_def)
next
  case (other p issued ret p' issued' ret')
  then have "pool_reachable (p', [], issued', ret')" using pool_reachable.step by blast
  moreover have "pool_wf p" using conf_inv_reachable other by (fastforce simp: conf_inv_def)
  ultimately show ?case using other no_idle_step by fastforce
next
  case (get p issued ret now io h w)
  then have wf: "pool_wf p" using conf_inv_reachable by (fastforce simp: conf_inv_def)
  obtain b p' where l: "pool_get_lease now io h w p = (b, p')" by (cases "pool_get_lease now io h w p")
  note idle = get_lease_no_idle [OF wf _ l]
  show ?case
  proof (cases b)
    case True
    then have "pool_reachable (p', [(io, h, w)], h # issued, ret)"
      using get l pool_step.get_later [of now io h w p p' "[]" issued ret] pool_reachable.step by fastforce
    then have "pool_reachable (pool_get_enqueue now io h w p', [], h # issued, ret)"
      by (rule enqueue_reachable)
    then show ?thesis using get idle True l by (simp add: pool_get_def get_enqueue_no_idle)
  next
    case False
    then have "pool_reachable (p', [], h # issued, ret)"
      using get l pool_step.get_now [of now io h w p p' "[]" issued ret] pool_reachable.step by fastforce
    then show ?thesis using get idle False l by (simp add: pool_get_def)
  qed
qed

section \<open>Properties\<close>

text \<open>C12 Invariant. Whatever the interleaving of requests, returns, timers, invalidation and disabling, the
  asynchronous pool answers every request exactly once: the handlers of all requests made are those posted, those
  waiting in the queue and those about to be queued, with nothing lost, doubled or moved from. Each cell that was
  handed out is in use or was given back, so it has one owner at a time, and never more cells are in use than the
  capacity.\<close>
theorem pool_answers_once:
  assumes "pool_reachable (p, pend, issued, ret)"
  shows "mset (map Some issued) = answered p + mset (pool_waiting p) + pending_handlers pend
    \<and> (\<forall>x \<in> set (pi_posted p). \<exists>call. run_posted (snd x) = Inr call)
    \<and> delivered p = mset (pool_cells p) + mset ret
    \<and> distinct (pool_cells p) \<and> pool_used p \<le> pi_capacity p"
proof -
  have inv: "conf_inv (p, pend, issued, ret)" using conf_inv_reachable [OF assms] .
  then have storage: "storage_inv (pi_capacity p) (pi_storage p)" by (simp add: conf_inv_def pool_wf_def)
  have eq: "mset (map Some issued) = answered p + mset (pool_waiting p) + pending_handlers pend"
    using inv by (simp add: conf_inv_def)
  have "\<exists>call. run_posted (snd x) = Inr call" if "x \<in> set (pi_posted p)" for x
  proof -
    have "posted_handler (snd x) \<in># mset (map Some issued)"
      unfolding eq using that by (auto simp: answered_def)
    then show ?thesis by (cases "snd x") (auto simp: posted_handler_defs)
  qed
  moreover have "distinct (pool_cells p)"
    using storage_inv_distinct [OF storage] by (simp add: all_cells_def)
  ultimately show ?thesis
    using inv eq storage_inv_length [OF storage] by (simp add: conf_inv_def pool_used_cells)
qed

text \<open>Functional. When the two critical sections of \<^verbatim>\<open>get\<close> are not interrupted, a request waits in
  the queue only while every cell of the pool is in use.\<close>
lemma waits_only_when_exhausted:
  assumes "atomic_reachable (p, pend, issued, ret)" and "pool_waiting p \<noteq> []"
  shows "pool_used p = pi_capacity p \<and> pool_available p = 0"
proof -
  have "no_idle p" "pool_reachable (p, pend, issued, ret)"
    using atomic_reachable_inv [OF assms(1)] by simp_all
  moreover from this have "storage_inv (pi_capacity p) (pi_storage p)"
    using conf_inv_reachable by (fastforce simp: conf_inv_def pool_wf_def)
  ultimately show ?thesis using assms(2) storage_inv_length [of "pi_capacity p" "pi_storage p"]
    by (auto simp: no_idle_def pool_used_cells pool_available_def storage_stats_of_def)
qed



text \<open>A pool with one cell, its first request served, its second between the two critical sections.\<close>

definition one_cell :: "(nat, nat) pool_impl" where
  "one_cell = \<lparr>pi_storage = new_storage 1 tick_max tick_max, pi_capacity = 1, pi_callbacks = new_rqueue 1,
     pi_disabled = False, pi_posted = []\<rparr>"

definition one_served :: "(nat, nat) pool_impl" where
  "one_served = pool_get 10 0 101 0 one_cell"

lemma one_cell_reachable: "pool_reachable (one_cell, [], [], [])"
  by (rule pool_reachable.new [of 1 1 tick_max tick_max])
    (simp add: new_pool_impl_def assert_capacity_def one_cell_def)

lemma one_served_eq:
  "one_served = one_cell\<lparr>pi_storage := (new_storage 1 tick_max tick_max)\<lparr>wasted_cells := [], used_cells := [0]\<rparr>,
     pi_posted := [(0, OnListIterator pool_ok (Some 0) 101)]\<rparr>"
  by (simp add: one_served_def one_cell_def pool_get_def pool_get_lease_def lease.simps new_storage_def
      set_cell_def new_idle_def post_def fun_eq_iff)

lemma one_served_lease: "pool_get_lease 11 0 102 5 one_served = (True, one_served)"
  by (simp add: one_served_eq one_cell_def pool_get_lease_def lease.simps new_storage_def)

lemma one_served_reachable:
  "atomic_reachable (one_served, [], [101], [])"
  "pool_reachable (one_served, [(0, 102, 5)], [102, 101], [])"
proof -
  have "atomic_reachable (one_cell, [], [], [])"
    by (rule atomic_reachable.start [OF one_cell_reachable]) (simp add: one_cell_def)
  from atomic_reachable.get [OF this] show "atomic_reachable (one_served, [], [101], [])"
    by (simp add: one_served_def)
  then show "pool_reachable (one_served, [(0, 102, 5)], [102, 101], [])"
    using pool_step.get_later [OF one_served_lease, of "[]" "[101]" "[]"] atomic_reachable_inv pool_reachable.step
    by fastforce
qed

theorem pool_answers_once_witness:
  "answered one_served + {#Some 102#} = {#Some 101, Some 102#}"
  using pool_answers_once [OF one_served_reachable(2)]
  by (simp add: pending_handlers_def one_served_eq one_cell_def answered_def)

definition one_waiting :: "(nat, nat) pool_impl" where
  "one_waiting = pool_get 11 0 102 5 one_served"

lemma get_enqueue_content:
  assumes "rq_wf (pi_callbacks p)" and "length (rq_content (pi_callbacks p)) < rq_capacity (pi_callbacks p)"
  shows "rq_content (pi_callbacks (pool_get_enqueue now io h w p)) =
      rq_content (pi_callbacks p) @ [(time_add now w, Some h, io)]"
    and "pi_disabled (pool_get_enqueue now io h w p) = pi_disabled p"
  using rq_push_refines(1,2) [OF assms(1), of now io w h] assms(2)
  by (auto simp: pool_get_enqueue_def split: prod.splits)

lemma new_rqueue_capacity [simp]: "rq_capacity (new_rqueue n) = n" "ordered_requests (new_rqueue n) = []"
  by (simp_all add: new_rqueue_def)

lemma one_served_callbacks [simp]:
  "pi_callbacks one_served = new_rqueue 1" "pi_disabled one_served = False"
  by (simp_all add: one_served_eq one_cell_def)

lemma one_waiting_content: "rq_content (pi_callbacks one_waiting) = [(time_add 11 5, Some 102, 0)]"
proof -
  have eq: "one_waiting = pool_get_enqueue 11 0 102 5 one_served"
    using one_served_lease by (simp add: one_waiting_def pool_get_def)
  show ?thesis unfolding eq by (subst get_enqueue_content) simp_all
qed



text \<open>C14 Liveness. The lost wake-up: a cell given back between the two critical sections of \<^verbatim>\<open>get\<close> goes to the
  available ones, and the request is queued after that. No operation is under way, the pool is not disabled,
  a cell is available, and the request waits all the same. When the pool is disabled in between, the
  request is queued in a disabled pool.\<close>
theorem lost_wakeup:
  "(\<exists>(p :: (nat, nat) pool_impl) issued ret. pool_reachable (p, [], issued, ret)
      \<and> \<not> pi_disabled p \<and> pool_waiting p \<noteq> [] \<and> pool_available p = 1 \<and> pool_used p = 0)
   \<and> (\<exists>(p :: (nat, nat) pool_impl) issued ret. pool_reachable (p, [], issued, ret)
      \<and> pi_disabled p \<and> pool_waiting p \<noteq> [])"
proof -
  let ?enqueue = "pool_get_enqueue 13 0 102 5"
  define p where "p = one_served\<lparr>pi_storage := (new_storage 1 tick_max tick_max)
      \<lparr>wasted_cells := [], available_cells := [0]\<rparr>\<rparr>"
  have "pool_recycle 12 (Some 0) one_served = Inr p"
    by (simp add: p_def one_served_eq one_cell_def pool_recycle_def rq_pop_def storage_recycle_def
        new_rqueue_def new_storage_def new_idle_def set_cell_def time_add_def tick_max_def fun_eq_iff)
  then have "pool_step (one_served, [(0, 102, 5)], [102, 101], []) (p, [(0, 102, 5)], [102, 101], [0])"
    by (intro pool_step.recycle) (simp_all add: one_served_eq)
  then have "pool_reachable (?enqueue p, [], [102, 101], [0])"
    by (intro enqueue_reachable pool_reachable.step [OF one_served_reachable(2)])
  moreover have "pool_waiting (?enqueue p) \<noteq> []" "\<not> pi_disabled (?enqueue p)"
    by (simp_all add: p_def get_enqueue_content)
  moreover have "pool_available (?enqueue p) = 1" "pool_used (?enqueue p) = 0"
    by (simp_all add: pool_available_def pool_used_def get_enqueue_storage)
      (simp_all add: p_def storage_stats_of_def new_storage_def)
  moreover have "pool_disable one_served = one_served\<lparr>pi_disabled := True\<rparr>"
    by (simp add: pool_disable_def drain_callbacks.simps rq_pop_def new_rqueue_def one_served_eq one_cell_def)
  moreover have "pool_reachable (?enqueue (pool_disable one_served), [], [102, 101], [])"
    by (intro enqueue_reachable pool_reachable.step [OF one_served_reachable(2)] pool_step.disable)
  moreover have "pool_waiting (?enqueue (one_served\<lparr>pi_disabled := True\<rparr>)) \<noteq> []"
    "pi_disabled (?enqueue (one_served\<lparr>pi_disabled := True\<rparr>))"
    by (simp_all add: get_enqueue_content)
  ultimately show ?thesis by metis
qed


text \<open>Error path. A failed \<^verbatim>\<open>get_auto_recycle\<close> or \<^verbatim>\<open>get_auto_waste\<close> of the synchronous pool (timed out, or the pool
  disabled) returns a handle around a default-constructed iterator. The handle does not count as unusable, so its
  destructor gives that iterator back to the pool, which dereferences it. The asynchronous pool passes an
  unusable handle with an error, whose destructor does nothing.\<close>
lemma sync_failure_handle_faults:
  assumes "sync_get_handle strategy now p waits = Some (ec, h, p')" and "ec \<noteq> pool_ok"
  shows "\<not> handle_unusable h \<and> handle_destroy sync_returns now' h p' = Inl singular_iterator
    \<and> handle_destroy vt now' (snd (on_get_handler strategy ec res)) q = Inr q"
proof -
  have "c = None" if "sync_get now p waits = Some (ec, c, p')" for c
    using that assms(2)
    by (induction now p waits rule: sync_get.induct)
      (subst (asm) (2) sync_get.simps, auto split: if_splits prod.splits option.splits list.splits)
  then have "hd_resource_it h = Some None" "hd_strategy h = strategy"
    using assms(1) by (auto simp: sync_get_handle_def)
  then show ?thesis using assms(2)
    by (cases strategy) (auto simp: handle_destroy_def handle_unusable_def handle_use_def handle_recycle_def
        handle_waste_def sync_returns_def sync_recycle_def sync_waste_def on_get_handler_def)
qed

definition exhausted :: "nat sync_pool" where
  "exhausted = \<lparr>sp_storage = (new_storage 1 60 3600)\<lparr>wasted_cells := [], used_cells := [0]\<rparr>,
     sp_capacity = 1, sp_disabled = False\<rparr>"

text \<open>Functional. A cell that was invalidated while in use and is handed on to a waiting request keeps its mark:
  the value that the new owner puts into it is thrown away when it is given back, although it was never
  invalidated.\<close>
lemma mark_survives_handover:
  assumes "pool_wf p" and "c \<in> set (pool_cells p)" and "rq_content (pi_callbacks p) = [w]"
    and "pool_recycle t1 (Some c) (pool_invalidate p) = Inr p1"
    and "handle_reset t2 v \<lparr>hd_strategy = UseRecycle, hd_resource_it = Some (Some c)\<rparr> (pi_storage p1) = Inr s"
    and "pool_recycle t3 (Some c) (p1\<lparr>pi_storage := s\<rparr>) = Inr p2"
  shows "id_value (cells (pi_storage p1) c) = None \<and> id_value (cells s c) = Some v
    \<and> c \<in> set (wasted_cells (pi_storage p2)) \<and> id_value (cells (pi_storage p2) c) = None"
proof -
  let ?s = "pi_storage (pool_invalidate p)"
  have inv: "storage_inv (pi_capacity p) (pi_storage p)" "rq_wf (pi_callbacks p)"
    using assms(1) by (simp_all add: pool_wf_def)
  have "c \<notin> set (available_cells (pi_storage p))"
    using assms(2) storage_inv_distinct [OF inv(1)] by (auto simp: all_cells_def)
  then have marked: "waste_on_recycle (cells ?s c)" "used_cells ?s = pool_cells p"
    using assms(2) storage_invalidate_eq [OF storage_inv_distinct [OF inv(1)]]
    by (simp_all add: pool_invalidate_def)
  obtain q where pop: "rq_pop (pi_callbacks p) = (Some (snd w), q)" "ordered_requests q = []"
    using rq_pop_refines(1,2) [OF inv(2)] assms(3)
    by (cases "rq_pop (pi_callbacks p)") (auto simp: rq_content_def)
  have p1: "pi_storage p1 = set_cell c reset_value ?s" "pi_callbacks p1 = q"
    using assms(4) pop(1) marked(1)
    by (auto simp: pool_recycle_def storage_is_valid_def Let_def case_prod_beta pool_invalidate_def)
  moreover have s: "s = set_cell c (\<lambda>i. i\<lparr>id_value := Some v, reset_time := t2\<rparr>) (pi_storage p1)"
    using assms(5) by (simp add: handle_reset_def)
  ultimately show ?thesis
    using assms(2,6) marked pop(2)
    by (auto simp: pool_recycle_def rq_pop_none storage_recycle_def storage_waste_def)
qed

lemma one_waiting_wf: "pool_wf one_waiting" "0 \<in> set (pool_cells one_waiting)"
proof -
  have "conf_inv (one_waiting, [], [102, 101], [])"
    using atomic_reachable_inv [OF atomic_reachable.get [OF one_served_reachable(1), of 11 0 102 5]]
    by (intro conf_inv_reachable) (simp add: one_waiting_def)
  then show "pool_wf one_waiting" by (simp add: conf_inv_def)
  have "pi_storage one_waiting = pi_storage one_served"
    using one_served_lease by (simp add: one_waiting_def pool_get_def get_enqueue_storage)
  then show "0 \<in> set (pool_cells one_waiting)" by (simp add: one_served_eq)
qed

end
