(* ===== verification/Sync_Pool.thy ===== *)
theory Sync_Pool
  imports Resource_Pool
begin

text \<open>
  \<^verbatim>\<open>yamail/resource_pool/sync\<close> with threads: the critical sections of concurrent calls, the condition variable on which \<^verbatim>\<open>get\<close>
  waits, and time. A thread that waits is notified, or its wait ends, or it wakes up for no reason; then it takes the
  mutex again when it gets it, and others may come first.
\<close>

section \<open>Threads\<close>

text \<open>
  \<open>sy_waiting\<close>: threads in \<^verbatim>\<open>wait_for\<close>, with the duration they were called with and the end of this wait; \<open>sy_notified\<close> and
  \<open>sy_timed_out\<close>: threads that have left the wait and not yet got the mutex; \<open>sy_returned\<close>: the results of calls;
  \<open>sy_held\<close>: the cells that users have.
\<close>

record 'v sync_conf =
  sy_now :: int
  sy_pool :: "'v sync_pool"
  sy_waiting :: "(nat \<times> int \<times> int) list"
  sy_notified :: "(nat \<times> int) list"
  sy_timed_out :: "nat list"
  sy_returned :: "(nat \<times> pool_code \<times> cell option) list"
  sy_held :: "cell list"

text \<open>The loop of \<^verbatim>\<open>get\<close> from its start to the wait: a result, or nothing was there.\<close>

definition sync_try :: "int \<Rightarrow> 'v sync_pool \<Rightarrow> (pool_code \<times> cell option) option \<times> 'v sync_pool" where
  "sync_try now p =
     (if sp_disabled p then (Some (pool_disabled, None), p)
      else case lease now (sp_storage p) of
             (Some c, s) \<Rightarrow> (Some (pool_ok, Some c), p\<lparr>sp_storage := s\<rparr>)
           | (None, s) \<Rightarrow> (None, p\<lparr>sp_storage := s\<rparr>))"

definition getter_run :: "nat \<Rightarrow> int \<Rightarrow> 'v sync_conf \<Rightarrow> 'v sync_conf" where
  "getter_run t d S =
     (case sync_try (sy_now S) (sy_pool S) of
        (Some (code, it), p) \<Rightarrow>
          S\<lparr>sy_pool := p, sy_returned := sy_returned S @ [(t, code, it)],
            sy_held := (case it of None \<Rightarrow> sy_held S | Some c \<Rightarrow> c # sy_held S)\<rparr>
      | (None, p) \<Rightarrow> S\<lparr>sy_pool := p, sy_waiting := sy_waiting S @ [(t, d, sy_now S + d)]\<rparr>)"

definition leave_wait :: "nat \<times> int \<times> int \<Rightarrow> 'v sync_conf \<Rightarrow> 'v sync_conf" where
  "leave_wait w S =
     S\<lparr>sy_waiting := remove1 w (sy_waiting S), sy_notified := sy_notified S @ [(fst w, fst (snd w))]\<rparr>"

text \<open>\<^verbatim>\<open>recycle\<close> and \<^verbatim>\<open>waste\<close> give the cell back and notify one thread that waits, \<open>w\<close>, if there is any.\<close>

definition give_back :: "cell \<Rightarrow> 'v sync_pool \<Rightarrow> (nat \<times> int \<times> int) option \<Rightarrow> 'v sync_conf \<Rightarrow> 'v sync_conf" where
  "give_back c p w S =
     (let S = S\<lparr>sy_pool := p, sy_held := remove1 c (sy_held S)\<rparr> in
      case w of None \<Rightarrow> S | Some w \<Rightarrow> leave_wait w S)"

definition disable_all :: "'v sync_conf \<Rightarrow> 'v sync_conf" where
  "disable_all S =
     S\<lparr>sy_pool := sync_disable (sy_pool S), sy_waiting := [],
       sy_notified := sy_notified S @ map (\<lambda>w. (fst w, fst (snd w))) (sy_waiting S)\<rparr>"

definition notifiable :: "(nat \<times> int \<times> int) option \<Rightarrow> 'v sync_conf \<Rightarrow> bool" where
  "notifiable w S = (case w of None \<Rightarrow> sy_waiting S = [] | Some w \<Rightarrow> w \<in> set (sy_waiting S))"

inductive sync_step :: "'v sync_conf \<Rightarrow> 'v sync_conf \<Rightarrow> bool" where
  sy_enter: "sync_step S (getter_run t d S)"
| sy_resume: "(t, d) \<in> set (sy_notified S) \<Longrightarrow> sync_step S (getter_run t d (S\<lparr>sy_notified := remove1 (t, d) (sy_notified S)\<rparr>))"
| sy_spurious: "w \<in> set (sy_waiting S) \<Longrightarrow> sync_step S (leave_wait w S)"
| sy_timeout: "(t, d, e) \<in> set (sy_waiting S) \<Longrightarrow> e \<le> sy_now S \<Longrightarrow>
    sync_step S (S\<lparr>sy_waiting := remove1 (t, d, e) (sy_waiting S), sy_timed_out := sy_timed_out S @ [t]\<rparr>)"
| sy_give_up: "t \<in> set (sy_timed_out S) \<Longrightarrow>
    sync_step S (S\<lparr>sy_timed_out := remove1 t (sy_timed_out S),
                   sy_returned := sy_returned S @ [(t, get_resource_timeout, None)]\<rparr>)"
| sy_recycle: "c \<in> set (sy_held S) \<Longrightarrow> sync_recycle (sy_now S) (Some c) (sy_pool S) = Inr p \<Longrightarrow> notifiable w S \<Longrightarrow>
    sync_step S (give_back c p w S)"
| sy_waste: "c \<in> set (sy_held S) \<Longrightarrow> sync_waste (sy_now S) (Some c) (sy_pool S) = Inr p \<Longrightarrow> notifiable w S \<Longrightarrow>
    sync_step S (give_back c p w S)"
| sy_disable: "sync_step S (disable_all S)"
| sy_invalidate: "sync_step S (S\<lparr>sy_pool := sync_invalidate (sy_pool S)\<rparr>)"
| sy_tick: "0 \<le> k \<Longrightarrow> sync_step S (S\<lparr>sy_now := sy_now S + k\<rparr>)"

definition new_sync_conf :: "'v sync_pool \<Rightarrow> 'v sync_conf" where
  "new_sync_conf p =
     \<lparr>sy_now = 0, sy_pool = p, sy_waiting = [], sy_notified = [], sy_timed_out = [], sy_returned = [], sy_held = []\<rparr>"

inductive sync_reachable :: "nat \<Rightarrow> int \<Rightarrow> int \<Rightarrow> 'v sync_conf \<Rightarrow> bool" for n timeout life where
  sync_start: "new_sync_pool n timeout life = Inr p \<Longrightarrow> sync_reachable n timeout life (new_sync_conf p)"
| sync_next: "sync_reachable n timeout life S \<Longrightarrow> sync_step S S' \<Longrightarrow> sync_reachable n timeout life S'"

section \<open>The loop\<close>

text \<open>The steps of one thread are \<open>sync_get\<close>.\<close>

lemma sync_get_try:
  "sync_get now p waits =
     (case sync_try now p of
        (Some (code, it), p') \<Rightarrow> Some (code, it, p')
      | (None, _) \<Rightarrow>
          (case waits of
             [] \<Rightarrow> None
           | (timed_out, now', p') # waits' \<Rightarrow>
               if timed_out then Some (get_resource_timeout, None, p') else sync_get now' p' waits'))"
  by (subst sync_get.simps) (auto simp: sync_try_def split: prod.splits option.splits list.splits)

section \<open>Invariant\<close>

text \<open>
  Users have the cells that are used. While threads wait, as many are on their way to the mutex as cells are free (\<open>k\<close>
  more, while one of them has it).
\<close>

definition free_cells :: "'v sync_pool \<Rightarrow> nat" where
  "free_cells p = sp_capacity p - sync_used p"

definition sync_inv_but :: "nat \<Rightarrow> nat \<Rightarrow> 'v sync_conf \<Rightarrow> bool" where
  "sync_inv_but k n S \<longleftrightarrow>
     sync_wf (sy_pool S) \<and> sp_capacity (sy_pool S) = n \<and> mset (sy_held S) = mset (used_cells (sp_storage (sy_pool S)))
     \<and> (sy_waiting S \<noteq> [] \<longrightarrow> \<not> sp_disabled (sy_pool S) \<and> free_cells (sy_pool S) \<le> length (sy_notified S) + k)
     \<and> (\<forall>(t, code, it) \<in> set (sy_returned S). code = pool_ok \<longleftrightarrow> it \<noteq> None)"

abbreviation sync_inv :: "nat \<Rightarrow> 'v sync_conf \<Rightarrow> bool" where
  "sync_inv \<equiv> sync_inv_but 0"

lemma sync_used_cells: "sync_used p = length (used_cells (sp_storage p))"
  by (simp add: sync_used_def storage_stats_of_def)

text \<open>What trying does: a disabled pool and a free cell give a result, otherwise all cells are used and nothing changes.\<close>

lemma sync_try_cases:
  assumes "sync_wf p"
  obtains "sp_disabled p" "sync_try now p = (Some (pool_disabled, None), p)"
  | c s where "\<not> sp_disabled p" "sync_try now p = (Some (pool_ok, Some c), p\<lparr>sp_storage := s\<rparr>)"
      "used_cells s = used_cells (sp_storage p) @ [c]" "sync_wf (p\<lparr>sp_storage := s\<rparr>)"
  | "\<not> sp_disabled p" "sync_try now p = (None, p)" "sync_used p = sp_capacity p"
proof (cases "sp_disabled p")
  case False
  have inv: "storage_inv (sp_capacity p) (sp_storage p)" using assms by (simp add: sync_wf_def)
  show ?thesis
  proof (cases "lease now (sp_storage p)")
    case (Pair it s)
    show ?thesis
    proof (cases it)
      case None
      then have "sync_used p = sp_capacity p"
        using lease_fails_iff_all_used [OF inv, of now] Pair by (simp add: sync_used_cells)
      moreover have "s = sp_storage p" using lease_none_eq [of now "sp_storage p"] Pair None by simp
      ultimately show ?thesis using that(3) False Pair None by (simp add: sync_try_def)
    next
      case (Some c)
      then show ?thesis
        using that(2) [of c s] False Pair lease_some_used [of now "sp_storage p" c] storage_inv_lease [OF inv, of now]
        by (simp add: sync_try_def sync_wf_def)
    qed
  qed
qed (simp add: that(1) sync_try_def)

lemma sync_wf_used: "sync_wf p \<Longrightarrow> sync_used p \<le> sp_capacity p"
  using storage_inv_length [of "sp_capacity p" "sp_storage p"] by (simp add: sync_wf_def sync_used_cells)

lemma getter_run_inv:
  assumes "sync_inv_but 1 n S"
  shows "sync_inv n (getter_run t d S)"
proof -
  have wf: "sync_wf (sy_pool S)" using assms by (simp add: sync_inv_but_def)
  show ?thesis
  proof (cases rule: sync_try_cases [OF wf, where now = "sy_now S"])
    case 1
    then show ?thesis using assms by (auto simp: getter_run_def sync_inv_but_def)
  next
    case (2 c s)
    then show ?thesis
      using assms by (auto simp: getter_run_def sync_inv_but_def free_cells_def sync_used_cells)
  next
    case 3
    then show ?thesis using assms by (auto simp: getter_run_def sync_inv_but_def free_cells_def)
  qed
qed

lemma leave_wait_inv: "sync_inv_but 1 n S \<Longrightarrow> sync_inv n (leave_wait w S)"
  by (auto simp: leave_wait_def sync_inv_but_def)

lemma sync_return_cases:
  assumes "sync_wf p" and "sync_recycle now (Some c) p = Inr p' \<or> sync_waste now (Some c) p = Inr p'"
  shows "sync_wf p'" and "sp_capacity p' = sp_capacity p" and "sp_disabled p' = sp_disabled p"
    and "c \<in> set (used_cells (sp_storage p))" and "used_cells (sp_storage p') = remove1 c (used_cells (sp_storage p))"
proof -
  obtain s where s: "storage_recycle now c (sp_storage p) = Inr s \<or> storage_waste c (sp_storage p) = Inr s"
    and p': "p' = p\<lparr>sp_storage := s\<rparr>"
    using assms(2) by (auto simp: sync_recycle_def sync_waste_def rbind_Inr_iff)
  have "storage_inv (sp_capacity p) s"
    using s assms(1) storage_inv_recycle storage_inv_waste by (auto simp: sync_wf_def)
  then show "sync_wf p'" "sp_capacity p' = sp_capacity p" "sp_disabled p' = sp_disabled p" by (simp_all add: p' sync_wf_def)
  show "c \<in> set (used_cells (sp_storage p))" "used_cells (sp_storage p') = remove1 c (used_cells (sp_storage p))"
    using storage_returns_used [of c "sp_storage p" s now] s by (auto simp: p')
qed

lemma give_back_inv:
  assumes inv: "sync_inv n S" and "notifiable w S"
    and ret: "sync_recycle (sy_now S) (Some c) (sy_pool S) = Inr p \<or> sync_waste (sy_now S) (Some c) (sy_pool S) = Inr p"
  shows "sync_inv n (give_back c p w S)"
proof -
  have wf: "sync_wf (sy_pool S)" using inv by (simp add: sync_inv_but_def)
  note ret = sync_return_cases [OF wf ret]
  let ?S = "S\<lparr>sy_pool := p, sy_held := remove1 c (sy_held S)\<rparr>"
  have "free_cells p = free_cells (sy_pool S) + 1"
    using ret sync_wf_used [OF wf] Suc_pred [OF length_pos_if_in_set [OF ret(4)]]
    unfolding free_cells_def sync_used_cells by (simp add: length_remove1)
  then have "sync_inv_but 1 n ?S" and "sy_waiting S = [] \<Longrightarrow> sync_inv n ?S"
    using inv ret by (auto simp: sync_inv_but_def)
  then show ?thesis
    using assms(2) leave_wait_inv by (auto simp: give_back_def notifiable_def split: option.splits)
qed

lemma sync_inv_step: "sync_step S S' \<Longrightarrow> sync_inv n S \<Longrightarrow> sync_inv n S'"
proof (induction rule: sync_step.induct)
  case (sy_enter S t d)
  then show ?case by (intro getter_run_inv) (auto simp: sync_inv_but_def)
next
  case (sy_resume t d S)
  then have "length (remove1 (t, d) (sy_notified S)) + 1 = length (sy_notified S)"
    using length_pos_if_in_set [OF sy_resume.hyps] by (simp add: length_remove1)
  then show ?case using sy_resume by (intro getter_run_inv) (auto simp: sync_inv_but_def)
next
  case (sy_spurious w S)
  then show ?case by (intro leave_wait_inv) (auto simp: sync_inv_but_def)
next
  case (sy_timeout t d e S)
  then have "sy_waiting S \<noteq> []" by auto
  then show ?case using sy_timeout by (auto simp: sync_inv_but_def)
next
  case (sy_give_up t S)
  then show ?case by (auto simp: sync_inv_but_def)
next
  case (sy_recycle c S p w)
  then show ?case by (intro give_back_inv) auto
next
  case (sy_waste c S p w)
  then show ?case by (intro give_back_inv) auto
next
  case (sy_disable S)
  have "sync_wf (sync_disable (sy_pool S)) = sync_wf (sy_pool S)" by (simp add: sync_disable_def sync_wf_def)
  then show ?case using sy_disable by (auto simp: sync_inv_but_def disable_all_def) (simp_all add: sync_disable_def)
next
  case (sy_invalidate S)
  then have inv: "storage_inv (sp_capacity (sy_pool S)) (sp_storage (sy_pool S))"
    unfolding sync_inv_but_def sync_wf_def by blast
  have "used_cells (storage_invalidate (sp_storage (sy_pool S))) = used_cells (sp_storage (sy_pool S))"
    by (simp add: storage_invalidate_eq [OF storage_inv_distinct [OF inv]])
  then show ?case
    using sy_invalidate storage_inv_invalidate [OF inv]
    by (auto simp: sync_inv_but_def sync_invalidate_def sync_wf_def free_cells_def sync_used_cells)
next
  case (sy_tick k S)
  then show ?case by (auto simp: sync_inv_but_def)
qed

lemma sync_inv_reachable: "sync_reachable n timeout life S \<Longrightarrow> sync_inv n S"
proof (induction rule: sync_reachable.induct)
  case (sync_start p)
  then show ?case
    by (auto simp: sync_inv_but_def new_sync_conf_def new_sync_pool_def sync_wf_def storage_inv_new rbind_Inr_iff
        assert_capacity_def split: if_splits)
      (simp add: new_storage_def)
qed (rule sync_inv_step)

section \<open>A wait without end\<close>

text \<open>One cell, held by a user; thread 0 waits, with a whole duration before it.\<close>

definition worn :: "int \<Rightarrow> 'v sync_conf \<Rightarrow> bool" where
  "worn d S \<longleftrightarrow>
     sync_inv 1 S \<and> \<not> sp_disabled (sy_pool S) \<and> sy_held S = [0] \<and> sy_waiting S = [(0, d, sy_now S + d)]
     \<and> sy_notified S = [] \<and> (\<forall>r \<in> set (sy_returned S). fst r \<noteq> 0)"

lemma getter_run_first:
  assumes inv: "sync_inv 1 S" and "\<not> sp_disabled (sy_pool S)" and "sy_held S = []"
  shows "\<exists>p. getter_run t d S = S\<lparr>sy_pool := p, sy_returned := sy_returned S @ [(t, pool_ok, Some 0)], sy_held := [0]\<rparr>
    \<and> \<not> sp_disabled p"
proof -
  have wf: "sync_wf (sy_pool S)" and cap: "sp_capacity (sy_pool S) = 1" and used: "used_cells (sp_storage (sy_pool S)) = []"
    using inv assms(3) by (simp_all add: sync_inv_but_def)
  show ?thesis
  proof (cases rule: sync_try_cases [OF wf, where now = "sy_now S"])
    case (2 c s)
    then have "c < 1" using storage_inv_used [of 1 s c] used cap by (simp add: sync_wf_def)
    then show ?thesis using 2 assms by (auto simp: getter_run_def)
  qed (use assms cap used in \<open>simp_all add: sync_used_cells\<close>)
qed

lemma getter_run_waits:
  assumes inv: "sync_inv_but 1 1 S" and "\<not> sp_disabled (sy_pool S)" and "sy_held S = [0]"
  shows "getter_run t d S = S\<lparr>sy_waiting := sy_waiting S @ [(t, d, sy_now S + d)]\<rparr>"
proof -
  have wf: "sync_wf (sy_pool S)" and cap: "sp_capacity (sy_pool S) = 1"
    and used: "length (used_cells (sp_storage (sy_pool S))) = 1"
    using inv assms(3) mset_eq_length [of "sy_held S" "used_cells (sp_storage (sy_pool S))"] by (simp_all add: sync_inv_but_def)
  show ?thesis
  proof (cases rule: sync_try_cases [OF wf, where now = "sy_now S"])
    case (2 c s)
    then show ?thesis using sync_wf_used [OF 2(4)] cap used by (simp add: sync_used_cells)
  qed (use assms in \<open>simp_all add: getter_run_def\<close>)
qed

text \<open>
  A round: time passes, the cell is given back and the thread is notified, but another thread comes first; then it
  starts a new wait of the whole duration.
\<close>

lemma worn_round:
  assumes "worn d S" and "0 \<le> k"
  shows "\<exists>S'. sync_step\<^sup>*\<^sup>* S S' \<and> worn d S' \<and> sy_now S' = sy_now S + k"
proof -
  let ?S1 = "S\<lparr>sy_now := sy_now S + k\<rparr>" and ?w = "(0 :: nat, d, sy_now S + d)"
  note worn = assms(1) [unfolded worn_def]
  have s1: "sync_step S ?S1" by (rule sy_tick [OF assms(2)])
  then have inv1: "sync_inv 1 ?S1" using sync_inv_step worn by blast
  then have "0 \<in> set (used_cells (sp_storage (sy_pool S)))"
    using worn by (auto simp: sync_inv_but_def dest: mset_eq_setD)
  then obtain p where p: "sync_recycle (sy_now ?S1) (Some 0) (sy_pool ?S1) = Inr p"
    using storage_recycle_used [of 0 "sp_storage (sy_pool S)" "sy_now ?S1"] by (auto simp: sync_recycle_def)
  have wf: "sync_wf (sy_pool ?S1)" using inv1 by (simp add: sync_inv_but_def)
  note p_eq = sync_return_cases [OF wf disjI1 [OF p]]
  define S2 where "S2 = give_back 0 p (Some ?w) ?S1"
  have s2: "sync_step ?S1 S2" unfolding S2_def by (rule sy_recycle) (use p worn in \<open>simp_all add: notifiable_def\<close>)
  then have inv2: "sync_inv 1 S2" using sync_inv_step inv1 by blast
  have S2: "sy_pool S2 = p" "sy_now S2 = sy_now S + k" "sy_held S2 = []" "sy_waiting S2 = []" "sy_notified S2 = [(0, d)]"
      "sy_returned S2 = sy_returned S"
    using worn by (simp_all add: S2_def give_back_def leave_wait_def)
  define S3 where "S3 = getter_run 2 d S2"
  have s3: "sync_step S2 S3" unfolding S3_def by (rule sy_enter)
  then have inv3: "sync_inv 1 S3" using sync_inv_step inv2 by blast
  obtain p3 where "S3 = S2\<lparr>sy_pool := p3, sy_returned := sy_returned S2 @ [(2, pool_ok, Some 0)], sy_held := [0]\<rparr>"
    and p3: "\<not> sp_disabled p3"
    using getter_run_first [OF inv2, of 2 d] worn p_eq S2 by (auto simp: S3_def)
  then have S3: "sy_pool S3 = p3" "sy_now S3 = sy_now S + k" "sy_held S3 = [0]" "sy_waiting S3 = []" "sy_notified S3 = [(0, d)]"
      "sy_returned S3 = sy_returned S @ [(2, pool_ok, Some 0)]"
    by (simp_all add: S2)
  let ?R = "S3\<lparr>sy_notified := []\<rparr>"
  have s4: "sync_step S3 (getter_run 0 d ?R)" using sy_resume [of 0 d S3] by (simp add: S3)
  then have inv4: "sync_inv 1 (getter_run 0 d ?R)" using sync_inv_step inv3 by blast
  have "sync_inv_but 1 1 ?R" using inv3 by (auto simp: sync_inv_but_def S3)
  then have S4: "getter_run 0 d ?R = ?R\<lparr>sy_waiting := [(0, d, sy_now S + k + d)]\<rparr>"
    using getter_run_waits [of ?R 0 d] by (simp add: S3 p3)
  have "worn d (getter_run 0 d ?R)" using inv4 worn p3 by (auto simp: worn_def S4 S3)
  moreover have "sy_now (getter_run 0 d ?R) = sy_now S + k" by (simp add: S4 S3)
  ultimately show ?thesis using s1 s2 s3 s4 by (meson converse_rtranclp_into_rtranclp rtranclp.rtrancl_refl)
qed

lemma worn_rounds:
  assumes "worn d S" and "0 \<le> k"
  shows "\<exists>S'. sync_step\<^sup>*\<^sup>* S S' \<and> worn d S' \<and> sy_now S' = sy_now S + int n * k"
proof (induction n)
  case 0
  then show ?case using assms(1) by auto
next
  case (Suc n)
  then obtain S' where S': "sync_step\<^sup>*\<^sup>* S S'" "worn d S'" "sy_now S' = sy_now S + int n * k" by blast
  then show ?case using worn_round [OF S'(2) assms(2)] by (auto simp: algebra_simps intro: rtranclp_trans)
qed

lemma worn_reachable: "\<exists>S :: 'v sync_conf. sync_reachable 1 timeout life S \<and> worn d S \<and> sy_now S = 0"
proof -
  obtain p where p: "new_sync_pool 1 timeout life = Inr (p :: 'v sync_pool)" by (simp add: new_sync_pool_def assert_capacity_def)
  let ?S0 = "new_sync_conf p"
  have dis: "\<not> sp_disabled p" using p by (auto simp: new_sync_pool_def assert_capacity_def)
  have r0: "sync_reachable 1 timeout life ?S0" by (rule sync_start [OF p])
  define S1 where "S1 = getter_run 2 d ?S0"
  have r1: "sync_reachable 1 timeout life S1" unfolding S1_def by (rule sync_next [OF r0 sy_enter])
  have r2: "sync_reachable 1 timeout life (getter_run 0 d S1)" by (rule sync_next [OF r1 sy_enter])
  obtain q where "S1 = ?S0\<lparr>sy_pool := q, sy_returned := sy_returned ?S0 @ [(2, pool_ok, Some 0)], sy_held := [0]\<rparr>"
    and q: "\<not> sp_disabled q"
    using getter_run_first [OF sync_inv_reachable [OF r0], of 2 d] dis by (auto simp: new_sync_conf_def S1_def)
  then have S1: "sy_pool S1 = q" "sy_now S1 = 0" "sy_held S1 = [0]" "sy_waiting S1 = []" "sy_notified S1 = []"
      "sy_returned S1 = [(2, pool_ok, Some 0)]"
    by (simp_all add: new_sync_conf_def)
  have "sync_inv_but 1 1 S1" using sync_inv_reachable [OF r1] by (auto simp: sync_inv_but_def)
  then have run: "getter_run 0 d S1 = S1\<lparr>sy_waiting := [(0, d, d)]\<rparr>"
    using getter_run_waits [of S1 0 d] by (simp add: S1 q)
  have "worn d (getter_run 0 d S1) \<and> sy_now (getter_run 0 d S1) = 0"
    using sync_inv_reachable [OF r2] q by (simp add: worn_def run S1)
  then show ?thesis using r2 by blast
qed

section \<open>Properties\<close>




text \<open>C40 Liveness. The time limit of a call is not kept: after every wake-up without a cell the wait starts again with the
  whole duration. From a reachable state in which a thread has begun to wait, with any limit, steps lead to states
  arbitrarily much later in which it still waits with the whole limit before it and has not returned, although the
  only cell was given back in every round.\<close>
theorem sync_wait_unbounded:
  "\<exists>S. sync_reachable 1 timeout life (S :: 'v sync_conf) \<and> sy_now S = 0 \<and> sy_waiting S = [(0, int d, int d)]
     \<and> (\<forall>n. \<exists>S'. sync_step\<^sup>*\<^sup>* S S' \<and> sy_now S' = int n * int d \<and> sy_waiting S' = [(0, int d, sy_now S' + int d)]
          \<and> (\<forall>code it. (0, code, it) \<notin> set (sy_returned S')))"
proof -
  obtain S :: "'v sync_conf" where S: "sync_reachable 1 timeout life S" "worn (int d) S" "sy_now S = 0"
    using worn_reachable by blast
  have "\<exists>S'. sync_step\<^sup>*\<^sup>* S S' \<and> sy_now S' = int n * int d \<and> sy_waiting S' = [(0, int d, sy_now S' + int d)]
      \<and> (\<forall>code it. (0, code, it) \<notin> set (sy_returned S'))" for n
    using worn_rounds [OF S(2), of "int d" n] S(3) by (fastforce simp: worn_def)
  then show ?thesis using S by (auto simp: worn_def)
qed

end
