(* ===== verification/Pg_Types.thy ===== *)
theory Pg_Types
  imports Prelude
begin

text \<open>
  The built-in types of PostgreSQL as the library knows them: the table of \<^verbatim>\<open>ozo/pg/definitions.h\<close>
  (name, OID, OID of the array type, size), and which C++ types \<^verbatim>\<open>ozo/pg/types\<close> and
  \<^verbatim>\<open>ozo/ext/std/string.h\<close> bind to them. Sizes and OIDs are used by the input and output of values.
\<close>

section \<open>The table\<close>

datatype pg_size = Bytes int | DynamicSize | NullSize

type_synonym pg_type = "string \<times> int \<times> int option \<times> pg_size"

definition pg_types_null_cstring :: "pg_type list" where
  "pg_types_null_cstring =
    [(''null'', 0, None, NullSize),
     (''aclitem'', 1033, Some 1034, Bytes 12),
     (''any'', 2276, None, Bytes 4),
     (''anyarray'', 2277, None, DynamicSize),
     (''anyelement'', 2283, None, Bytes 4),
     (''anyenum'', 3500, None, Bytes 4),
     (''anynonarray'', 2776, None, Bytes 4),
     (''anyrange'', 3831, None, DynamicSize),
     (''bit'', 1560, Some 1561, DynamicSize),
     (''bool'', 16, Some 1000, Bytes 1),
     (''box'', 603, Some 1020, Bytes 32),
     (''bpchar'', 1042, Some 1014, DynamicSize),
     (''bytea'', 17, Some 1001, DynamicSize),
     (''char'', 18, Some 1002, Bytes 1),
     (''cid'', 29, Some 1012, Bytes 4),
     (''cidr'', 650, Some 651, DynamicSize),
     (''circle'', 718, Some 719, Bytes 24),
     (''cstring'', 2275, Some 1263, DynamicSize)]"

definition pg_types_date_jsonpath :: "pg_type list" where
  "pg_types_date_jsonpath =
    [(''date'', 1082, Some 1182, Bytes 4),
     (''daterange'', 3912, Some 3913, DynamicSize),
     (''event_trigger'', 3838, None, Bytes 4),
     (''fdw_handler'', 3115, None, Bytes 4),
     (''float4'', 700, Some 1021, Bytes 4),
     (''float8'', 701, Some 1022, Bytes 8),
     (''gtsvector'', 3642, Some 3644, DynamicSize),
     (''index_am_handler'', 325, None, Bytes 4),
     (''inet'', 869, Some 1041, DynamicSize),
     (''int2'', 21, Some 1005, Bytes 2),
     (''int2vector'', 22, Some 1006, DynamicSize),
     (''int4'', 23, Some 1007, Bytes 4),
     (''int4range'', 3904, Some 3905, DynamicSize),
     (''int8'', 20, Some 1016, Bytes 8),
     (''int8range'', 3926, Some 3927, DynamicSize),
     (''interval'', 1186, Some 1187, Bytes 16),
     (''json'', 114, Some 199, DynamicSize),
     (''jsonb'', 3802, Some 3807, DynamicSize),
     (''jsonpath'', 4072, Some 4073, DynamicSize)]"

definition pg_types_language_handler_pg_ndistinct :: "pg_type list" where
  "pg_types_language_handler_pg_ndistinct =
    [(''language_handler'', 2280, None, Bytes 4),
     (''line'', 628, Some 629, Bytes 24),
     (''lseg'', 601, Some 1018, Bytes 32),
     (''macaddr'', 829, Some 1040, Bytes 6),
     (''macaddr8'', 774, Some 775, Bytes 8),
     (''money'', 790, Some 791, Bytes 8),
     (''name'', 19, Some 1003, DynamicSize),
     (''numeric'', 1700, Some 1231, DynamicSize),
     (''numrange'', 3906, Some 3907, DynamicSize),
     (''oid'', 26, Some 1028, Bytes 4),
     (''oidvector'', 30, Some 1013, DynamicSize),
     (''opaque'', 2282, None, Bytes 4),
     (''path'', 602, Some 1019, DynamicSize),
     (''pg_attribute'', 75, None, DynamicSize),
     (''pg_class'', 83, None, DynamicSize),
     (''pg_dependencies'', 3402, None, DynamicSize),
     (''pg_lsn'', 3220, Some 3221, Bytes 8),
     (''pg_mcv_list'', 5017, None, DynamicSize),
     (''pg_ndistinct'', 3361, None, DynamicSize)]"

definition pg_types_pg_node_tree_text :: "pg_type list" where
  "pg_types_pg_node_tree_text =
    [(''pg_node_tree'', 194, None, DynamicSize),
     (''pg_proc'', 81, None, DynamicSize),
     (''pg_type'', 71, None, DynamicSize),
     (''point'', 600, Some 1017, Bytes 16),
     (''polygon'', 604, Some 1027, DynamicSize),
     (''record'', 2249, None, DynamicSize),
     (''refcursor'', 1790, Some 2201, DynamicSize),
     (''regclass'', 2205, Some 2210, Bytes 4),
     (''regconfig'', 3734, Some 3735, Bytes 4),
     (''regdictionary'', 3769, Some 3770, Bytes 4),
     (''regnamespace'', 4089, Some 4090, Bytes 4),
     (''regoper'', 2203, Some 2208, Bytes 4),
     (''regoperator'', 2204, Some 2209, Bytes 4),
     (''regproc'', 24, Some 1008, Bytes 4),
     (''regprocedure'', 2202, Some 2207, Bytes 4),
     (''regrole'', 4096, Some 4097, Bytes 4),
     (''regtype'', 2206, Some 2211, Bytes 4),
     (''table_am_handler'', 269, None, Bytes 4),
     (''text'', 25, Some 1009, DynamicSize)]"

definition pg_types_tid_xml :: "pg_type list" where
  "pg_types_tid_xml =
    [(''tid'', 27, Some 1010, Bytes 6),
     (''time'', 1083, Some 1183, Bytes 8),
     (''timestamp'', 1114, Some 1115, Bytes 8),
     (''timestamptz'', 1184, Some 1185, Bytes 8),
     (''timetz'', 1266, Some 1270, Bytes 12),
     (''trigger'', 2279, None, Bytes 4),
     (''tsm_handler'', 3310, None, Bytes 4),
     (''tsquery'', 3615, Some 3645, DynamicSize),
     (''tsrange'', 3908, Some 3909, DynamicSize),
     (''tstzrange'', 3910, Some 3911, DynamicSize),
     (''tsvector'', 3614, Some 3643, DynamicSize),
     (''txid_snapshot'', 2970, Some 2949, DynamicSize),
     (''unknown'', 705, None, DynamicSize),
     (''uuid'', 2950, Some 2951, Bytes 16),
     (''varbit'', 1562, Some 1563, DynamicSize),
     (''varchar'', 1043, Some 1015, DynamicSize),
     (''void'', 2278, None, Bytes 4),
     (''xid'', 28, Some 1011, Bytes 4),
     (''xml'', 142, Some 143, DynamicSize)]"

definition pg_types :: "pg_type list" where
  "pg_types = pg_types_null_cstring @ pg_types_date_jsonpath @ pg_types_language_handler_pg_ndistinct @ pg_types_pg_node_tree_text @ pg_types_tid_xml"

lemmas pg_types_defs = pg_types_def pg_types_null_cstring_def pg_types_date_jsonpath_def pg_types_language_handler_pg_ndistinct_def pg_types_pg_node_tree_text_def pg_types_tid_xml_def


text \<open>\<^verbatim>\<open>array_definition\<close>: the array type of a type that has one; \<^verbatim>\<open>record\<close> has its own definition.\<close>

definition pg_array_oid :: "string \<Rightarrow> int option" where
  "pg_array_oid n =
     (if n = ''record'' then Some 2287
      else case map_of pg_types n of Some (_, array_oid, _) \<Rightarrow> array_oid | None \<Rightarrow> None)"

definition pg_type_oid :: "string \<Rightarrow> int" where
  "pg_type_oid n = (case map_of pg_types n of Some (oid, _) \<Rightarrow> oid | None \<Rightarrow> 0)"

definition pg_type_size :: "string \<Rightarrow> pg_size" where
  "pg_type_size n = (case map_of pg_types n of Some (_, _, s) \<Rightarrow> s | None \<Rightarrow> DynamicSize)"

text \<open>Names are unique, and so are the OIDs of types and array types.\<close>

lemma pg_types_names_distinct: "distinct (map fst pg_types)"
  by code_simp

lemma pg_types_oids_distinct:
  "distinct (map (\<lambda>(_, oid, _). oid) pg_types @ 2287 # List.map_filter (\<lambda>(_, _, a, _). a) pg_types)"
  by code_simp


section \<open>C++ types bound to the built-in types\<close>

datatype base_type =
    bool_t | char_t | int2 | int4 | int8 | oid_type | float4 | float8
  | std_string | bytea | json | pg_name | jsonb

definition bound_name :: "base_type \<Rightarrow> string" where
  "bound_name b =
     (case b of
        bool_t \<Rightarrow> ''bool'' | char_t \<Rightarrow> ''char'' | int2 \<Rightarrow> ''int2'' | int4 \<Rightarrow> ''int4'' | int8 \<Rightarrow> ''int8''
      | oid_type \<Rightarrow> ''oid'' | float4 \<Rightarrow> ''float4'' | float8 \<Rightarrow> ''float8'' | std_string \<Rightarrow> ''varchar''
      | bytea \<Rightarrow> ''bytea'' | json \<Rightarrow> ''json'' | pg_name \<Rightarrow> ''name'' | jsonb \<Rightarrow> ''jsonb'')"

definition base_oid :: "base_type \<Rightarrow> int" where
  "base_oid b = pg_type_oid (bound_name b)"

definition base_array_oid :: "base_type \<Rightarrow> int" where
  "base_array_oid b = (case pg_array_oid (bound_name b) of Some oid \<Rightarrow> oid | None \<Rightarrow> 0)"

definition base_size :: "base_type \<Rightarrow> pg_size" where
  "base_size b = pg_type_size (bound_name b)"

lemma base_oid_simps [simp]:
  "base_oid bool_t = 16" "base_oid char_t = 18" "base_oid int2 = 21" "base_oid int4 = 23"
  "base_oid int8 = 20" "base_oid oid_type = 26" "base_oid float4 = 700" "base_oid float8 = 701"
  "base_oid std_string = 1043" "base_oid bytea = 17" "base_oid json = 114" "base_oid pg_name = 19"
  "base_oid jsonb = 3802"
  by code_simp+

lemma base_array_oid_simps [simp]:
  "base_array_oid bool_t = 1000" "base_array_oid char_t = 1002" "base_array_oid int2 = 1005"
  "base_array_oid int4 = 1007" "base_array_oid int8 = 1016" "base_array_oid oid_type = 1028"
  "base_array_oid float4 = 1021" "base_array_oid float8 = 1022" "base_array_oid std_string = 1015"
  "base_array_oid bytea = 1001" "base_array_oid json = 199" "base_array_oid pg_name = 1003"
  "base_array_oid jsonb = 3807"
  by code_simp+

lemma base_size_simps [simp]:
  "base_size bool_t = Bytes 1" "base_size char_t = Bytes 1" "base_size int2 = Bytes 2"
  "base_size int4 = Bytes 4" "base_size int8 = Bytes 8" "base_size oid_type = Bytes 4"
  "base_size float4 = Bytes 4" "base_size float8 = Bytes 8" "base_size std_string = DynamicSize"
  "base_size bytea = DynamicSize" "base_size json = DynamicSize" "base_size pg_name = DynamicSize"
  "base_size jsonb = DynamicSize"
  by code_simp+

text \<open>A built-in type is known by its OID.\<close>

lemma base_oid_inj: "base_oid a = base_oid b \<Longrightarrow> a = b"
  by (cases a; cases b) simp_all

lemma base_oid_range: "0 < base_oid b \<and> base_oid b < 2 ^ 32" "0 < base_array_oid b \<and> base_array_oid b < 2 ^ 32"
  by (cases b; simp)+

end
