(* ===== verification/Ozo_IO.thy ===== *)
theory Ozo_IO
  imports Pg_Types Ozo_Error
begin

text \<open>
  \<^verbatim>\<open>ozo/io\<close>: values in the binary format of PostgreSQL. Streams and integers in network byte order
  (\<^verbatim>\<open>istream.h\<close>, \<^verbatim>\<open>ostream.h\<close>, \<^verbatim>\<open>detail/endian.h\<close>, \<^verbatim>\<open>detail/float.h\<close>), the size of a value
  (\<^verbatim>\<open>size_of.h\<close>), sending and receiving it (\<^verbatim>\<open>send.h\<close>, \<^verbatim>\<open>recv.h\<close>), arrays and composites
  (\<^verbatim>\<open>array.h\<close>, \<^verbatim>\<open>composite.h\<close>), \<^verbatim>\<open>jsonb\<close>, rows of a result, and the arrays of parameters given to
  libpq (\<^verbatim>\<open>binary_query.h\<close>).

  The templates are instantiated by C++ types; the model describes a type by a datatype and interprets
  it. A floating-point value is its bit pattern, which is what \<^verbatim>\<open>to_integral\<close> and
  \<^verbatim>\<open>to_floating_point\<close> exchange. A null is \<open>None\<close>. What a receiving function writes into already has a
  value, which it may keep. Exceptions are values of the model.
\<close>

unbundle bit_operations_syntax

section \<open>Byte order (detail/endian.h)\<close>

definition byte_order_swap :: "nat \<Rightarrow> nat \<Rightarrow> nat" where
  "byte_order_swap n v =
     foldr (\<lambda>N r. push_bit ((n - 1 - N) * 8) (drop_bit (N * 8) v AND 255) OR r) [0..<n] 0"

text \<open>A value of \<open>n\<close> bytes converted to the unsigned type of that size, and back to the signed one.\<close>

definition to_unsigned :: "nat \<Rightarrow> int \<Rightarrow> nat" where
  "to_unsigned n v = nat (v mod 2 ^ (8 * n))"

definition to_signed :: "nat \<Rightarrow> nat \<Rightarrow> int" where
  "to_signed n u = (if 2 * int u < 2 ^ (8 * n) then int u else int u - 2 ^ (8 * n))"

definition convert_to_big_endian :: "nat \<Rightarrow> int \<Rightarrow> nat" where
  "convert_to_big_endian n v = byte_order_swap n (to_unsigned n v)"

definition convert_from_big_endian :: "nat \<Rightarrow> nat \<Rightarrow> nat" where
  "convert_from_big_endian n u = byte_order_swap n u"

text \<open>\<^verbatim>\<open>typed_buffer\<close>: the bytes of the swapped value as they lie in memory.\<close>

definition write_int :: "nat \<Rightarrow> int \<Rightarrow> bytes" where
  "write_int n v = le_encode n (convert_to_big_endian n v)"

definition read_int :: "bytes \<Rightarrow> nat" where
  "read_int bs = convert_from_big_endian (length bs) (le_decode bs)"

lemma bit_255: "bit (255 :: nat) i \<longleftrightarrow> i < 8"
proof -
  have "(255 :: nat) = mask 8" by (simp add: mask_eq_exp_minus_1)
  then show ?thesis by (simp only: bit_mask_iff) auto
qed

lemma bit_swap_iff:
  "bit (byte_order_swap n v) i \<longleftrightarrow>
   (\<exists>N < n. (n - 1 - N) * 8 \<le> i \<and> i - (n - 1 - N) * 8 < 8 \<and> bit v (N * 8 + (i - (n - 1 - N) * 8)))"
proof -
  have "bit (foldr (\<lambda>N r. push_bit ((n - 1 - N) * 8) (drop_bit (N * 8) v AND 255) OR r) Ns 0) i
      \<longleftrightarrow> (\<exists>N \<in> set Ns. bit (push_bit ((n - 1 - N) * 8) (drop_bit (N * 8) v AND 255)) i)" for Ns
    by (induction Ns) (auto simp: bit_or_iff)
  then show ?thesis
    unfolding byte_order_swap_def
    by (auto simp: bit_push_bit_iff bit_and_iff bit_drop_bit_eq bit_255 simp del: push_bit_and)
qed

lemma bit_byte_order_swap:
  assumes "j < 8" and "k < n"
  shows "bit (byte_order_swap n v) (k * 8 + j) = bit v ((n - 1 - k) * 8 + j)"
proof -
  let ?m = "n - 1 - k"
  have "(n - 1 - N) * 8 \<le> k * 8 + j \<and> k * 8 + j - (n - 1 - N) * 8 < 8 \<longleftrightarrow> N = ?m" if "N < n" for N
    using that assms by linarith
  then have "bit (byte_order_swap n v) (k * 8 + j) \<longleftrightarrow>
      (\<exists>N < n. N = ?m \<and> bit v (N * 8 + (k * 8 + j - (n - 1 - N) * 8)))"
    unfolding bit_swap_iff by blast
  moreover have "k * 8 + j - (n - 1 - ?m) * 8 = j" using assms(2) by simp
  moreover have "?m < n" using assms(2) by simp
  ultimately show ?thesis by auto
qed

lemma byte_order_swap_lt: "byte_order_swap n v < 2 ^ (8 * n)"
proof -
  have "take_bit (8 * n) (byte_order_swap n v) = byte_order_swap n v"
    by (rule bit_eqI) (auto simp: bit_take_bit_iff bit_swap_iff)
  then show ?thesis by (simp add: take_bit_nat_eq_self_iff)
qed

lemma nth_le_encode: "k < n \<Longrightarrow> le_encode n v ! k = word_of_nat (drop_bit (k * 8) v)"
proof (induction n arbitrary: v k)
  case (Suc n)
  show ?case
  proof (cases k)
    case (Suc m)
    then have "le_encode (Suc n) v ! k = word_of_nat (drop_bit (m * 8) (v div 256))"
      using Suc.IH [of m "v div 256"] Suc.prems by simp
    moreover have "drop_bit (k * 8) v = drop_bit (m * 8) (v div 256)"
      by (simp add: \<open>k = Suc m\<close> drop_bit_eq_div power_add div_mult2_eq)
    ultimately show ?thesis by simp
  qed simp
qed simp

text \<open>Swapping the bytes of a value reverses its representation in memory.\<close>

lemma le_encode_swap: "le_encode n (byte_order_swap n v) = rev (le_encode n v)"
proof (rule nth_equalityI)
  fix k
  assume "k < length (le_encode n (byte_order_swap n v))"
  then have k: "k < n" by simp
  have "(word_of_nat (drop_bit (k * 8) (byte_order_swap n v)) :: byte) =
      word_of_nat (drop_bit ((n - 1 - k) * 8) v)"
    using k by (intro bit_word_eqI)
      (simp add: bit_simps bit_byte_order_swap del: diff_diff_left)
  then show "le_encode n (byte_order_swap n v) ! k = rev (le_encode n v) ! k"
    using k by (simp add: rev_nth nth_le_encode)
qed simp

lemma le_decode_mod: "le_decode (le_encode n v) = v mod 2 ^ (8 * n)"
  by (simp add: le_decode_encode power_mult)

lemma to_unsigned_lt: "to_unsigned n v < 2 ^ (8 * n)"
  by (simp add: to_unsigned_def nat_less_iff)

lemma length_write_int [simp]: "length (write_int n v) = n"
  by (simp add: write_int_def)

lemma read_write_int: "read_int (write_int n v) = to_unsigned n v"
proof -
  have "le_encode n (read_int (write_int n v)) = le_encode n (to_unsigned n v)"
  proof -
    have "le_encode n (le_decode (write_int n v)) = write_int n v"
      using le_encode_decode [of "write_int n v"] by simp
    then show ?thesis
      by (simp add: read_int_def convert_from_big_endian_def le_encode_swap)
        (simp add: write_int_def convert_to_big_endian_def le_encode_swap)
  qed
  from arg_cong [OF this, of le_decode]
  have "read_int (write_int n v) mod 2 ^ (8 * n) = to_unsigned n v"
    using to_unsigned_lt [of n v] by (simp add: le_decode_mod)
  moreover have "read_int (write_int n v) < 2 ^ (8 * n)"
    using byte_order_swap_lt by (simp add: read_int_def convert_from_big_endian_def)
  ultimately show ?thesis by simp
qed


lemma to_signed_unsigned:
  assumes "- (2 ^ (8 * n)) \<le> 2 * v" and "2 * v < 2 ^ (8 * n)"
  shows "to_signed n (to_unsigned n v) = v"
proof (cases "0 \<le> v")
  case True
  then show ?thesis using assms by (simp add: to_signed_def to_unsigned_def nat_mod_distrib nat_power_eq)
next
  case False
  have "v mod 2 ^ (8 * n) = v + 2 ^ (8 * n)"
    using assms False by (intro mod_pos_pos_trivial [THEN trans [OF mod_add_self2 [symmetric]]]) auto
  then show ?thesis using assms False by (simp add: to_signed_def to_unsigned_def)
qed

lemma to_unsigned_id: "0 \<le> v \<Longrightarrow> v < 2 ^ (8 * n) \<Longrightarrow> int (to_unsigned n v) = v"
  by (simp add: to_unsigned_def)

section \<open>Types and values\<close>

text \<open>
  A C++ type as the library classifies it: bound to a built-in type, an array (\<^verbatim>\<open>std::vector\<close>), an array of
  fixed size (\<^verbatim>\<open>std::array\<close>), or a composite with its registered name; plain or nullable. A value
  matches the structure of its type; \<open>None\<close> is the null of a nullable.
\<close>

datatype pty = TBase base_type | TArray ty | TStdArray nat ty | TComposite string "ty list"
  and ty = Plain pty | Nullable pty

datatype val = VBool bool | VInt int | VFloat int | VBytes bytes | VList "val option list"

primrec unwrap_type :: "ty \<Rightarrow> pty" where
  "unwrap_type (Plain p) = p"
| "unwrap_type (Nullable p) = p"

primrec is_nullable :: "ty \<Rightarrow> bool" where
  "is_nullable (Plain p) = False"
| "is_nullable (Nullable p) = True"

text \<open>How a built-in value is read and written: \<open>IntegerType n is_signed\<close> has \<open>n\<close> bytes.\<close>

datatype base_kind = BoolType | IntegerType nat bool | FloatType nat | RawData | JsonbType

definition kind_of :: "base_type \<Rightarrow> base_kind" where
  "kind_of b =
     (case b of
        bool_t \<Rightarrow> BoolType | char_t \<Rightarrow> IntegerType 1 True | int2 \<Rightarrow> IntegerType 2 True
      | int4 \<Rightarrow> IntegerType 4 True | int8 \<Rightarrow> IntegerType 8 True | oid_type \<Rightarrow> IntegerType 4 False
      | float4 \<Rightarrow> FloatType 4 | float8 \<Rightarrow> FloatType 8 | std_string \<Rightarrow> RawData | bytea \<Rightarrow> RawData
      | json \<Rightarrow> RawData | pg_name \<Rightarrow> RawData | jsonb \<Rightarrow> JsonbType)"

definition int_in_range :: "nat \<Rightarrow> bool \<Rightarrow> int \<Rightarrow> bool" where
  "int_in_range n is_signed v =
     (if is_signed then - (2 ^ (8 * n)) \<le> 2 * v \<and> 2 * v < 2 ^ (8 * n) else 0 \<le> v \<and> v < 2 ^ (8 * n))"

fun has_base :: "base_kind \<Rightarrow> val \<Rightarrow> bool" where
  "has_base BoolType (VBool b) = True"
| "has_base (IntegerType n is_signed) (VInt v) = int_in_range n is_signed v"
| "has_base (FloatType n) (VFloat v) = int_in_range n True v"
| "has_base RawData (VBytes bs) = True"
| "has_base JsonbType (VBytes bs) = True"
| "has_base _ _ = False"

fun has_pty :: "pty \<Rightarrow> val \<Rightarrow> bool"
  and has_ty :: "ty \<Rightarrow> val option \<Rightarrow> bool"
  and have_tys :: "ty list \<Rightarrow> val option list \<Rightarrow> bool"
  and all_have_ty :: "ty \<Rightarrow> val option list \<Rightarrow> bool" where
  "has_pty (TBase b) v = has_base (kind_of b) v"
| "has_pty (TArray t) v = (case v of VList vs \<Rightarrow> all_have_ty t vs | _ \<Rightarrow> False)"
| "has_pty (TStdArray n t) v = (case v of VList vs \<Rightarrow> length vs = n \<and> all_have_ty t vs | _ \<Rightarrow> False)"
| "has_pty (TComposite nm ts) v = (case v of VList vs \<Rightarrow> have_tys ts vs | _ \<Rightarrow> False)"
| "has_ty (Plain p) v = (case v of Some x \<Rightarrow> has_pty p x | None \<Rightarrow> False)"
| "has_ty (Nullable p) v = (case v of Some x \<Rightarrow> has_pty p x | None \<Rightarrow> True)"
| "have_tys [] vs = (vs = [])"
| "have_tys (t # ts) vs = (case vs of v # vs \<Rightarrow> has_ty t v \<and> have_tys ts vs | [] \<Rightarrow> False)"
| "all_have_ty t [] = True"
| "all_have_ty t (v # vs) = (has_ty t v \<and> all_have_ty t vs)"

section \<open>OIDs (type_traits.h)\<close>

text \<open>
  Built-in types have constant OIDs; the OIDs of the others are in the map of the connection, which
  starts with 0 for each registered type.
\<close>

type_synonym oid_map = "pty \<Rightarrow> int"

definition pty_oid :: "oid_map \<Rightarrow> pty \<Rightarrow> int" where
  "pty_oid om p =
     (case p of
        TBase b \<Rightarrow> base_oid b
      | TArray t \<Rightarrow> (case unwrap_type t of TBase b \<Rightarrow> base_array_oid b | _ \<Rightarrow> om p)
      | TStdArray n t \<Rightarrow> (case unwrap_type t of TBase b \<Rightarrow> base_array_oid b | _ \<Rightarrow> om p)
      | TComposite nm ts \<Rightarrow> om p)"

definition type_oid :: "oid_map \<Rightarrow> ty \<Rightarrow> int" where
  "type_oid om t = pty_oid om (unwrap_type t)"

definition set_type_oid :: "oid_map \<Rightarrow> pty \<Rightarrow> int \<Rightarrow> oid_map" where
  "set_type_oid om p oid = om(p := oid)"

definition accepts_oid :: "oid_map \<Rightarrow> ty \<Rightarrow> int \<Rightarrow> bool" where
  "accepts_oid om t oid = (type_oid om t = oid)"

section \<open>Sizes (size_of.h, array.h, composite.h, jsonb.h)\<close>

text \<open>\<^verbatim>\<open>size_type\<close> is a signed 32-bit integer; what does not fit wraps when it is converted.\<close>

definition size_type :: "int \<Rightarrow> int" where
  "size_type x = (x + 2 ^ 31) mod 2 ^ 32 - 2 ^ 31"

definition null_state_size :: int where "null_state_size = - 1"

definition size_of_base :: "base_type \<Rightarrow> val \<Rightarrow> int" where
  "size_of_base b v =
     (case kind_of b of
        JsonbType \<Rightarrow> (case v of VBytes bs \<Rightarrow> int (length bs) + 1 | _ \<Rightarrow> 0)
      | _ \<Rightarrow>
          (case base_size b of
             Bytes n \<Rightarrow> n
           | _ \<Rightarrow> (case v of VBytes bs \<Rightarrow> int (length bs) | _ \<Rightarrow> 0)))"

definition static_size :: "ty \<Rightarrow> bool" where
  "static_size t =
     (case unwrap_type t of TBase b \<Rightarrow> (case base_size b of Bytes n \<Rightarrow> True | _ \<Rightarrow> False) | _ \<Rightarrow> False)"

definition data_frame_of :: "int \<Rightarrow> int" where
  "data_frame_of n = size_type (4 + max n 0)"

definition frame_of :: "int \<Rightarrow> int" where
  "frame_of n = size_type (4 + data_frame_of n)"

text \<open>The data of an array: when the element type has a fixed size, only the first element is looked at.\<close>

definition array_data_size :: "ty \<Rightarrow> int list \<Rightarrow> int" where
  "array_data_size t sizes =
     (if static_size t
      then (case sizes of [] \<Rightarrow> 0 | s # _ \<Rightarrow> size_type (data_frame_of s * int (length sizes)))
      else fold (\<lambda>s r. size_type (r + data_frame_of s)) sizes 0)"

fun size_of_impl :: "pty \<Rightarrow> val \<Rightarrow> int"
  and size_of :: "ty \<Rightarrow> val option \<Rightarrow> int"
  and item_sizes :: "ty \<Rightarrow> val option list \<Rightarrow> int list"
  and field_sizes :: "ty list \<Rightarrow> val option list \<Rightarrow> int list" where
  "size_of_impl (TBase b) v = size_of_base b v"
| "size_of_impl (TArray t) v =
     (case v of VList vs \<Rightarrow> 12 + 8 + array_data_size t (item_sizes t vs) | _ \<Rightarrow> 0)"
| "size_of_impl (TStdArray n t) v =
     (case v of VList vs \<Rightarrow> 12 + 8 + array_data_size t (item_sizes t vs) | _ \<Rightarrow> 0)"
| "size_of_impl (TComposite nm ts) v =
     (case v of VList vs \<Rightarrow> 4 + fold (\<lambda>s r. size_type (r + frame_of s)) (field_sizes ts vs) 0 | _ \<Rightarrow> 0)"
| "size_of (Plain p) v = (case v of None \<Rightarrow> null_state_size | Some x \<Rightarrow> size_type (size_of_impl p x))"
| "size_of (Nullable p) v = (case v of None \<Rightarrow> null_state_size | Some x \<Rightarrow> size_type (size_of_impl p x))"
| "item_sizes t [] = []"
| "item_sizes t (v # vs) = size_of t v # item_sizes t vs"
| "field_sizes [] vs = []"
| "field_sizes (t # ts) vs = (case vs of v # vs \<Rightarrow> size_of t v # field_sizes ts vs | [] \<Rightarrow> [])"

definition data_frame_size :: "ty \<Rightarrow> val option \<Rightarrow> int" where
  "data_frame_size t v = data_frame_of (size_of t v)"

definition frame_size :: "ty \<Rightarrow> val option \<Rightarrow> int" where
  "frame_size t v = frame_of (size_of t v)"


section \<open>Sending (ostream.h, send.h, array.h, composite.h, jsonb.h)\<close>

definition write_bool :: "bool \<Rightarrow> bytes" where
  "write_bool b = write_int 1 (if b then 1 else 0)"

fun send_base :: "base_kind \<Rightarrow> val \<Rightarrow> bytes" where
  "send_base BoolType (VBool b) = write_bool b"
| "send_base (IntegerType n is_signed) (VInt v) = write_int n v"
| "send_base (FloatType n) (VFloat v) = write_int n v"
| "send_base RawData (VBytes bs) = bs"
| "send_base JsonbType (VBytes bs) = write_int 1 1 @ bs"
| "send_base _ _ = []"

text \<open>The headers: dimensions, data offset and element type; then length and lower bound.\<close>

definition write_pg_array :: "int \<Rightarrow> bytes" where
  "write_pg_array elemtype = write_int 4 1 @ write_int 4 0 @ write_int 4 elemtype"

definition write_pg_array_dimension :: "int \<Rightarrow> bytes" where
  "write_pg_array_dimension n = write_int 4 n @ write_int 4 0"

definition write_pg_composite :: "int \<Rightarrow> bytes" where
  "write_pg_composite count = write_int 4 count"

fun send_impl :: "oid_map \<Rightarrow> pty \<Rightarrow> val \<Rightarrow> bytes"
  and send :: "oid_map \<Rightarrow> ty \<Rightarrow> val option \<Rightarrow> bytes"
  and send_items :: "oid_map \<Rightarrow> ty \<Rightarrow> val option list \<Rightarrow> bytes"
  and send_fields :: "oid_map \<Rightarrow> ty list \<Rightarrow> val option list \<Rightarrow> bytes" where
  "send_impl om (TBase b) v = send_base (kind_of b) v"
| "send_impl om (TArray t) v =
     (case v of VList vs \<Rightarrow>
        write_pg_array (type_oid om t) @ write_pg_array_dimension (int (length vs)) @ send_items om t vs
      | _ \<Rightarrow> [])"
| "send_impl om (TStdArray n t) v =
     (case v of VList vs \<Rightarrow>
        write_pg_array (type_oid om t) @ write_pg_array_dimension (int (length vs)) @ send_items om t vs
      | _ \<Rightarrow> [])"
| "send_impl om (TComposite nm ts) v =
     (case v of VList vs \<Rightarrow> write_pg_composite (int (length ts)) @ send_fields om ts vs | _ \<Rightarrow> [])"
| "send om (Plain p) v = (case v of None \<Rightarrow> [] | Some x \<Rightarrow> send_impl om p x)"
| "send om (Nullable p) v = (case v of None \<Rightarrow> [] | Some x \<Rightarrow> send_impl om p x)"
| "send_items om t [] = []"
| "send_items om t (v # vs) = write_int 4 (size_of t v) @ send om t v @ send_items om t vs"
| "send_fields om [] vs = []"
| "send_fields om (t # ts) vs =
     (case vs of v # vs \<Rightarrow>
        write_int 4 (type_oid om t) @ write_int 4 (size_of t v) @ send om t v @ send_fields om ts vs
      | [] \<Rightarrow> [])"

definition send_data_frame :: "oid_map \<Rightarrow> ty \<Rightarrow> val option \<Rightarrow> bytes" where
  "send_data_frame om t v = write_int 4 (size_of t v) @ send om t v"

definition send_frame :: "oid_map \<Rightarrow> ty \<Rightarrow> val option \<Rightarrow> bytes" where
  "send_frame om t v = write_int 4 (type_oid om t) @ send_data_frame om t v"

lemma send_items_frames: "send_items om t vs = concat (map (send_data_frame om t) vs)"
  by (induction vs) (simp_all add: send_data_frame_def)

lemma length_headers [simp]:
  "length (write_pg_array e) = 12" "length (write_pg_array_dimension n) = 8" "length (write_pg_composite n) = 4"
  by (simp_all add: write_pg_array_def write_pg_array_dimension_def write_pg_composite_def)

section \<open>Receiving (istream.h, recv.h, array.h, composite.h, jsonb.h)\<close>

datatype io_exception = SystemError ozo_error | InvalidArgument | RangeError | LengthError

record istream =
  is_rest :: bytes
  is_unexpected_eof :: bool

definition new_istream :: "bytes \<Rightarrow> istream" where
  "new_istream bs = \<lparr>is_rest = bs, is_unexpected_eof = False\<rparr>"

definition istream_read :: "nat \<Rightarrow> istream \<Rightarrow> bytes \<times> istream" where
  "istream_read n s =
     (let bs = take n (is_rest s);
          s = s\<lparr>is_rest := drop n (is_rest s)\<rparr> in
      (bs, if length bs \<noteq> n then s\<lparr>is_unexpected_eof := True\<rparr> else s))"

text \<open>The members of a structure are read one after the other; \<^verbatim>\<open>read\<close> checks the stream afterwards.\<close>

fun istream_read_members :: "nat list \<Rightarrow> istream \<Rightarrow> bytes list \<times> istream" where
  "istream_read_members [] s = ([], s)"
| "istream_read_members (n # ns) s =
     (let (bs, s) = istream_read n s; (bss, s) = istream_read_members ns s in (bs # bss, s))"

definition read_members :: "nat list \<Rightarrow> istream \<Rightarrow> io_exception + bytes list \<times> istream" where
  "read_members ns s =
     (let (bss, s) = istream_read_members ns s in
      if is_unexpected_eof s then Inl (SystemError unexpected_eof) else Inr (bss, s))"

definition read_data :: "nat \<Rightarrow> istream \<Rightarrow> io_exception + bytes \<times> istream" where
  "read_data n s =
     (let (bs, s) = istream_read n s in
      if is_unexpected_eof s then Inl (SystemError unexpected_eof) else Inr (bs, s))"

definition read_int32 :: "istream \<Rightarrow> io_exception + int \<times> istream" where
  "read_int32 s = rbind (read_data 4 s) (\<lambda>(bs, s). Inr (to_signed 4 (read_int bs), s))"

definition read_oid :: "istream \<Rightarrow> io_exception + int \<times> istream" where
  "read_oid s = rbind (read_data 4 s) (\<lambda>(bs, s). Inr (int (read_int bs), s))"

fun read_base :: "base_kind \<Rightarrow> bytes \<Rightarrow> val" where
  "read_base BoolType bs = VBool (read_int bs \<noteq> 0)"
| "read_base (IntegerType n is_signed) bs = VInt (if is_signed then to_signed n (read_int bs) else int (read_int bs))"
| "read_base (FloatType n) bs = VFloat (to_signed n (read_int bs))"
| "read_base _ bs = VBytes bs"

text \<open>
  \<^verbatim>\<open>recv_impl\<close> for a built-in type. A negative size that is not the null marker makes \<^verbatim>\<open>resize\<close> throw.
\<close>

definition recv_base :: "base_type \<Rightarrow> int \<Rightarrow> istream \<Rightarrow> io_exception + val \<times> istream" where
  "recv_base b n s =
     (case kind_of b of
        JsonbType \<Rightarrow>
          if n < 1 then Inl RangeError
          else rbind (read_data 1 s) (\<lambda>(_, s).
               rbind (read_data (nat (n - 1)) s) (\<lambda>(bs, s). Inr (VBytes bs, s)))
      | k \<Rightarrow>
          (case base_size b of
             Bytes m \<Rightarrow>
               if n \<noteq> m then Inl (SystemError bad_object_size)
               else rbind (read_data (nat m) s) (\<lambda>(bs, s). Inr (read_base k bs, s))
           | _ \<Rightarrow>
               if n < 0 then Inl LengthError
               else rbind (read_data (nat n) s) (\<lambda>(bs, s). Inr (read_base k bs, s))))"

fun default_base :: "base_kind \<Rightarrow> val" where
  "default_base BoolType = VBool False"
| "default_base (IntegerType n is_signed) = VInt 0"
| "default_base (FloatType n) = VFloat 0"
| "default_base RawData = VBytes []"
| "default_base JsonbType = VBytes []"

fun default_pty :: "pty \<Rightarrow> val" and default_ty :: "ty \<Rightarrow> val option" and default_tys :: "ty list \<Rightarrow> val option list" where
  "default_pty (TBase b) = default_base (kind_of b)"
| "default_pty (TArray t) = VList []"
| "default_pty (TStdArray n t) = VList (replicate n (default_ty t))"
| "default_pty (TComposite nm ts) = VList (default_tys ts)"
| "default_ty (Plain p) = Some (default_pty p)"
| "default_ty (Nullable p) = None"
| "default_tys [] = []"
| "default_tys (t # ts) = default_ty t # default_tys ts"

text \<open>\<^verbatim>\<open>fit_array_size\<close>: a vector is resized, an array of fixed size must have the size already.\<close>

definition fit_vector :: "ty \<Rightarrow> int \<Rightarrow> val option list \<Rightarrow> io_exception + val option list" where
  "fit_vector t n vs =
     (if n < 0 then Inl LengthError
      else Inr (take (nat n) vs @ replicate (nat n - length vs) (default_ty t)))"

definition fit_array :: "int \<Rightarrow> val option list \<Rightarrow> io_exception + val option list" where
  "fit_array n vs = (if n \<noteq> int (length vs) then Inl (SystemError bad_array_size) else Inr vs)"

text \<open>The two headers of an array; \<open>None\<close> when there are no elements to read.\<close>

definition recv_array_header :: "oid_map \<Rightarrow> ty \<Rightarrow> istream \<Rightarrow> io_exception + int option \<times> istream" where
  "recv_array_header om t s =
     rbind (read_members [4, 4, 4] s) (\<lambda>(hd, s).
     let dimensions = to_signed 4 (read_int (hd ! 0));
         elemtype = int (read_int (hd ! 2)) in
     if dimensions > 1 then Inl (SystemError bad_array_dimension)
     else if \<not> accepts_oid om (Plain (unwrap_type t)) elemtype then Inl (SystemError oid_type_mismatch)
     else if dimensions < 1 then Inr (None, s)
     else rbind (read_members [4, 4] s) (\<lambda>(dim, s).
          let n = to_signed 4 (read_int (dim ! 0)) in
          Inr (if n = 0 then None else Some n, s)))"

definition list_of_val :: "val \<Rightarrow> val option list" where
  "list_of_val v = (case v of VList vs \<Rightarrow> vs | _ \<Rightarrow> [])"

definition out_of :: "pty \<Rightarrow> val option \<Rightarrow> val" where
  "out_of p out = (case out of Some v \<Rightarrow> v | None \<Rightarrow> default_pty p)"

function recv_impl :: "oid_map \<Rightarrow> pty \<Rightarrow> int \<Rightarrow> istream \<Rightarrow> val \<Rightarrow> io_exception + val \<times> istream"
  and recv :: "oid_map \<Rightarrow> ty \<Rightarrow> int option \<Rightarrow> int \<Rightarrow> istream \<Rightarrow> val option \<Rightarrow> io_exception + val option \<times> istream"
  and recv_items :: "oid_map \<Rightarrow> ty \<Rightarrow> istream \<Rightarrow> val option list \<Rightarrow> io_exception + val option list \<times> istream"
  and recv_fields :: "oid_map \<Rightarrow> ty list \<Rightarrow> istream \<Rightarrow> val option list \<Rightarrow> io_exception + val option list \<times> istream" where
  "recv_impl om (TBase b) n s out = recv_base b n s"
| "recv_impl om (TArray t) n s out =
     rbind (recv_array_header om t s) (\<lambda>(count, s).
     case count of
       None \<Rightarrow> Inr (out, s)
     | Some k \<Rightarrow>
         rbind (fit_vector t k (list_of_val out)) (\<lambda>items.
         rbind (recv_items om t s items) (\<lambda>(vs, s). Inr (VList vs, s))))"
| "recv_impl om (TStdArray m t) n s out =
     rbind (recv_array_header om t s) (\<lambda>(count, s).
     case count of
       None \<Rightarrow> Inr (out, s)
     | Some k \<Rightarrow>
         rbind (fit_array k (list_of_val out)) (\<lambda>items.
         rbind (recv_items om t s items) (\<lambda>(vs, s). Inr (VList vs, s))))"
| "recv_impl om (TComposite nm ts) n s out =
     rbind (read_int32 s) (\<lambda>(count, s).
     if count \<noteq> int (length ts) then Inl (SystemError bad_composite_size)
     else rbind (recv_fields om ts s (list_of_val out)) (\<lambda>(vs, s). Inr (VList vs, s)))"
| "recv om (Nullable p) oid n s out =
     (if n = null_state_size then Inr (None, s)
      else if (case oid of Some i \<Rightarrow> \<not> accepts_oid om (Nullable p) i | None \<Rightarrow> False)
      then Inl (SystemError oid_type_mismatch)
      else rbind (recv_impl om p n s (out_of p out)) (\<lambda>(v, s). Inr (Some v, s)))"
| "recv om (Plain p) oid n s out =
     (if (case oid of Some i \<Rightarrow> \<not> accepts_oid om (Plain p) i | None \<Rightarrow> False)
      then Inl (SystemError oid_type_mismatch)
      else if n = null_state_size then Inl InvalidArgument
      else rbind (recv_impl om p n s (out_of p out)) (\<lambda>(v, s). Inr (Some v, s)))"
| "recv_items om t s [] = Inr ([], s)"
| "recv_items om t s (v # vs) =
     rbind (read_int32 s) (\<lambda>(n, s).
     rbind (recv om t None n s v) (\<lambda>(v, s).
     rbind (recv_items om t s vs) (\<lambda>(vs, s). Inr (v # vs, s))))"
| "recv_fields om [] s vs = Inr ([], s)"
| "recv_fields om (t # ts) s vs =
     rbind (read_oid s) (\<lambda>(oid, s).
     rbind (read_int32 s) (\<lambda>(n, s).
     rbind (recv om t (Some oid) n s (hd vs)) (\<lambda>(v, s).
     rbind (recv_fields om ts s (tl vs)) (\<lambda>(vs, s). Inr (v # vs, s)))))"
  by pat_completeness auto
termination
  by (relation "measures
      [\<lambda>x. case x of
          Inl (Inl (om, p, n, s, out)) \<Rightarrow> size p | Inl (Inr (om, t, oid, n, s, out)) \<Rightarrow> size t
        | Inr (Inl (om, t, s, vs)) \<Rightarrow> size t | Inr (Inr (om, ts, s, vs)) \<Rightarrow> size_list size ts,
       \<lambda>x. case x of Inr (Inl (om, t, s, vs)) \<Rightarrow> Suc (length vs) | _ \<Rightarrow> 0]")
    simp_all


section \<open>Sizes are the lengths of what is sent\<close>

text \<open>
  No array of nullable elements of a fixed size occurs in the type: for those the size is computed from the
  first element alone.
\<close>

fun sized_pty :: "pty \<Rightarrow> bool" and sized_ty :: "ty \<Rightarrow> bool" and sized_tys :: "ty list \<Rightarrow> bool" where
  "sized_pty (TBase b) = True"
| "sized_pty (TArray t) = (sized_ty t \<and> \<not> (static_size t \<and> is_nullable t))"
| "sized_pty (TStdArray n t) = (sized_ty t \<and> \<not> (static_size t \<and> is_nullable t))"
| "sized_pty (TComposite nm ts) = sized_tys ts"
| "sized_ty (Plain p) = sized_pty p"
| "sized_ty (Nullable p) = sized_pty p"
| "sized_tys [] = True"
| "sized_tys (t # ts) = (sized_ty t \<and> sized_tys ts)"

lemma size_type_id: "- (2 ^ 31) \<le> x \<Longrightarrow> x < 2 ^ 31 \<Longrightarrow> size_type x = x"
  by (simp add: size_type_def)

lemma data_frame_of_id: "s < 2 ^ 31 - 4 \<Longrightarrow> data_frame_of s = 4 + max s 0"
  by (simp add: data_frame_of_def size_type_id)

lemma frame_of_id: "s < 2 ^ 31 - 8 \<Longrightarrow> frame_of s = 8 + max s 0"
  by (simp add: frame_of_def data_frame_of_id size_type_id)

text \<open>Adding up sizes whose sum fits.\<close>

lemma fold_size_type:
  assumes "\<And>s. s \<in> set ss \<Longrightarrow> 0 \<le> g s" and "\<And>s. s \<in> set ss \<Longrightarrow> g s < 2 ^ 31 \<Longrightarrow> f s = g s"
    and "0 \<le> r" and "r + (\<Sum>s \<leftarrow> ss. g s) < 2 ^ 31"
  shows "fold (\<lambda>s r. size_type (r + f s)) ss r = r + (\<Sum>s \<leftarrow> ss. g s)"
  using assms
proof (induction ss arbitrary: r)
  case (Cons a ss)
  have "0 \<le> (\<Sum>s \<leftarrow> ss. g s)" using Cons.prems(1) by (intro sum_list_nonneg) auto
  moreover have "0 \<le> g a" using Cons.prems(1) by simp
  ultimately have "f a = g a" "size_type (r + g a) = r + g a"
    using Cons.prems(2-4) by (auto intro!: size_type_id)
  then show ?case using Cons by simp
qed simp

lemma fold_data_frames:
  "0 \<le> r \<Longrightarrow> r + (\<Sum>s \<leftarrow> ss. 4 + max s 0) < 2 ^ 31 \<Longrightarrow>
   fold (\<lambda>s r. size_type (r + data_frame_of s)) ss r = r + (\<Sum>s \<leftarrow> ss. 4 + max s 0)"
  by (intro fold_size_type) (auto simp: data_frame_of_id)

lemma fold_frames:
  "0 \<le> r \<Longrightarrow> r + (\<Sum>s \<leftarrow> ss. 8 + max s 0) < 2 ^ 31 \<Longrightarrow>
   fold (\<lambda>s r. size_type (r + frame_of s)) ss r = r + (\<Sum>s \<leftarrow> ss. 8 + max s 0)"
  by (intro fold_size_type) (auto simp: frame_of_id)

lemma length_send_base:
  "has_base (kind_of b) v \<Longrightarrow> size_of_base b v = int (length (send_base (kind_of b) v))"
  by (cases b; cases v) (auto simp: kind_of_def size_of_base_def write_bool_def)

lemma static_size_const:
  "static_size t \<Longrightarrow> size_of t (Some x) = size_of t (Some y)"
  by (cases t; cases "unwrap_type t")
    (auto simp: static_size_def size_of_base_def kind_of_def split: pg_size.splits base_kind.splits base_type.splits)

lemma static_item_sizes:
  assumes "static_size t" and "\<not> is_nullable t" and "all_have_ty t vs"
  shows "item_sizes t vs = replicate (length vs) (size_of t (hd vs))"
proof -
  obtain p where t: "t = Plain p" using assms(2) by (cases t) auto
  have "item_sizes t vs = replicate (length vs) (size_of t (Some y))" for y
    using assms(1,3)
  proof (induction vs)
    case (Cons v vs)
    then show ?case using static_size_const [OF Cons.prems(1)] by (auto simp: t split: option.splits)
  qed simp
  moreover have "\<exists>y. vs \<noteq> [] \<longrightarrow> hd vs = Some y"
    using assms(3) by (cases vs) (auto simp: t split: option.splits)
  ultimately show ?thesis by (cases vs) auto
qed

lemma array_data_size_eq:
  assumes "all_have_ty t vs" and "\<not> (static_size t \<and> is_nullable t)"
    and "(\<Sum>s \<leftarrow> item_sizes t vs. 4 + max s 0) < 2 ^ 31"
  shows "array_data_size t (item_sizes t vs) = (\<Sum>s \<leftarrow> item_sizes t vs. 4 + max s 0)"
proof (cases "static_size t")
  case False
  then show ?thesis using assms(3) by (simp add: array_data_size_def fold_data_frames)
next
  case True
  show ?thesis
  proof (cases vs)
    case (Cons v ws)
    let ?m = "size_of t v"
    have items: "item_sizes t vs = replicate (length vs) ?m"
      using static_item_sizes [OF True _ assms(1)] True assms(2) Cons by simp
    then have sum: "(\<Sum>s \<leftarrow> item_sizes t vs. 4 + max s 0) = (4 + max ?m 0) * int (length vs)"
      by (simp add: sum_list_replicate)
    moreover have "(4 + max ?m 0) * 1 \<le> (4 + max ?m 0) * int (length vs)"
      using Cons by (intro mult_left_mono) auto
    ultimately have "?m < 2 ^ 31 - 4" "0 \<le> (4 + max ?m 0) * int (length vs)" using assms(3) by auto
    moreover from this have "size_type ((4 + max ?m 0) * int (length vs)) = (4 + max ?m 0) * int (length vs)"
      using assms(3) sum by (intro size_type_id) linarith+
    ultimately show ?thesis unfolding sum unfolding items array_data_size_def
      using True Cons by (simp add: data_frame_of_id)
  qed (simp add: array_data_size_def)
qed

lemma send_null: "send om t None = []" and size_of_null: "size_of t None = null_state_size"
  by (cases t; simp)+

lemma size_of_facts:
  "has_pty p v \<Longrightarrow> sized_pty p \<Longrightarrow> int (length (send_impl om p v)) < 2 ^ 31 \<Longrightarrow>
     size_of_impl p v = int (length (send_impl om p v))"
  "has_ty t w \<Longrightarrow> sized_ty t \<Longrightarrow> int (length (send om t w)) < 2 ^ 31 \<Longrightarrow>
     size_of t w = (case w of None \<Rightarrow> null_state_size | Some _ \<Rightarrow> int (length (send om t w)))"
  "have_tys ts ws \<Longrightarrow> sized_tys ts \<Longrightarrow> int (length (send_fields om ts ws)) < 2 ^ 31 \<Longrightarrow>
     int (length (send_fields om ts ws)) = (\<Sum>s \<leftarrow> field_sizes ts ws. 8 + max s 0)"
  "all_have_ty t ws \<Longrightarrow> sized_ty t \<Longrightarrow> int (length (send_items om t ws)) < 2 ^ 31 \<Longrightarrow>
     int (length (send_items om t ws)) = (\<Sum>s \<leftarrow> item_sizes t ws. 4 + max s 0)"
proof (induction p v and t w and ts ws and t ws rule: has_pty_has_ty_have_tys_all_have_ty.induct)
  case (1 b v)
  then show ?case by (simp add: length_send_base)
next
  case (2 t v)
  then show ?case
    by (auto simp: array_data_size_eq split: val.splits)
next
  case (3 n t v)
  then show ?case
    by (auto simp: array_data_size_eq split: val.splits)
next
  case (4 nm ts v)
  then show ?case by (auto simp: write_pg_composite_def fold_frames split: val.splits)
next
  case (5 p v)
  then show ?case by (auto simp: size_type_id split: option.splits)
next
  case (6 p v)
  then show ?case by (auto simp: size_type_id split: option.splits)
next
  case (8 t ts vs)
  then show ?case by (auto simp: null_state_size_def send_null split: list.splits option.splits)
next
  case (10 t v vs)
  then show ?case by (auto simp: null_state_size_def send_null split: option.splits)
qed simp_all


section \<open>What is sent is received\<close>

lemma read_data_append:
  "length bs = n \<Longrightarrow> read_data n (new_istream (bs @ rest)) = Inr (bs, new_istream rest)"
  by (simp add: read_data_def istream_read_def new_istream_def)

lemma read_data_short:
  "length bs < n \<Longrightarrow> read_data n (new_istream bs) = Inl (SystemError unexpected_eof)"
  by (simp add: read_data_def istream_read_def new_istream_def)

lemma read_members_append:
  "map length bss = ns \<Longrightarrow> read_members ns (new_istream (concat bss @ rest)) = Inr (bss, new_istream rest)"
proof -
  assume "map length bss = ns"
  then have "istream_read_members ns (new_istream (concat bss @ rest)) = (bss, new_istream rest)"
    by (induction bss arbitrary: ns) (auto simp: istream_read_def new_istream_def)
  then show ?thesis by (simp add: read_members_def new_istream_def)
qed

lemma read_int32_write:
  "- (2 ^ 31) \<le> v \<Longrightarrow> v < 2 ^ 31 \<Longrightarrow> read_int32 (new_istream (write_int 4 v @ rest)) = Inr (v, new_istream rest)"
  by (simp add: read_int32_def read_data_append read_write_int to_signed_unsigned)

lemma read_oid_write:
  "0 \<le> v \<Longrightarrow> v < 2 ^ 32 \<Longrightarrow> read_oid (new_istream (write_int 4 v @ rest)) = Inr (v, new_istream rest)"
  by (simp add: read_oid_def read_data_append read_write_int to_unsigned_id)

definition oid_map_ok :: "oid_map \<Rightarrow> bool" where
  "oid_map_ok om \<longleftrightarrow> (\<forall>p. 0 \<le> om p \<and> om p < 2 ^ 32)"

lemma type_oid_range: "oid_map_ok om \<Longrightarrow> 0 \<le> type_oid om t \<and> type_oid om t < 2 ^ 32"
  using base_oid_range by (auto simp: type_oid_def pty_oid_def oid_map_ok_def less_imp_le split: pty.splits)

lemma recv_array_header_sent:
  assumes "oid_map_ok om" and "k < 2 ^ 31"
  shows "recv_array_header om t (new_istream (write_pg_array (type_oid om t) @
      write_pg_array_dimension (int k) @ rest)) = Inr (if k = 0 then None else Some (int k), new_istream rest)"
proof -
  have "read_members [4, 4, 4] (new_istream (write_pg_array (type_oid om t) @ r)) =
      Inr ([write_int 4 1, write_int 4 0, write_int 4 (type_oid om t)], new_istream r)" for r
    using read_members_append [of "[write_int 4 1, write_int 4 0, write_int 4 (type_oid om t)]"]
    by (simp add: write_pg_array_def)
  moreover have "read_members [4, 4] (new_istream (write_pg_array_dimension (int k) @ r)) =
      Inr ([write_int 4 (int k), write_int 4 0], new_istream r)" for r
    using read_members_append [of "[write_int 4 (int k), write_int 4 0]"]
    by (simp add: write_pg_array_dimension_def)
  ultimately show ?thesis
    using type_oid_range [OF assms(1), of t] assms(2)
    by (simp add: recv_array_header_def read_write_int to_signed_unsigned to_unsigned_id
        accepts_oid_def type_oid_def)
qed

lemma to_unsigned_bool: "to_unsigned (Suc 0) 1 = 1" "to_unsigned n 0 = 0"
  by (simp_all add: to_unsigned_def)

lemma recv_base_sent:
  assumes "has_base (kind_of b) v"
  shows "recv_base b (size_of_base b v) (new_istream (send_base (kind_of b) v @ rest)) = Inr (v, new_istream rest)"
  using assms
  by (cases b; cases v)
    (auto simp: recv_base_def size_of_base_def kind_of_def write_bool_def read_data_append read_write_int
      to_signed_unsigned to_unsigned_id int_in_range_def to_unsigned_bool)

lemma length_send_items: "length vs \<le> length (send_items om t vs)"
  by (induction vs) auto

lemma length_send_fields: "have_tys ts vs \<Longrightarrow> length ts \<le> length (send_fields om ts vs)"
  by (induction ts arbitrary: vs) (fastforce split: list.splits)+

lemma size_of_range:
  assumes "has_ty t w" and "sized_ty t" and "int (length (send om t w)) < 2 ^ 31"
  shows "- (2 ^ 31) \<le> size_of t w \<and> size_of t w < 2 ^ 31"
  using size_of_facts(2) [OF assms] assms(3) by (auto simp: null_state_size_def split: option.splits)

lemma recv_sent:
  assumes om: "oid_map_ok om"
  shows
  "has_pty p v \<Longrightarrow> sized_pty p \<Longrightarrow> int (length (send_impl om p v)) < 2 ^ 31 \<Longrightarrow>
     recv_impl om p (size_of_impl p v) (new_istream (send_impl om p v @ rest)) (default_pty p) = Inr (v, new_istream rest)"
  "has_ty t w \<Longrightarrow> sized_ty t \<Longrightarrow> int (length (send om t w)) < 2 ^ 31 \<Longrightarrow> oid \<in> {None, Some (type_oid om t)} \<Longrightarrow>
     recv om t oid (size_of t w) (new_istream (send om t w @ rest)) (default_ty t) = Inr (w, new_istream rest)"
  "have_tys ts ws \<Longrightarrow> sized_tys ts \<Longrightarrow> int (length (send_fields om ts ws)) < 2 ^ 31 \<Longrightarrow>
     recv_fields om ts (new_istream (send_fields om ts ws @ rest)) (default_tys ts) = Inr (ws, new_istream rest)"
  "all_have_ty t ws \<Longrightarrow> sized_ty t \<Longrightarrow> int (length (send_items om t ws)) < 2 ^ 31 \<Longrightarrow>
     recv_items om t (new_istream (send_items om t ws @ rest)) (replicate (length ws) (default_ty t)) = Inr (ws, new_istream rest)"
proof (induction p v and t w and ts ws and t ws arbitrary: rest and oid rest and rest and rest
    rule: has_pty_has_ty_have_tys_all_have_ty.induct)
  case (1 b v)
  then show ?case by (simp add: recv_base_sent)
next
  case (2 t v)
  then obtain vs where v: "v = VList vs" by (cases v) auto
  have "length vs < 2 ^ 31" using "2.prems"(3) length_send_items [of vs om t] v by simp
  then show ?case using 2 v
    by (auto simp: recv_array_header_sent [OF om] fit_vector_def list_of_val_def)
next
  case (3 n t v)
  then obtain vs where v: "v = VList vs" by (cases v) auto
  have "length vs < 2 ^ 31" using "3.prems"(3) length_send_items [of vs om t] v by simp
  then show ?case using 3 v
    by (auto simp: recv_array_header_sent [OF om] fit_array_def list_of_val_def)
next
  case (4 nm ts v)
  then obtain vs where v: "v = VList vs" by (cases v) auto
  moreover from this have "length ts < 2 ^ 31"
    using "4.prems" length_send_fields [of ts vs om] by simp
  ultimately show ?case using 4 by (simp add: read_int32_write write_pg_composite_def list_of_val_def)
next
  case (5 p v)
  then show ?case
    by (cases v) (auto simp: size_type_id size_of_facts(1) [of p _ om] accepts_oid_def null_state_size_def out_of_def)
next
  case (6 p v)
  then show ?case
    by (cases v) (auto simp: size_type_id size_of_facts(1) [of p _ om] accepts_oid_def null_state_size_def out_of_def)
next
  case (8 t ts vs)
  then obtain w ws where vs: "vs = w # ws" by (cases vs) auto
  then show ?case
    using 8 size_of_range [of t w om] type_oid_range [OF om, of t]
    by (simp add: read_oid_write read_int32_write)
next
  case (10 t v vs)
  then show ?case
    using size_of_range [of t v om] by (simp add: read_int32_write)
qed simp_all


text \<open>The frames of \<^verbatim>\<open>recv_data_frame\<close> and \<^verbatim>\<open>recv_frame\<close>; both kinds are codecs of the values of a type.\<close>

definition recv_data_frame ::
    "oid_map \<Rightarrow> ty \<Rightarrow> int option \<Rightarrow> istream \<Rightarrow> val option \<Rightarrow> io_exception + val option \<times> istream" where
  "recv_data_frame om t oid s out = rbind (read_int32 s) (\<lambda>(n, s). recv om t oid n s out)"

definition recv_frame :: "oid_map \<Rightarrow> ty \<Rightarrow> istream \<Rightarrow> val option \<Rightarrow> io_exception + val option \<times> istream" where
  "recv_frame om t s out = rbind (read_oid s) (\<lambda>(oid, s). recv_data_frame om t (Some oid) s out)"

definition sendable :: "oid_map \<Rightarrow> ty \<Rightarrow> val option \<Rightarrow> bool" where
  "sendable om t w \<longleftrightarrow>
     oid_map_ok om \<and> has_ty t w \<and> sized_ty t \<and> int (length (send om t w)) < 2 ^ 31"

definition decode_data_frame :: "oid_map \<Rightarrow> ty \<Rightarrow> bytes \<Rightarrow> io_exception + val option \<times> bytes" where
  "decode_data_frame om t bs =
     rbind (recv_data_frame om t None (new_istream bs) (default_ty t)) (\<lambda>(w, s). Inr (w, is_rest s))"

definition decode_frame :: "oid_map \<Rightarrow> ty \<Rightarrow> bytes \<Rightarrow> io_exception + val option \<times> bytes" where
  "decode_frame om t bs =
     rbind (recv_frame om t (new_istream bs) (default_ty t)) (\<lambda>(w, s). Inr (w, is_rest s))"

lemma recv_data_frame_sent:
  assumes "sendable om t w" and "oid \<in> {None, Some (type_oid om t)}"
  shows "recv_data_frame om t oid (new_istream (send_data_frame om t w @ rest)) (default_ty t) = Inr (w, new_istream rest)"
  using assms recv_sent(2) [of om t w oid rest] size_of_range [of t w om]
  by (simp add: recv_data_frame_def send_data_frame_def sendable_def read_int32_write)

interpretation data_frame: codec "sendable om t" "send_data_frame om t" "decode_data_frame om t" for om t
  by unfold_locales (simp add: decode_data_frame_def recv_data_frame_sent, simp add: new_istream_def)

interpretation frame: codec "sendable om t" "send_frame om t" "decode_frame om t" for om t
proof
  fix w rest
  assume w: "sendable om t w"
  then have "0 \<le> type_oid om t" "type_oid om t < 2 ^ 32"
    using type_oid_range [of om t] by (simp_all add: sendable_def)
  then show "decode_frame om t (send_frame om t w @ rest) = Inr (w, rest)"
    using recv_data_frame_sent [OF w, of "Some (type_oid om t)" rest]
    by (simp add: decode_frame_def recv_frame_def send_frame_def read_oid_write) (simp add: new_istream_def)
qed

text \<open>The elements of an array as they are sent determine the elements.\<close>

lemma send_items_inj:
  assumes "list_all (sendable om t) vs" and "list_all (sendable om t) ws" and "length vs = length ws"
    and "send_items om t vs = send_items om t ws"
  shows "vs = ws"
  using data_frame.enc_list_inj [OF assms(1-3), of "[]" "[]"] assms(4) by (simp add: send_items_frames)

section \<open>What is received has its type\<close>

definition rest_of :: "istream \<Rightarrow> istream \<Rightarrow> bool" where
  "rest_of s s' \<longleftrightarrow> (\<exists>bs. is_rest s = bs @ is_rest s')"

lemma rest_of_refl [simp]: "rest_of s s"
  by (simp add: rest_of_def)



















section \<open>Errors\<close>

text \<open>Each check of \<^verbatim>\<open>recv\<close> that fails, whatever the data is.\<close>

lemma recv_wrong_oid:
  assumes "oid \<noteq> type_oid om t" and "is_nullable t \<longrightarrow> n \<noteq> null_state_size"
  shows "recv om t (Some oid) n s out = Inl (SystemError oid_type_mismatch)"
  using assms by (cases t) (auto simp: accepts_oid_def)

lemma recv_unexpected_null:
  "recv om (Plain p) None null_state_size s out = Inl InvalidArgument"
  by simp

lemma recv_wrong_size:
  assumes "base_size b = Bytes m" and "kind_of b \<noteq> JsonbType" and "n \<noteq> m"
  shows "recv_impl om (TBase b) n s out = Inl (SystemError bad_object_size)"
  using assms by (cases b) (auto simp: recv_base_def kind_of_def)

lemma recv_base_truncated:
  assumes "0 \<le> n" and "int (length bs) < n" and "kind_of b \<noteq> JsonbType" and "\<forall>m. base_size b = Bytes m \<longrightarrow> n = m"
  shows "recv_impl om (TBase b) n (new_istream bs) out = Inl (SystemError unexpected_eof)"
  using assms by (cases b) (auto simp: recv_base_def kind_of_def read_data_short)

text \<open>An array of no elements leaves the elements that are already in the vector.\<close>

lemma recv_empty_array_keeps:
  assumes "oid_map_ok om"
  shows "recv_impl om (TArray t) n (new_istream (send_impl om (TArray t) (VList []) @ rest)) out = Inr (out, new_istream rest)"
  using recv_array_header_sent [OF assms, of 0 t rest] by simp

section \<open>Rows (recv.h)\<close>

text \<open>
  A column of a row as libpq gives it; \<open>field_number\<close> is \<^verbatim>\<open>PQfnumber\<close>, the position of a column by
  its name. The first function is for one column, the second for a sequence, by position, the third for a
  structure, by the names of its members.
\<close>

record pg_column =
  col_oid :: int
  col_value :: "bytes option"

definition recv_value :: "oid_map \<Rightarrow> ty \<Rightarrow> pg_column \<Rightarrow> val option \<Rightarrow> io_exception + val option" where
  "recv_value om t c out =
     (let bs = (case col_value c of None \<Rightarrow> [] | Some bs \<Rightarrow> bs);
          n = (case col_value c of None \<Rightarrow> null_state_size | Some bs \<Rightarrow> size_type (int (length bs))) in
      rbind (recv om t (Some (col_oid c)) n (new_istream bs) out) (\<lambda>(v, _). Inr v))"

definition recv_row_single :: "oid_map \<Rightarrow> ty \<Rightarrow> pg_column list \<Rightarrow> val option \<Rightarrow> io_exception + val option" where
  "recv_row_single om t row out =
     (case row of [c] \<Rightarrow> recv_value om t c out | _ \<Rightarrow> Inl RangeError)"

fun recv_columns ::
    "oid_map \<Rightarrow> ty list \<Rightarrow> pg_column list \<Rightarrow> val option list \<Rightarrow> io_exception + val option list" where
  "recv_columns om (t # ts) (c # cs) (out # outs) =
     rbind (recv_value om t c out) (\<lambda>v.
     rbind (recv_columns om ts cs outs) (\<lambda>vs. Inr (v # vs)))"
| "recv_columns om _ _ _ = Inr []"

definition recv_row_sequence ::
    "oid_map \<Rightarrow> ty list \<Rightarrow> pg_column list \<Rightarrow> val option list \<Rightarrow> io_exception + val option list" where
  "recv_row_sequence om ts row outs =
     (if length ts \<noteq> length row then Inl RangeError else recv_columns om ts row outs)"

fun recv_members ::
    "oid_map \<Rightarrow> (string \<Rightarrow> int) \<Rightarrow> pg_column list \<Rightarrow> (string \<times> ty) list \<Rightarrow> val option list \<Rightarrow>
     io_exception + val option list" where
  "recv_members om field_number row ((name, t) # ms) (out # outs) =
     (let i = field_number name in
      if i = - 1 then Inl RangeError
      else rbind (recv_value om t (row ! nat i) out) (\<lambda>v.
           rbind (recv_members om field_number row ms outs) (\<lambda>vs. Inr (v # vs))))"
| "recv_members om field_number row _ _ = Inr []"

definition recv_row_struct ::
    "oid_map \<Rightarrow> (string \<Rightarrow> int) \<Rightarrow> (string \<times> ty) list \<Rightarrow> pg_column list \<Rightarrow> val option list \<Rightarrow>
     io_exception + val option list" where
  "recv_row_struct om field_number members row outs =
     (if length members \<noteq> length row then Inl RangeError
      else recv_members om field_number row members outs)"

text \<open>The rows of a result, each into a new value (\<^verbatim>\<open>InsertIterator\<close>).\<close>

fun recv_result :: "('row \<Rightarrow> io_exception + 'v) \<Rightarrow> 'row list \<Rightarrow> io_exception + 'v list" where
  "recv_result recv_row [] = Inr []"
| "recv_result recv_row (row # rows) =
     rbind (recv_row row) (\<lambda>v. rbind (recv_result recv_row rows) (\<lambda>vs. Inr (v # vs)))"

text \<open>A column that holds what was sent for a value gives the value.\<close>

definition column_of :: "oid_map \<Rightarrow> ty \<Rightarrow> val option \<Rightarrow> pg_column" where
  "column_of om t w = \<lparr>col_oid = type_oid om t, col_value = (case w of None \<Rightarrow> None | Some _ \<Rightarrow> Some (send om t w))\<rparr>"

lemma recv_value_sent:
  assumes "oid_map_ok om" and "has_ty t w" and "sized_ty t" and "int (length (send om t w)) < 2 ^ 31"
  shows "recv_value om t (column_of om t w) (default_ty t) = Inr w"
proof (cases w)
  case None
  then show ?thesis using assms(2) by (cases t) (simp_all add: recv_value_def column_of_def)
next
  case (Some x)
  then have "size_of t w = int (length (send om t w))" using size_of_facts(2) [OF assms(2-4)] by simp
  then show ?thesis using recv_sent(2) [OF assms, of "Some (type_oid om t)" "[]"] assms(4) Some
    by (simp add: recv_value_def column_of_def size_type_id)
qed

lemma recv_row_sequence_sent:
  assumes "oid_map_ok om" and "have_tys ts ws" and "sized_tys ts"
    and "int (length (send_fields om ts ws)) < 2 ^ 31"
  shows "recv_row_sequence om ts (map2 (column_of om) ts ws) (default_tys ts) = Inr ws"
proof -
  have "length ts = length ws" using assms(2) by (induction ts arbitrary: ws) (auto split: list.splits)
  moreover have "recv_columns om ts (map2 (column_of om) ts ws) (default_tys ts) = Inr ws"
    using assms(2-4)
  proof (induction ts arbitrary: ws)
    case (Cons t ts)
    then obtain w ws' where "ws = w # ws'" by (cases ws) auto
    then show ?case using Cons recv_value_sent [OF assms(1), of t w] by simp
  qed simp
  ultimately show ?thesis by (simp add: recv_row_sequence_def)
qed

section \<open>Query parameters (binary_query.h)\<close>

text \<open>
  The arrays given to \<^verbatim>\<open>PQsendQueryParams\<close>. A value is the offset of its bytes in the buffer, or a null
  pointer, which libpq sends as a null.
\<close>

record binary_query =
  bq_text :: string
  bq_buffer :: bytes
  bq_types :: "int list"
  bq_formats :: "int list"
  bq_lengths :: "int list"
  bq_values :: "int option list"

fun param_values :: "int \<Rightarrow> int list \<Rightarrow> int option list" where
  "param_values offset [] = []"
| "param_values offset (l # ls) = (if l \<noteq> 0 then Some offset else None) # param_values (offset + l) ls"

definition new_binary_query :: "oid_map \<Rightarrow> string \<Rightarrow> (ty \<times> val option) list \<Rightarrow> binary_query" where
  "new_binary_query om text params =
     (let lengths = map (\<lambda>(t, v). max 0 (size_of t v)) params in
      \<lparr>bq_text = text,
       bq_buffer = concat (map (\<lambda>(t, v). send om t v) params),
       bq_types = map (\<lambda>(t, v). type_oid om t) params,
       bq_formats = replicate (length params) 1,
       bq_lengths = lengths,
       bq_values = param_values 0 lengths\<rparr>)"

text \<open>The bytes libpq reads for a parameter.\<close>

definition param_bytes :: "binary_query \<Rightarrow> nat \<Rightarrow> bytes option" where
  "param_bytes q i =
     map_option (\<lambda>off. take (nat (bq_lengths q ! i)) (drop (nat off) (bq_buffer q))) (bq_values q ! i)"

definition param_ok :: "oid_map \<Rightarrow> ty \<times> val option \<Rightarrow> bool" where
  "param_ok om tv \<longleftrightarrow>
     has_ty (fst tv) (snd tv) \<and> sized_ty (fst tv) \<and> int (length (send om (fst tv) (snd tv))) < 2 ^ 31"

lemma param_length: "param_ok om (t, v) \<Longrightarrow> max 0 (size_of t v) = int (length (send om t v))"
  using size_of_facts(2) [of t v om]
  by (auto simp: param_ok_def null_state_size_def send_null split: option.splits)

lemma param_values_placed:
  fixes pre :: bytes
  assumes "list_all (param_ok om) params" and "i < length params"
  shows "param_values (int (length pre)) (map (\<lambda>(t, v). max 0 (size_of t v)) params) ! i =
      (if send om (fst (params ! i)) (snd (params ! i)) = [] then None
       else Some (int (length pre + length (concat (map (\<lambda>(t, v). send om t v) (take i params))))))"
  using assms
proof (induction params arbitrary: i pre)
  case (Cons tv params)
  obtain t v where tv: "tv = (t, v)" by (cases tv)
  have l: "max 0 (size_of t v) = int (length (send om t v))" using Cons.prems(1) tv by (simp add: param_length)
  show ?case
  proof (cases i)
    case (Suc j)
    then show ?thesis
      using Cons.IH [of j "pre @ send om t v"] Cons.prems l tv by simp
  qed (use l tv in auto)
qed simp


section \<open>Properties\<close>


definition no_oids :: oid_map where "no_oids p = 0"




text \<open>Bounds. For a vector of nullable elements of a fixed size the size is computed from the first element
  alone: for \<open>n\<close> elements after a null one it is four bytes each, although every element that is not null
  sends its data too. Announced as the length of a parameter, it cuts the data off.\<close>
lemma nullable_array_size_wrong:
  assumes "static_size (Plain p)" and "send_impl om p x \<noteq> []" and "n < 2 ^ 27" and "0 < n"
  shows "size_of (Plain (TArray (Nullable p))) (Some (VList (None # replicate n (Some x)))) = 20 + 4 * (1 + int n)
    \<and> int (length (send om (Plain (TArray (Nullable p))) (Some (VList (None # replicate n (Some x))))))
        = 20 + 4 * (1 + int n) + int n * int (length (send_impl om p x))
    \<and> size_of (Plain (TArray (Nullable p))) (Some (VList (None # replicate n (Some x))))
        < int (length (send om (Plain (TArray (Nullable p))) (Some (VList (None # replicate n (Some x))))))"
proof -
  have static: "static_size (Nullable p)" using assms(1) by (simp add: static_size_def)
  have items: "item_sizes (Nullable p) (replicate m (Some x)) = replicate m (size_of (Nullable p) (Some x))" for m
    by (induction m) simp_all
  have sent: "length (send_items om (Nullable p) (replicate m (Some x))) = m * (4 + length (send_impl om p x))" for m
    by (induction m) simp_all
  have "size_of (Plain (TArray (Nullable p))) (Some (VList (None # replicate n (Some x)))) = 20 + 4 * (1 + int n)"
    using static assms(3)
    by (simp add: array_data_size_def items null_state_size_def data_frame_of_def size_type_id algebra_simps)
  moreover have "int (length (send om (Plain (TArray (Nullable p))) (Some (VList (None # replicate n (Some x))))))
      = 20 + 4 * (1 + int n) + int n * int (length (send_impl om p x))"
    by (simp add: sent algebra_simps)
  ultimately show ?thesis using assms(2,4) by (simp del: size_of.simps send.simps)
qed

text \<open>Functional. The parameters given to libpq: the pointer and the length of each parameter that sends
  any bytes enclose exactly the bytes sent for it, in binary format and with the OID of its type; a
  parameter that sends none is a null pointer.\<close>
lemma parameters_placed:
  assumes "list_all (param_ok om) params" and "i < length params" and "params ! i = (t, v)"
  shows "param_bytes (new_binary_query om text params) i = (if send om t v = [] then None else Some (send om t v))
    \<and> bq_lengths (new_binary_query om text params) ! i = int (length (send om t v))
    \<and> bq_types (new_binary_query om text params) ! i = type_oid om t
    \<and> bq_formats (new_binary_query om text params) ! i = 1"
proof -
  let ?send = "\<lambda>(t, v). send om t v"
  have ok: "param_ok om (t, v)" using assms by (metis list_all_length)
  have "concat (map ?send params) =
      concat (map ?send (take i params)) @ send om t v @ concat (map ?send (drop (Suc i) params))"
    using id_take_nth_drop [OF assms(2)] assms(3) by (metis case_prod_conv concat.simps(2) concat_append list.simps(9) map_append)
  then have "take (length (send om t v)) (drop (length (concat (map ?send (take i params)))) (concat (map ?send params)))
      = send om t v" by simp
  moreover have "param_values 0 (map (\<lambda>(t, v). max 0 (size_of t v)) params) ! i =
      (if send om t v = [] then None else Some (int (length (concat (map ?send (take i params))))))"
    using param_values_placed [OF assms(1,2), of "[]"] assms(3) by simp
  ultimately show ?thesis
    using assms(2,3) param_length [OF ok] by (simp add: param_bytes_def new_binary_query_def Let_def)
qed

text \<open>C17 Safety. A parameter that is an empty string (or empty data of any built-in type of variable size but
  \<^verbatim>\<open>jsonb\<close>) is given to libpq as a null pointer: the query is the same one as for a null, for any other
  parameters around it.\<close>
theorem empty_parameter_is_null:
  assumes "kind_of b = RawData"
  shows "new_binary_query om text (before @ [(Plain (TBase b), Some (VBytes []))] @ after)
    = new_binary_query om text (before @ [(Nullable (TBase b), None)] @ after)
    \<and> bq_values (new_binary_query om text [(Plain (TBase b), Some (VBytes []))]) = [None]"
proof -
  have "size_of_base b (VBytes []) = 0" using assms by (cases b) (auto simp: size_of_base_def kind_of_def)
  then show ?thesis using assms
    by (simp add: new_binary_query_def Let_def null_state_size_def type_oid_def size_type_def)
qed

theorem empty_parameter_is_null_witness:
  "new_binary_query no_oids ''select $1'' [(Plain (TBase std_string), Some (VBytes []))]
   = new_binary_query no_oids ''select $1'' [(Nullable (TBase std_string), None)]"
  using empty_parameter_is_null [of std_string no_oids "''select $1''" "[]" "[]"] by (simp add: kind_of_def)



end
