(* ===== verification/Ozo_Result.thy ===== *)
theory Ozo_Result
  imports Ozo_IO
begin

text \<open>
  \<^verbatim>\<open>ozo/result.h\<close> and \<^verbatim>\<open>impl/result.h\<close>: values, rows and results as coordinates in a libpq result, their iterators, and the
  reception of rows through them (\<^verbatim>\<open>io/recv.h\<close>). Libpq is a record of functions; a pointer to a result is a number, the
  null pointer 0.
\<close>

section \<open>Libpq\<close>

text \<open>\<open>pq_getvalue\<close> is the memory at the pointer that libpq gives, which may be longer than the value.\<close>

record pq_result =
  pq_ftype :: "int \<Rightarrow> int"
  pq_fformat :: "int \<Rightarrow> int"
  pq_getvalue :: "int \<Rightarrow> int \<Rightarrow> bytes"
  pq_getlength :: "int \<Rightarrow> int \<Rightarrow> int"
  pq_getisnull :: "int \<Rightarrow> int \<Rightarrow> bool"
  pq_fnumber :: "string \<Rightarrow> int"
  pq_nfields :: int
  pq_ntuples :: int

type_synonym pq_results = "nat \<Rightarrow> pq_result"

definition size_t_of :: "int \<Rightarrow> int" where
  "size_t_of n = n mod 2 ^ 64"

section \<open>Values\<close>

record coordinates =
  c_res :: nat
  c_row :: int
  c_col :: int

definition value_oid :: "pq_results \<Rightarrow> coordinates \<Rightarrow> int" where
  "value_oid H v = pq_ftype (H (c_res v)) (c_col v)"

definition value_is_text :: "pq_results \<Rightarrow> coordinates \<Rightarrow> bool" where
  "value_is_text H v = (pq_fformat (H (c_res v)) (c_col v) = 0)"

definition value_is_binary :: "pq_results \<Rightarrow> coordinates \<Rightarrow> bool" where
  "value_is_binary H v = (pq_fformat (H (c_res v)) (c_col v) = 1)"

definition value_data :: "pq_results \<Rightarrow> coordinates \<Rightarrow> bytes" where
  "value_data H v = pq_getvalue (H (c_res v)) (c_row v) (c_col v)"

definition value_size :: "pq_results \<Rightarrow> coordinates \<Rightarrow> int" where
  "value_size H v = size_t_of (pq_getlength (H (c_res v)) (c_row v) (c_col v))"

definition value_is_null :: "pq_results \<Rightarrow> coordinates \<Rightarrow> bool" where
  "value_is_null H v = pq_getisnull (H (c_res v)) (c_row v) (c_col v)"

section \<open>Rows\<close>

text \<open>The iterators on the values of a row, and the row, are coordinates too.\<close>

definition value_it_equal :: "coordinates \<Rightarrow> coordinates \<Rightarrow> bool" where
  "value_it_equal x y = (c_res x = c_res y \<and> c_col x = c_col y \<and> c_row x = c_row y)"

definition value_it_advance :: "int \<Rightarrow> coordinates \<Rightarrow> coordinates" where
  "value_it_advance n x = x\<lparr>c_col := c_col x + n\<rparr>"

definition row_begin :: "coordinates \<Rightarrow> coordinates" where
  "row_begin r = r"

definition row_size :: "pq_results \<Rightarrow> coordinates \<Rightarrow> int" where
  "row_size H r = size_t_of (pq_nfields (H (c_res r)))"

definition row_empty :: "pq_results \<Rightarrow> coordinates \<Rightarrow> bool" where
  "row_empty H r = (row_size H r = 0)"

definition row_end :: "pq_results \<Rightarrow> coordinates \<Rightarrow> coordinates" where
  "row_end H r = value_it_advance (size_type (row_size H r)) (row_begin r)"

definition row_find :: "pq_results \<Rightarrow> coordinates \<Rightarrow> string \<Rightarrow> coordinates" where
  "row_find H r name =
     (let i = pq_fnumber (H (c_res r)) name in if i = - 1 then row_end H r else value_it_advance i (row_begin r))"

definition row_at_index :: "coordinates \<Rightarrow> int \<Rightarrow> coordinates" where
  "row_at_index r index = value_it_advance index (row_begin r)"

datatype access_error = Field_index_out_of_range int | No_such_field string | Index_out_of_range int

definition row_at :: "pq_results \<Rightarrow> coordinates \<Rightarrow> int \<Rightarrow> access_error + coordinates" where
  "row_at H r index =
     (if index < 0 \<or> size_t_of index \<ge> row_size H r then Inl (Field_index_out_of_range index) else Inr (row_at_index r index))"

definition row_at_name :: "pq_results \<Rightarrow> coordinates \<Rightarrow> string \<Rightarrow> access_error + coordinates" where
  "row_at_name H r name =
     (let i = row_find H r name in if value_it_equal i (row_end H r) then Inl (No_such_field name) else Inr i)"

section \<open>Results\<close>

definition row_it_equal :: "coordinates \<Rightarrow> coordinates \<Rightarrow> bool" where
  "row_it_equal x y = (c_res x = c_res y \<and> c_row x = c_row y)"

definition row_it_advance :: "int \<Rightarrow> coordinates \<Rightarrow> coordinates" where
  "row_it_advance n x = x\<lparr>c_row := c_row x + n\<rparr>"

definition result_begin :: "nat \<Rightarrow> coordinates" where
  "result_begin p = \<lparr>c_res = p, c_row = 0, c_col = 0\<rparr>"

definition result_size :: "pq_results \<Rightarrow> nat \<Rightarrow> int" where
  "result_size H p = size_t_of (pq_ntuples (H p))"

definition result_empty :: "pq_results \<Rightarrow> nat \<Rightarrow> bool" where
  "result_empty H p = (result_size H p = 0)"

definition result_end :: "pq_results \<Rightarrow> nat \<Rightarrow> coordinates" where
  "result_end H p = row_it_advance (size_type (result_size H p)) (result_begin p)"

definition result_at_index :: "nat \<Rightarrow> int \<Rightarrow> coordinates" where
  "result_at_index p i = row_it_advance i (result_begin p)"

definition result_at :: "pq_results \<Rightarrow> nat \<Rightarrow> int \<Rightarrow> access_error + coordinates" where
  "result_at H p i =
     (if i < 0 \<or> size_t_of i \<ge> result_size H p then Inl (Index_out_of_range i) else Inr (result_at_index p i))"

section \<open>Reception (recv.h)\<close>

definition recv_value_at :: "pq_results \<Rightarrow> oid_map \<Rightarrow> ty \<Rightarrow> coordinates \<Rightarrow> val option \<Rightarrow> io_exception + val option" where
  "recv_value_at H om t v out =
     rbind (recv om t (Some (value_oid H v)) (if value_is_null H v then null_state_size else size_type (value_size H v))
       (new_istream (take (nat (value_size H v)) (value_data H v))) out) (\<lambda>(w, _). Inr w)"

definition recv_row_single_at :: "pq_results \<Rightarrow> oid_map \<Rightarrow> ty \<Rightarrow> val option \<Rightarrow> coordinates \<Rightarrow> io_exception + val option" where
  "recv_row_single_at H om t out r =
     (if row_size H r \<noteq> 1 then Inl RangeError else recv_value_at H om t (row_begin r) out)"

text \<open>The elements of a sequence, from the iterator on.\<close>

fun recv_from :: "pq_results \<Rightarrow> oid_map \<Rightarrow> ty list \<Rightarrow> val option list \<Rightarrow> coordinates \<Rightarrow> io_exception + val option list" where
  "recv_from H om (t # ts) (out # outs) i =
     rbind (recv_value_at H om t i out) (\<lambda>v.
     rbind (recv_from H om ts outs (value_it_advance 1 i)) (\<lambda>vs. Inr (v # vs)))"
| "recv_from H om _ _ i = Inr []"

definition recv_row_sequence_at ::
    "pq_results \<Rightarrow> oid_map \<Rightarrow> ty list \<Rightarrow> val option list \<Rightarrow> coordinates \<Rightarrow> io_exception + val option list" where
  "recv_row_sequence_at H om ts outs r =
     (if int (length ts) \<noteq> row_size H r then Inl RangeError else recv_from H om ts outs (row_begin r))"

fun recv_named :: "pq_results \<Rightarrow> oid_map \<Rightarrow> (string \<times> ty) list \<Rightarrow> val option list \<Rightarrow> coordinates \<Rightarrow> io_exception + val option list" where
  "recv_named H om ((name, t) # ms) (out # outs) r =
     (let i = row_find H r name in
      if value_it_equal i (row_end H r) then Inl RangeError
      else rbind (recv_value_at H om t i out) (\<lambda>v. rbind (recv_named H om ms outs r) (\<lambda>vs. Inr (v # vs))))"
| "recv_named H om _ _ r = Inr []"

definition recv_row_struct_at ::
    "pq_results \<Rightarrow> oid_map \<Rightarrow> (string \<times> ty) list \<Rightarrow> val option list \<Rightarrow> coordinates \<Rightarrow> io_exception + val option list" where
  "recv_row_struct_at H om members outs r =
     (if int (length members) \<noteq> row_size H r then Inl RangeError else recv_named H om members outs r)"

text \<open>The loop over the rows, each into a new value that goes to the output; it compares iterators.\<close>

partial_function (option) recv_rows ::
    "(coordinates \<Rightarrow> io_exception + 'v) \<Rightarrow> coordinates \<Rightarrow> coordinates \<Rightarrow> 'v list \<Rightarrow> (io_exception + 'v list) option" where
  "recv_rows recv_row i e out =
     (if row_it_equal i e then Some (Inr out)
      else (case recv_row i of
              Inl err \<Rightarrow> Some (Inl err)
            | Inr v \<Rightarrow> recv_rows recv_row (row_it_advance 1 i) e (out @ [v])))"

definition recv_result_at :: "pq_results \<Rightarrow> (coordinates \<Rightarrow> io_exception + 'v) \<Rightarrow> nat \<Rightarrow> (io_exception + 'v list) option" where
  "recv_result_at H recv_row p = recv_rows recv_row (result_begin p) (result_end H p) []"

section \<open>The table behind the coordinates\<close>

text \<open>What the documentation of libpq says of a result: its sizes, and the values in its range.\<close>

definition pq_result_ok :: "pq_result \<Rightarrow> bool" where
  "pq_result_ok R \<longleftrightarrow>
     0 \<le> pq_nfields R \<and> pq_nfields R < 2 ^ 31 \<and> 0 \<le> pq_ntuples R \<and> pq_ntuples R < 2 ^ 31
     \<and> (\<forall>name. pq_fnumber R name = - 1 \<or> 0 \<le> pq_fnumber R name \<and> pq_fnumber R name < pq_nfields R)
     \<and> (\<forall>i c. 0 \<le> i \<and> i < pq_ntuples R \<and> 0 \<le> c \<and> c < pq_nfields R \<longrightarrow>
          0 \<le> pq_getlength R i c \<and> pq_getlength R i c \<le> int (length (pq_getvalue R i c)) \<and> pq_getlength R i c < 2 ^ 31
          \<and> (pq_getisnull R i c \<longrightarrow> pq_getlength R i c = 0))"

lemma pq_result_okD:
  assumes "pq_result_ok R"
  shows "0 \<le> pq_nfields R" "pq_nfields R < 2 ^ 31" "0 \<le> pq_ntuples R" "pq_ntuples R < 2 ^ 31"
    and "pq_fnumber R name \<noteq> - 1 \<Longrightarrow> 0 \<le> pq_fnumber R name \<and> pq_fnumber R name < pq_nfields R"
    and "0 \<le> i \<Longrightarrow> i < pq_ntuples R \<Longrightarrow> 0 \<le> c \<Longrightarrow> c < pq_nfields R \<Longrightarrow>
      0 \<le> pq_getlength R i c \<and> pq_getlength R i c \<le> int (length (pq_getvalue R i c)) \<and> pq_getlength R i c < 2 ^ 31
      \<and> (pq_getisnull R i c \<longrightarrow> pq_getlength R i c = 0)"
  using assms unfolding pq_result_ok_def by auto

definition column_at :: "pq_result \<Rightarrow> int \<Rightarrow> int \<Rightarrow> pg_column" where
  "column_at R i c =
     \<lparr>col_oid = pq_ftype R c,
      col_value = (if pq_getisnull R i c then None else Some (take (nat (pq_getlength R i c)) (pq_getvalue R i c)))\<rparr>"

definition columns_at :: "pq_result \<Rightarrow> int \<Rightarrow> pg_column list" where
  "columns_at R i = map (\<lambda>c. column_at R i (int c)) [0..<nat (pq_nfields R)]"

definition table_of :: "pq_result \<Rightarrow> pg_column list list" where
  "table_of R = map (\<lambda>i. columns_at R (int i)) [0..<nat (pq_ntuples R)]"

lemma sizes_eq:
  assumes "pq_result_ok (H p)"
  shows "row_size H \<lparr>c_res = p, c_row = i, c_col = c\<rparr> = pq_nfields (H p)"
    and "result_size H p = pq_ntuples (H p)"
    and "row_end H \<lparr>c_res = p, c_row = i, c_col = 0\<rparr> = \<lparr>c_res = p, c_row = i, c_col = pq_nfields (H p)\<rparr>"
    and "result_end H p = \<lparr>c_res = p, c_row = pq_ntuples (H p), c_col = 0\<rparr>"
  using pq_result_okD(1-4) [OF assms]
  by (simp_all add: row_size_def size_t_of_def result_size_def row_end_def result_end_def row_begin_def result_begin_def
      value_it_advance_def row_it_advance_def size_type_def)

text \<open>A value in range is received as the column of the table.\<close>

lemma recv_value_at_eq:
  assumes "pq_result_ok (H p)" and "0 \<le> i" "i < pq_ntuples (H p)" "0 \<le> c" "c < pq_nfields (H p)"
  shows "recv_value_at H om t \<lparr>c_res = p, c_row = i, c_col = c\<rparr> out = recv_value om t (column_at (H p) i c) out"
proof -
  from pq_result_okD(6) [OF assms] have len: "0 \<le> pq_getlength (H p) i c" "pq_getlength (H p) i c < 2 ^ 31"
    "pq_getlength (H p) i c \<le> int (length (pq_getvalue (H p) i c))" "pq_getisnull (H p) i c \<Longrightarrow> pq_getlength (H p) i c = 0"
    by auto
  then have size: "value_size H \<lparr>c_res = p, c_row = i, c_col = c\<rparr> = pq_getlength (H p) i c"
    by (simp add: value_size_def size_t_of_def)
  show ?thesis
    using len by (simp add: recv_value_at_def recv_value_def column_at_def size value_oid_def value_is_null_def value_data_def min_absorb2)
qed

lemma recv_from_eq:
  assumes "pq_result_ok (H p)" and "0 \<le> i" "i < pq_ntuples (H p)"
  shows "k + length ts = nat (pq_nfields (H p)) \<Longrightarrow>
    recv_from H om ts outs \<lparr>c_res = p, c_row = i, c_col = int k\<rparr> = recv_columns om ts (drop k (columns_at (H p) i)) outs"
proof (induction ts arbitrary: k outs)
  case (Cons t ts)
  then have k: "k < nat (pq_nfields (H p))" by simp
  then have drop: "drop k (columns_at (H p) i) = column_at (H p) i (int k) # drop (Suc k) (columns_at (H p) i)"
    by (simp add: columns_at_def Cons_nth_drop_Suc [symmetric])
  have next_it: "value_it_advance 1 \<lparr>c_res = p, c_row = i, c_col = int k\<rparr> = \<lparr>c_res = p, c_row = i, c_col = int (Suc k)\<rparr>"
    by (simp add: value_it_advance_def)
  show ?case
  proof (cases outs)
    case (Cons out outs')
    then show ?thesis
      using Cons.IH [of "Suc k" outs'] Cons.prems k recv_value_at_eq [of H p i "int k" om t out, OF assms]
      by (simp add: drop next_it)
  qed (simp add: drop)
qed simp

lemma recv_named_eq:
  assumes "pq_result_ok (H p)" and "0 \<le> i" "i < pq_ntuples (H p)"
  shows "recv_named H om ms outs \<lparr>c_res = p, c_row = i, c_col = 0\<rparr> =
    recv_members om (pq_fnumber (H p)) (columns_at (H p) i) ms outs"
proof (induction ms arbitrary: outs)
  case (Cons m ms)
  obtain name t where m: "m = (name, t)" by (cases m)
  let ?r = "\<lparr>c_res = p, c_row = i, c_col = 0\<rparr>" and ?f = "pq_fnumber (H p) name"
  show ?case
  proof (cases outs)
    case outs: (Cons out outs')
    show ?thesis
    proof (cases "?f = - 1")
      case True
      then show ?thesis by (simp add: outs m row_find_def value_it_equal_def)
    next
      case False
      then have f: "0 \<le> ?f" "?f < pq_nfields (H p)" using pq_result_okD(5) [OF assms(1)] by auto
      then have find: "row_find H ?r name = \<lparr>c_res = p, c_row = i, c_col = ?f\<rparr>"
        using False by (simp add: row_find_def row_begin_def value_it_advance_def)
      have "columns_at (H p) i ! nat ?f = column_at (H p) i ?f" using f by (simp add: columns_at_def)
      then show ?thesis
        using f False Cons.IH recv_value_at_eq [of H p i ?f, OF assms f] sizes_eq(3) [of H p i, OF assms(1)]
        by (simp add: outs m find value_it_equal_def)
    qed
  qed (simp add: m)
qed simp

lemma recv_rows_eq:
  "0 \<le> i \<Longrightarrow> i \<le> n \<Longrightarrow>
   recv_rows rr \<lparr>c_res = p, c_row = i, c_col = 0\<rparr> \<lparr>c_res = p, c_row = n, c_col = 0\<rparr> out =
     Some (rbind (recv_result (\<lambda>k. rr \<lparr>c_res = p, c_row = int k, c_col = 0\<rparr>) [nat i..<nat n]) (\<lambda>vs. Inr (out @ vs)))"
proof (induction "nat (n - i)" arbitrary: i out)
  case 0
  then show ?case by (simp add: recv_rows.simps row_it_equal_def)
next
  case (Suc k)
  then have i: "i < n" "nat i < nat n" by auto
  have next_it: "row_it_advance 1 \<lparr>c_res = p, c_row = i, c_col = 0\<rparr> = \<lparr>c_res = p, c_row = i + 1, c_col = 0\<rparr>"
    by (simp add: row_it_advance_def)
  have rest: "recv_rows rr \<lparr>c_res = p, c_row = i + 1, c_col = 0\<rparr> \<lparr>c_res = p, c_row = n, c_col = 0\<rparr> (out @ [v]) =
      Some (rbind (recv_result (\<lambda>k. rr \<lparr>c_res = p, c_row = int k, c_col = 0\<rparr>) [Suc (nat i)..<nat n]) (\<lambda>vs. Inr (out @ v # vs)))" for v
    using Suc.hyps(1) [of "i + 1" "out @ [v]"] Suc.hyps(2) Suc.prems i by (simp add: nat_add_distrib)
  show ?case
    using i rest Suc.prems
    by (subst recv_rows.simps)
      (simp add: row_it_equal_def upt_conv_Cons next_it rbind_assoc split: sum.split)
qed

lemma recv_result_map: "recv_result rr (map f xs) = recv_result (\<lambda>x. rr (f x)) xs"
  by (induction xs) simp_all

lemma recv_result_cong: "(\<And>x. x \<in> set xs \<Longrightarrow> f x = g x) \<Longrightarrow> recv_result f xs = recv_result g xs"
  by (induction xs) simp_all

lemma recv_result_at_eq:
  assumes "pq_result_ok (H p)"
    and "\<And>i. 0 \<le> i \<Longrightarrow> i < pq_ntuples (H p) \<Longrightarrow> rr \<lparr>c_res = p, c_row = i, c_col = 0\<rparr> = f (columns_at (H p) i)"
  shows "recv_result_at H rr p = Some (recv_result f (table_of (H p)))"
proof -
  have "recv_result (\<lambda>k. rr \<lparr>c_res = p, c_row = int k, c_col = 0\<rparr>) [0..<nat (pq_ntuples (H p))] = recv_result f (table_of (H p))"
    unfolding table_of_def recv_result_map by (rule recv_result_cong) (simp add: assms(2))
  then show ?thesis
    using recv_rows_eq [of 0 "pq_ntuples (H p)" rr p "[]"] pq_result_okD(3) [OF assms(1)]
    by (simp add: recv_result_at_def sizes_eq(4) [of H p, OF assms(1)] result_begin_def)
qed

lemma length_columns_at [simp]: "length (columns_at R i) = nat (pq_nfields R)"
  by (simp add: columns_at_def)

lemma recv_row_single_at_eq:
  assumes "pq_result_ok (H p)" and "0 \<le> i" "i < pq_ntuples (H p)"
  shows "recv_row_single_at H om t out \<lparr>c_res = p, c_row = i, c_col = 0\<rparr> = recv_row_single om t (columns_at (H p) i) out"
proof (cases "pq_nfields (H p) = 1")
  case True
  then have "columns_at (H p) i = [column_at (H p) i 0]" by (simp add: columns_at_def)
  then show ?thesis
    using True recv_value_at_eq [of H p i 0, OF assms] sizes_eq(1) [of H p i, OF assms(1)]
    by (simp add: recv_row_single_at_def recv_row_single_def row_begin_def)
next
  case False
  then have "length (columns_at (H p) i) \<noteq> 1" using pq_result_okD(1) [OF assms(1)] by simp
  then have "columns_at (H p) i \<noteq> [x]" for x by force
  then show ?thesis
    using False sizes_eq(1) [of H p i, OF assms(1)]
    by (auto simp: recv_row_single_at_def recv_row_single_def split: list.split)
qed

section \<open>Properties\<close>

text \<open>C38 Refinement. Rows received through coordinates and iterators are those received from the table of columns that the
  libpq result holds: as single values, as sequences by position, as structures by the names of their members, each row
  into a new value, with the first exception ending the loop, which always ends. A checked access gives coordinates in
  the table or throws; the end of a row is found for a name exactly if libpq does not know it.\<close>
theorem received_rows:
  assumes "pq_result_ok (H p)"
  shows "recv_result_at H (recv_row_single_at H om t out) p =
      Some (recv_result (\<lambda>row. recv_row_single om t row out) (table_of (H p)))
    \<and> recv_result_at H (recv_row_sequence_at H om ts outs) p =
      Some (recv_result (\<lambda>row. recv_row_sequence om ts row outs) (table_of (H p)))
    \<and> recv_result_at H (recv_row_struct_at H om ms outs) p =
      Some (recv_result (\<lambda>row. recv_row_struct om (pq_fnumber (H p)) ms row outs) (table_of (H p)))
    \<and> (\<forall>i r. - (2 ^ 31) \<le> i \<and> i < 2 ^ 31 \<and> result_at H p i = Inr r \<longrightarrow>
         r = \<lparr>c_res = p, c_row = i, c_col = 0\<rparr> \<and> 0 \<le> i \<and> i < pq_ntuples (H p))
    \<and> (\<forall>r i v. c_res r = p \<and> c_col r = 0 \<and> - (2 ^ 31) \<le> i \<and> i < 2 ^ 31 \<and> row_at H r i = Inr v \<longrightarrow>
         v = r\<lparr>c_col := i\<rparr> \<and> 0 \<le> i \<and> i < pq_nfields (H p))"
proof -
  note ok = pq_result_okD [OF assms]
  have row: "row_size H r = pq_nfields (H p)" if "c_res r = p" for r
    using that ok(1,2) by (simp add: row_size_def size_t_of_def)
  have sequence: "recv_row_sequence_at H om ts outs \<lparr>c_res = p, c_row = i, c_col = 0\<rparr> = recv_row_sequence om ts (columns_at (H p) i) outs"
    if "0 \<le> i" "i < pq_ntuples (H p)" for i
    using recv_from_eq [of H p i 0 ts om outs, OF assms that] ok(1)
    by (auto simp: recv_row_sequence_at_def recv_row_sequence_def row row_begin_def)
  have struct: "recv_row_struct_at H om ms outs \<lparr>c_res = p, c_row = i, c_col = 0\<rparr> =
      recv_row_struct om (pq_fnumber (H p)) ms (columns_at (H p) i) outs" if "0 \<le> i" "i < pq_ntuples (H p)" for i
    using recv_named_eq [of H p i om ms outs, OF assms that] ok(1)
    by (auto simp: recv_row_struct_at_def recv_row_struct_def row)
  have received: "recv_result_at H (recv_row_single_at H om t out) p = Some (recv_result (\<lambda>row. recv_row_single om t row out) (table_of (H p)))"
    "recv_result_at H (recv_row_sequence_at H om ts outs) p = Some (recv_result (\<lambda>row. recv_row_sequence om ts row outs) (table_of (H p)))"
    "recv_result_at H (recv_row_struct_at H om ms outs) p =
      Some (recv_result (\<lambda>row. recv_row_struct om (pq_fnumber (H p)) ms row outs) (table_of (H p)))"
    by (rule recv_result_at_eq [of H p, OF assms]; simp add: recv_row_single_at_eq [of H p, OF assms] sequence struct)+
  have at: "size_t_of i = i" if "0 \<le> i" "i < 2 ^ 31" for i using that by (simp add: size_t_of_def)
  have rows: "r = \<lparr>c_res = p, c_row = i, c_col = 0\<rparr> \<and> 0 \<le> i \<and> i < pq_ntuples (H p)"
    if "- (2 ^ 31) \<le> i \<and> i < 2 ^ 31 \<and> result_at H p i = Inr r" for i r
    using that at [of i] sizes_eq(2) [of H p, OF assms]
    by (auto simp: result_at_def result_at_index_def row_it_advance_def result_begin_def split: if_splits)
  have fields: "v = r\<lparr>c_col := i\<rparr> \<and> 0 \<le> i \<and> i < pq_nfields (H p)"
    if "c_res r = p \<and> c_col r = 0 \<and> - (2 ^ 31) \<le> i \<and> i < 2 ^ 31 \<and> row_at H r i = Inr v" for r i v
    using that at [of i] row [of r]
    by (auto simp: row_at_def row_at_index_def value_it_advance_def row_begin_def split: if_splits)
  show ?thesis using received rows fields by blast
qed

text \<open>A row with a text and a null.\<close>

definition sample_pq_result :: pq_result where
  "sample_pq_result =
     \<lparr>pq_ftype = (\<lambda>c. 25), pq_fformat = (\<lambda>c. 1), pq_getvalue = (\<lambda>i c. if c = 0 then [97, 98, 0] else [0]),
      pq_getlength = (\<lambda>i c. if c = 0 then 2 else 0), pq_getisnull = (\<lambda>i c. c = 1),
      pq_fnumber = (\<lambda>name. if name = ''a'' then 0 else if name = ''b'' then 1 else - 1), pq_nfields = 2, pq_ntuples = 1\<rparr>"

lemma sample_pq_result_ok: "pq_result_ok sample_pq_result"
  by (simp add: pq_result_ok_def sample_pq_result_def)

theorem received_rows_witness:
  "recv_result_at (\<lambda>_. sample_pq_result) (recv_row_single_at (\<lambda>_. sample_pq_result) (\<lambda>_. 0) (Nullable (TBase std_string)) None) 1 = Some (Inl RangeError)
   \<and> table_of sample_pq_result = [[\<lparr>col_oid = 25, col_value = Some [97, 98]\<rparr>, \<lparr>col_oid = 25, col_value = None\<rparr>]]"
proof -
  have "table_of sample_pq_result = [[\<lparr>col_oid = 25, col_value = Some [97, 98]\<rparr>, \<lparr>col_oid = 25, col_value = None\<rparr>]]"
    by (simp add: table_of_def columns_at_def column_at_def sample_pq_result_def upt_rec)
  with received_rows [of "\<lambda>_. sample_pq_result" 1, OF sample_pq_result_ok, THEN conjunct1,
      of "\<lambda>_. 0" "Nullable (TBase std_string)" None]
  show ?thesis by (simp add: recv_row_single_def)
qed

end
