(* ===== verification/Ozo_Failover.thy ===== *)
theory Ozo_Failover
  imports Ozo_Connection
begin

text \<open>
  \<^verbatim>\<open>ozo/failover/strategy.h\<close>, \<^verbatim>\<open>retry.h\<close> and \<^verbatim>\<open>role_based.h\<close>: an operation that is tried again after
  an error. A strategy makes the first try; the continuation of a try either starts the next one or calls the user's
  handler. The operation itself, the clock and the user's conditions are arguments: \<open>env i\<close> says when the
  \<open>i\<close>-th try is started and with what it completes.
\<close>

section \<open>The framework (strategy.h)\<close>

record ('p, 'a) basic_context =
  ctx_provider :: 'p
  ctx_time_constraint :: time_constraint
  ctx_args :: 'a

text \<open>
  What happens while the continuation of a try asks for the next one: the user's notification is called, the
  initiator is called with the next try, the connection is closed.
\<close>

datatype ('t, 'c) try_action =
    Notify error_code "'c option"
  | InitTry 't
  | CloseConnection 'c

text \<open>The \<^verbatim>\<open>initiate_next_try\<close> of a strategy: its actions in their order, and the connection afterwards.\<close>

type_synonym ('t, 'c) next_try = "'t \<Rightarrow> error_code \<Rightarrow> 'c option \<Rightarrow> ('t, 'c) try_action list \<times> 'c option"

fun inits :: "('t, 'c) try_action list \<Rightarrow> 't list" where
  "inits [] = []"
| "inits (InitTry t # as) = t # inits as"
| "inits (_ # as) = inits as"

definition ec_failed :: "error_code \<Rightarrow> bool" where
  "ec_failed ec = (ec_value ec \<noteq> 0)"

text \<open>
  \<^verbatim>\<open>continuation::operator()\<close>: the actions of the strategy, then the call of the handler unless a next try was
  initiated.
\<close>

definition continuation ::
    "('t, 'c) next_try \<Rightarrow> 't \<Rightarrow> error_code \<Rightarrow> 'c option
     \<Rightarrow> ('t, 'c) try_action list \<times> (error_code \<times> 'c option) option" where
  "continuation next_try t ec conn =
     (if ec_failed ec
      then let (as, conn) = next_try t ec conn in
        (if inits as \<noteq> [] then (as, None) else (as, Some (ec, conn)))
      else ([], Some (ec, conn)))"

datatype ('x, 'c) failover_event =
    Notified error_code "'c option"
  | Initiated 'x
  | Closed 'c
  | Handled error_code "'c option"

record 'c attempt =
  at_now :: int
  at_ec :: error_code
  at_conn :: "'c option"

fun action_event :: "('t \<Rightarrow> 'x) \<Rightarrow> ('t, 'c) try_action \<Rightarrow> ('x, 'c) failover_event" where
  "action_event ctx (Notify ec conn) = Notified ec conn"
| "action_event ctx (InitTry t) = Initiated (ctx t)"
| "action_event ctx (CloseConnection c) = Closed c"

text \<open>
  \<^verbatim>\<open>initiate_operation\<close>: the operation is called with the context of the try and completes into the continuation,
  which may initiate the next try. A strategy that always has a next try never reaches the handler: that is the
  value \<open>None\<close>.
\<close>

partial_function (option) tries_from ::
    "('t, 'c) next_try \<Rightarrow> ('t \<Rightarrow> int \<Rightarrow> 'x) \<Rightarrow> (nat \<Rightarrow> 'c attempt) \<Rightarrow> nat \<Rightarrow> 't
     \<Rightarrow> ('x, 'c) failover_event list option" where
  "tries_from next_try ctx env i t =
     (case continuation next_try t (at_ec (env i)) (at_conn (env i)) of
        (as, Some (ec, conn)) \<Rightarrow> Some (map (action_event (\<lambda>t. ctx t (at_now (env (Suc i))))) as @ [Handled ec conn])
      | (as, None) \<Rightarrow>
          Option.bind (tries_from next_try ctx env (Suc i) (hd (inits as)))
            (\<lambda>es. Some (map (action_event (\<lambda>t. ctx t (at_now (env (Suc i))))) as @ es)))"

definition initiate_operation ::
    "('t, 'c) next_try \<Rightarrow> ('t \<Rightarrow> int \<Rightarrow> 'x) \<Rightarrow> (nat \<Rightarrow> 'c attempt) \<Rightarrow> 't \<Rightarrow> ('x, 'c) failover_event list option" where
  "initiate_operation next_try ctx env t =
     Option.bind (tries_from next_try ctx env 0 t) (\<lambda>es. Some (Initiated (ctx t (at_now (env 0))) # es))"

text \<open>\<^verbatim>\<open>initiate_next_try_impl::apply\<close> for a try that has a \<^verbatim>\<open>get_next_try\<close>.\<close>

definition initiate_next_try ::
    "('t \<Rightarrow> error_code \<Rightarrow> 'c option \<Rightarrow> ('t, 'c) try_action list \<times> 'c option \<times> 't option) \<Rightarrow> ('t, 'c) next_try" where
  "initiate_next_try get_next_try t ec conn =
     (case get_next_try t ec conn of
        (as, conn, None) \<Rightarrow> (as, conn)
      | (as, conn, Some t') \<Rightarrow> (as @ [InitTry t'], conn))"

section \<open>Retry (retry.h)\<close>

definition duration_div :: "int \<Rightarrow> int \<Rightarrow> int" where
  "duration_div d n = (if d < 0 then - ((- d) div n) else d div n)"

fun get_try_time_constraint :: "time_constraint \<Rightarrow> int \<Rightarrow> int \<Rightarrow> time_constraint" where
  "get_try_time_constraint NoConstraint n_tries now = NoConstraint"
| "get_try_time_constraint (TimePoint t) n_tries now =
     Duration (if n_tries > 0 then duration_div (time_left t now) n_tries else 0)"
| "get_try_time_constraint (Duration t) n_tries now =
     Duration (if n_tries > 0 then duration_div t n_tries else 0)"

text \<open>
  A user's condition: an \<^verbatim>\<open>ozo::errc\<close> or one of the codes and conditions that the library compares with itself.
\<close>

datatype user_condition = ErrcCondition errc_code | CodeCondition code_pattern

definition condition_matches :: "boost_system \<Rightarrow> error_code \<Rightarrow> user_condition \<Rightarrow> bool" where
  "condition_matches bs ec x =
     (case x of
        ErrcCondition c \<Rightarrow>
          bs_code bs ec \<lparr>cond_value = errc_value c, cond_category = ErrcCategory\<rparr>
          \<or> errc_equivalent bs ec (errc_value c)
      | CodeCondition p \<Rightarrow> pattern_matches bs ec p)"

definition match_conditions :: "boost_system \<Rightarrow> user_condition list \<Rightarrow> error_code \<Rightarrow> bool" where
  "match_conditions bs conditions ec = list_ex (condition_matches bs ec) conditions"

definition get_option :: "'v option \<Rightarrow> 'v \<Rightarrow> 'v" where
  "get_option v d = (case v of None \<Rightarrow> d | Some x \<Rightarrow> x)"

record retry_options =
  ro_on_retry :: bool
  ro_close_connection :: "bool option"
  ro_tries :: int
  ro_conditions :: "user_condition list option"

record ('p, 'a) basic_try =
  bt_ctx :: "('p, 'a) basic_context"
  bt_options :: retry_options

definition tries_remain :: "('p, 'a) basic_try \<Rightarrow> int" where
  "tries_remain t = ro_tries (bt_options t)"

definition get_conditions :: "('p, 'a) basic_try \<Rightarrow> user_condition list" where
  "get_conditions t = get_option (ro_conditions (bt_options t)) []"

definition adjust_tries_remain :: "('p, 'a) basic_try \<Rightarrow> ('p, 'a) basic_try" where
  "adjust_tries_remain t = t\<lparr>bt_options := (bt_options t)\<lparr>ro_tries := max 0 (tries_remain t - 1)\<rparr>\<rparr>"

definition can_retry :: "boost_system \<Rightarrow> ('p, 'a) basic_try \<Rightarrow> error_code \<Rightarrow> bool" where
  "can_retry bs t ec =
     (if tries_remain t < 1 then False
      else if get_conditions t = [] then True
      else match_conditions bs (get_conditions t) ec)"

definition try_time_constraint :: "('p, 'a) basic_try \<Rightarrow> int \<Rightarrow> time_constraint" where
  "try_time_constraint t now =
     get_try_time_constraint (ctx_time_constraint (bt_ctx t)) (tries_remain t) now"

definition try_get_context :: "('p, 'a) basic_try \<Rightarrow> int \<Rightarrow> ('p, 'a) basic_context" where
  "try_get_context t now = (bt_ctx t)\<lparr>ctx_time_constraint := try_time_constraint t now\<rparr>"

text \<open>
  \<^verbatim>\<open>defer_close_connection\<close>: what its guard does when the scope is left, and the connection afterwards.
\<close>

definition defer_close_actions ::
    "bool \<Rightarrow> ('h, 'o) connection option \<Rightarrow> ('t, ('h, 'o) connection) try_action list" where
  "defer_close_actions do_close conn =
     (case conn of Some c \<Rightarrow> if do_close then [CloseConnection c] else [] | None \<Rightarrow> [])"

definition defer_close_connection ::
    "bool \<Rightarrow> ('h, 'o) connection option \<Rightarrow> ('h, 'o) connection option" where
  "defer_close_connection do_close conn =
     (if do_close then map_option (\<lambda>c. snd (connection_close c)) conn else conn)"

definition try_get_next_try ::
    "boost_system \<Rightarrow> ('p, 'a) basic_try \<Rightarrow> error_code \<Rightarrow> ('h, 'o) connection option
     \<Rightarrow> (('p, 'a) basic_try, ('h, 'o) connection) try_action list
        \<times> ('h, 'o) connection option \<times> ('p, 'a) basic_try option" where
  "try_get_next_try bs t ec conn =
     (let do_close = get_option (ro_close_connection (bt_options t)) True;
          t = adjust_tries_remain t in
      if can_retry bs t ec
      then ((if ro_on_retry (bt_options t) then [Notify ec conn] else []) @ defer_close_actions do_close conn,
            defer_close_connection do_close conn, Some t)
      else (defer_close_actions do_close conn, defer_close_connection do_close conn, None))"

definition retry_next_try :: "boost_system \<Rightarrow> (('p, 'a) basic_try, ('h, 'o) connection) next_try" where
  "retry_next_try bs = initiate_next_try (try_get_next_try bs)"

text \<open>\<^verbatim>\<open>retry_strategy\<close>: its options before the number of tries is given, and its first try.\<close>

definition retry :: "user_condition list \<Rightarrow> int \<Rightarrow> retry_options" where
  "retry ecs n =
     \<lparr>ro_on_retry = False, ro_close_connection = None, ro_tries = n,
      ro_conditions = (if ecs \<noteq> [] then Some ecs else None)\<rparr>"

definition retry_get_first_try ::
    "retry_options \<Rightarrow> int \<Rightarrow> 'p \<Rightarrow> time_constraint \<Rightarrow> 'a \<Rightarrow> ('p, 'a) basic_try" where
  "retry_get_first_try opts now provider t args =
     \<lparr>bt_ctx = \<lparr>ctx_provider = provider, ctx_time_constraint = deadline now t, ctx_args = args\<rparr>,
      bt_options = opts\<rparr>"

definition retry_operation ::
    "boost_system \<Rightarrow> retry_options \<Rightarrow> int \<Rightarrow> 'p \<Rightarrow> time_constraint \<Rightarrow> 'a \<Rightarrow> (nat \<Rightarrow> ('h, 'o) connection attempt)
     \<Rightarrow> (('p, 'a) basic_context, ('h, 'o) connection) failover_event list option" where
  "retry_operation bs opts now provider t args env =
     initiate_operation (retry_next_try bs) try_get_context env (retry_get_first_try opts now provider t args)"

section \<open>Roles (role_based.h)\<close>

text \<open>The two roles of the library and the roles that a user defines, with the user's \<^verbatim>\<open>can_recover_impl\<close>.\<close>

datatype 'u role = master | replica | user_role 'u

definition master_conditions :: "user_condition list" where
  "master_conditions = map ErrcCondition [connection_error, type_mismatch, protocol_error, database_readonly]"

definition replica_conditions :: "user_condition list" where
  "replica_conditions = map ErrcCondition [connection_error, type_mismatch, protocol_error]"

fun can_recover :: "boost_system \<Rightarrow> ('u \<Rightarrow> error_code \<Rightarrow> bool) \<Rightarrow> 'u role \<Rightarrow> error_code \<Rightarrow> bool" where
  "can_recover bs user master ec = match_conditions bs master_conditions ec"
| "can_recover bs user replica ec = match_conditions bs replica_conditions ec"
| "can_recover bs user (user_role u) ec = user u ec"

record ('u, 's) role_based_connection_source =
  rs_sources :: "('u role \<times> 's) list"
  rs_role :: "'u role"

definition source_is_supported :: "('u, 's) role_based_connection_source \<Rightarrow> 'u role \<Rightarrow> bool" where
  "source_is_supported s r = (r \<in> fst ` set (rs_sources s))"

definition source_rebind_role ::
    "'u role \<Rightarrow> ('u, 's) role_based_connection_source \<Rightarrow> ('u, 's) role_based_connection_source" where
  "source_rebind_role r s = s\<lparr>rs_role := r\<rparr>"

text \<open>\<^verbatim>\<open>sources_[role_]\<close>; a role without a source does not compile.\<close>

definition source_call :: "('u, 's) role_based_connection_source \<Rightarrow> 's option" where
  "source_call s = map_of (rs_sources s) (rs_role s)"

definition make_role_based_connection_source ::
    "'u role \<times> 's \<Rightarrow> ('u role \<times> 's) list \<Rightarrow> ('u, 's) role_based_connection_source" where
  "make_role_based_connection_source p1 ps = \<lparr>rs_sources = p1 # ps, rs_role = fst p1\<rparr>"

record ('u, 's, 'io) role_based_connection_provider =
  rp_source :: "('u, 's) role_based_connection_source"
  rp_io :: 'io

definition provider_rebind_role ::
    "'u role \<Rightarrow> ('u, 's, 'io) role_based_connection_provider \<Rightarrow> ('u, 's, 'io) role_based_connection_provider" where
  "provider_rebind_role r p = p\<lparr>rp_source := source_rebind_role r (rp_source p)\<rparr>"

definition provider_async_get_connection :: "('u, 's, 'io) role_based_connection_provider \<Rightarrow> ('s \<times> 'io) option" where
  "provider_async_get_connection p = map_option (\<lambda>s. (s, rp_io p)) (source_call (rp_source p))"

record 'u role_based_options =
  rbo_on_fallback :: bool
  rbo_close_connection :: "bool option"
  rbo_roles :: "'u role list"

text \<open>The index of the role is part of the type of a try.\<close>

record ('u, 's, 'io, 'a) role_based_try =
  rbt_ctx :: "(('u, 's, 'io) role_based_connection_provider, 'a) basic_context"
  rbt_options :: "'u role_based_options"
  rbt_idx :: nat

definition role_of_try :: "('u, 's, 'io, 'a) role_based_try \<Rightarrow> 'u role" where
  "role_of_try t = rbo_roles (rbt_options t) ! rbt_idx t"

definition tries_left :: "('u, 's, 'io, 'a) role_based_try \<Rightarrow> nat" where
  "tries_left t = length (rbo_roles (rbt_options t)) - rbt_idx t"

definition role_time_constraint :: "('u, 's, 'io, 'a) role_based_try \<Rightarrow> int \<Rightarrow> time_constraint" where
  "role_time_constraint t now =
     get_try_time_constraint (ctx_time_constraint (rbt_ctx t)) (int (tries_left t)) now"

definition role_get_context ::
    "('u, 's, 'io, 'a) role_based_try \<Rightarrow> int \<Rightarrow> (('u, 's, 'io) role_based_connection_provider, 'a) basic_context" where
  "role_get_context t now =
     (rbt_ctx t)\<lparr>ctx_provider := provider_rebind_role (role_of_try t) (ctx_provider (rbt_ctx t)),
                 ctx_time_constraint := role_time_constraint t now\<rparr>"

text \<open>
  \<^verbatim>\<open>role_based_try::initiate_next_try\<close>: the initiator runs before the guard closes the connection; when the next
  role cannot recover, the guard is released and the next try is asked.
\<close>

function role_next_try ::
    "boost_system \<Rightarrow> ('u \<Rightarrow> error_code \<Rightarrow> bool) \<Rightarrow> ('u, 's, 'io, 'a) role_based_try \<Rightarrow> error_code
     \<Rightarrow> ('h, 'o) connection option
     \<Rightarrow> (('u, 's, 'io, 'a) role_based_try, ('h, 'o) connection) try_action list \<times> ('h, 'o) connection option" where
  "role_next_try bs user t ec conn =
     (let do_close = get_option (rbo_close_connection (rbt_options t)) True in
      if tries_left t > 1
      then let fallback = t\<lparr>rbt_idx := rbt_idx t + 1\<rparr> in
        (if can_recover bs user (role_of_try fallback) ec
         then ((if rbo_on_fallback (rbt_options fallback) then [Notify ec conn] else [])
                 @ InitTry fallback # defer_close_actions do_close conn, defer_close_connection do_close conn)
         else role_next_try bs user fallback ec conn)
      else (defer_close_actions do_close conn, defer_close_connection do_close conn))"
  by pat_completeness auto
termination
  by (relation "measure (\<lambda>(bs, user, t, ec, conn). tries_left t)") (auto simp: tries_left_def)

definition role_based :: "'u role list \<Rightarrow> 'u role_based_options" where
  "role_based roles = \<lparr>rbo_on_fallback = False, rbo_close_connection = None, rbo_roles = roles\<rparr>"

definition role_get_first_try ::
    "'u role_based_options \<Rightarrow> int \<Rightarrow> ('u, 's, 'io) role_based_connection_provider \<Rightarrow> time_constraint \<Rightarrow> 'a
     \<Rightarrow> ('u, 's, 'io, 'a) role_based_try" where
  "role_get_first_try opts now provider t args =
     \<lparr>rbt_ctx = \<lparr>ctx_provider = provider, ctx_time_constraint = deadline now t, ctx_args = args\<rparr>,
      rbt_options = opts, rbt_idx = 0\<rparr>"

definition role_based_operation ::
    "boost_system \<Rightarrow> ('u \<Rightarrow> error_code \<Rightarrow> bool) \<Rightarrow> 'u role_based_options \<Rightarrow> int
     \<Rightarrow> ('u, 's, 'io) role_based_connection_provider \<Rightarrow> time_constraint \<Rightarrow> 'a
     \<Rightarrow> (nat \<Rightarrow> ('h, 'o) connection attempt)
     \<Rightarrow> ((('u, 's, 'io) role_based_connection_provider, 'a) basic_context, ('h, 'o) connection)
          failover_event list option" where
  "role_based_operation bs user opts now provider t args env =
     initiate_operation (role_next_try bs user) role_get_context env
       (role_get_first_try opts now provider t args)"

declare role_next_try.simps [simp del]

section \<open>Any strategy whose tries decrease\<close>

text \<open>
  What the framework needs of a strategy: the initiator is called at most once, and every next try is smaller.
\<close>

fun handled :: "('x, 'c) failover_event list \<Rightarrow> (error_code \<times> 'c option) list" where
  "handled [] = []"
| "handled (Handled ec conn # es) = (ec, conn) # handled es"
| "handled (_ # es) = handled es"

fun initiated :: "('x, 'c) failover_event list \<Rightarrow> 'x list" where
  "initiated [] = []"
| "initiated (Initiated x # es) = x # initiated es"
| "initiated (_ # es) = initiated es"

lemma handled_append [simp]: "handled (xs @ ys) = handled xs @ handled ys"
  by (induction xs rule: handled.induct) simp_all

lemma initiated_append [simp]: "initiated (xs @ ys) = initiated xs @ initiated ys"
  by (induction xs rule: initiated.induct) simp_all

lemma inits_append [simp]: "inits (xs @ ys) = inits xs @ inits ys"
  by (induction xs rule: inits.induct) simp_all

lemma handled_actions [simp]: "handled (map (action_event f) as) = []"
  by (induction as rule: inits.induct) simp_all

lemma initiated_actions [simp]: "initiated (map (action_event f) as) = map f (inits as)"
  by (induction as rule: inits.induct) simp_all

lemma tries_from_success:
  assumes "\<not> ec_failed (at_ec (env i))"
  shows "tries_from next_try ctx env i t = Some [Handled (at_ec (env i)) (at_conn (env i))]"
  using assms by (simp add: tries_from.simps [of _ _ _ i] continuation_def)

lemma tries_from_give_up:
  assumes "ec_failed (at_ec (env i))" and "next_try t (at_ec (env i)) (at_conn (env i)) = (as, conn)"
    and "inits as = []"
  shows "tries_from next_try ctx env i t =
    Some (map (action_event (\<lambda>t. ctx t (at_now (env (Suc i))))) as @ [Handled (at_ec (env i)) conn])"
  using assms by (simp add: tries_from.simps [of _ _ _ i] continuation_def)

lemma tries_from_again:
  assumes "ec_failed (at_ec (env i))" and "next_try t (at_ec (env i)) (at_conn (env i)) = (as, conn)"
    and "inits as = [t']" and "tries_from next_try ctx env (Suc i) t' = Some es"
  shows "tries_from next_try ctx env i t =
    Some (map (action_event (\<lambda>t. ctx t (at_now (env (Suc i))))) as @ es)"
  using assms by (simp add: tries_from.simps [of _ _ _ i] continuation_def)

text \<open>
  The run of an operation as a relation: the tries that are started from \<open>t\<close> on, and what the handler gets.
\<close>

inductive failover_run ::
    "('t, 'c) next_try \<Rightarrow> (nat \<Rightarrow> 'c attempt) \<Rightarrow> nat \<Rightarrow> 't \<Rightarrow> 't list \<Rightarrow> error_code \<times> 'c option \<Rightarrow> bool"
  for next_try env where
  success: "\<not> ec_failed (at_ec (env i)) \<Longrightarrow>
     failover_run next_try env i t [t] (at_ec (env i), at_conn (env i))"
| give_up: "ec_failed (at_ec (env i)) \<Longrightarrow> next_try t (at_ec (env i)) (at_conn (env i)) = (as, conn) \<Longrightarrow>
     inits as = [] \<Longrightarrow> failover_run next_try env i t [t] (at_ec (env i), conn)"
| again: "ec_failed (at_ec (env i)) \<Longrightarrow> next_try t (at_ec (env i)) (at_conn (env i)) = (as, conn) \<Longrightarrow>
     inits as = [t'] \<Longrightarrow> failover_run next_try env (Suc i) t' ts r \<Longrightarrow>
     failover_run next_try env i t (t # ts) r"

definition contexts :: "('t \<Rightarrow> int \<Rightarrow> 'x) \<Rightarrow> (nat \<Rightarrow> 'c attempt) \<Rightarrow> nat \<Rightarrow> 't list \<Rightarrow> 'x list" where
  "contexts ctx env i ts = map (\<lambda>(k, t). ctx t (at_now (env k))) (List.enumerate i ts)"

lemma contexts_simps [simp]:
  "contexts ctx env i [] = []"
  "contexts ctx env i (t # ts) = ctx t (at_now (env i)) # contexts ctx env (Suc i) ts"
  by (simp_all add: contexts_def)

lemma contexts_map:
  "contexts ctx env i (map f ks) = map (\<lambda>(j, k). ctx (f k) (at_now (env j))) (List.enumerate i ks)"
  by (induction ks arbitrary: i) simp_all

lemma failover_run_hd: "failover_run next_try env i t ts r \<Longrightarrow> \<exists>ts'. ts = t # ts'"
  by (induction rule: failover_run.induct) simp_all

locale failover_strategy =
  fixes next_try :: "('t, 'c) next_try"
    and left :: "'t \<Rightarrow> nat"
  assumes init_once: "length (inits (fst (next_try t ec conn))) \<le> 1"
    and decreases: "t' \<in> set (inits (fst (next_try t ec conn))) \<Longrightarrow> left t' < left t"
begin

lemma tries_from_ends:
  "\<exists>es ts r. tries_from next_try ctx env i t = Some es \<and> failover_run next_try env i t ts r
     \<and> handled es = [r] \<and> ctx t (at_now (env i)) # initiated es = contexts ctx env i ts
     \<and> length ts \<le> Suc (left t)"
proof (induction "left t" arbitrary: t i rule: less_induct)
  case less
  obtain as conn where a: "next_try t (at_ec (env i)) (at_conn (env i)) = (as, conn)" by fastforce
  consider (ok) "\<not> ec_failed (at_ec (env i))" | (stop) "ec_failed (at_ec (env i))" "inits as = []"
    | (more) t' where "ec_failed (at_ec (env i))" "inits as = [t']"
    using init_once [of t "at_ec (env i)" "at_conn (env i)"] a by (cases "inits as") auto
  then show ?case
  proof cases
    case ok
    then show ?thesis
      using tries_from_success [of env i next_try ctx t] failover_run.success [of env i next_try t] by fastforce
  next
    case stop
    then show ?thesis
      using tries_from_give_up [of env i next_try t as conn ctx] failover_run.give_up [of env i next_try t as conn] a
      by fastforce
  next
    case more
    have lt: "left t' < left t" using decreases [of t' t] a more(2) by (metis fst_conv list.set_intros(1))
    then obtain es ts r where IH: "tries_from next_try ctx env (Suc i) t' = Some es"
      "failover_run next_try env (Suc i) t' ts r" "handled es = [r]"
      "ctx t' (at_now (env (Suc i))) # initiated es = contexts ctx env (Suc i) ts" "length ts \<le> Suc (left t')"
      using less by blast
    note tries_from_again [of env i next_try t as conn t' ctx es, OF more(1) a more(2) IH(1)]
    moreover note failover_run.again [of env i next_try t as conn t' ts r, OF more(1) a more(2) IH(2)]
    ultimately show ?thesis
      using IH more(2) lt by (intro exI [of _ "_ @ es"] exI [of _ "t # ts"] exI [of _ r]) auto
  qed
qed

lemma initiate_operation_ends:
  "\<exists>es ts r. initiate_operation next_try ctx env t = Some es \<and> failover_run next_try env 0 t ts r
     \<and> handled es = [r] \<and> initiated es = contexts ctx env 0 ts \<and> length ts \<le> Suc (left t)"
  using tries_from_ends [of ctx env 0 t] by (auto simp: initiate_operation_def) 

end

section \<open>The retry strategy\<close>

lemma inits_defer_close [simp]: "inits (defer_close_actions b conn) = []"
  by (simp add: defer_close_actions_def split: option.splits)

definition retryable :: "boost_system \<Rightarrow> retry_options \<Rightarrow> error_code \<Rightarrow> bool" where
  "retryable bs opts ec \<longleftrightarrow>
     get_option (ro_conditions opts) [] = [] \<or> match_conditions bs (get_option (ro_conditions opts) []) ec"

definition retry_closes :: "retry_options \<Rightarrow> bool" where
  "retry_closes opts = get_option (ro_close_connection opts) True"

lemma adjust_tries_remain_simps [simp]:
  "tries_remain (adjust_tries_remain t) = max 0 (tries_remain t - 1)"
  "bt_ctx (adjust_tries_remain t) = bt_ctx t"
  "retryable bs (bt_options (adjust_tries_remain t)) ec = retryable bs (bt_options t) ec"
  "retry_closes (bt_options (adjust_tries_remain t)) = retry_closes (bt_options t)"
  by (simp_all add: adjust_tries_remain_def tries_remain_def retryable_def retry_closes_def)

lemma retry_next_try_simps:
  "inits (fst (retry_next_try bs t ec conn)) =
     (if 2 \<le> tries_remain t \<and> retryable bs (bt_options t) ec then [adjust_tries_remain t] else [])"
  "snd (retry_next_try bs t ec conn) = defer_close_connection (retry_closes (bt_options t)) conn"
  by (auto simp: retry_next_try_def initiate_next_try_def try_get_next_try_def can_retry_def get_conditions_def
      retry_closes_def retryable_def adjust_tries_remain_def tries_remain_def Let_def)

interpretation retrying: failover_strategy "retry_next_try bs" "\<lambda>t. nat (tries_remain t - 1)" for bs
  by unfold_locales (auto simp: retry_next_try_simps split: if_splits)

lemma map_upt_Cons: "map f [0..<Suc (Suc k)] = f 0 # map (\<lambda>j. f (Suc j)) [0..<Suc k]"
  by (simp add: map_upt_Suc del: upt_Suc)

lemma retry_run:
  assumes "failover_run (retry_next_try bs) env i t ts r"
  shows "\<exists>k. (\<forall>j < k. ec_failed (at_ec (env (i + j))) \<and> retryable bs (bt_options t) (at_ec (env (i + j))))
    \<and> contexts try_get_context env i ts =
        map (\<lambda>j. (bt_ctx t)\<lparr>ctx_time_constraint := get_try_time_constraint (ctx_time_constraint (bt_ctx t))
           (tries_remain t - int j) (at_now (env (i + j)))\<rparr>) [0..<Suc k]
    \<and> (k = 0 \<or> int k < tries_remain t)
    \<and> r = (at_ec (env (i + k)),
           defer_close_connection (ec_failed (at_ec (env (i + k))) \<and> retry_closes (bt_options t)) (at_conn (env (i + k))))
    \<and> (ec_failed (at_ec (env (i + k))) \<and> retryable bs (bt_options t) (at_ec (env (i + k)))
         \<longrightarrow> tries_remain t \<le> int k + 1)"
  using assms
proof (induction rule: failover_run.induct)
  case (success i t)
  then show ?case
    by (intro exI [of _ 0]) (simp add: try_get_context_def try_time_constraint_def defer_close_connection_def)
next
  case (give_up i t as conn)
  then show ?case
    using retry_next_try_simps [of bs t "at_ec (env i)" "at_conn (env i)"]
    by (intro exI [of _ 0]) (auto simp: try_get_context_def try_time_constraint_def split: if_splits)
next
  case (again i t as conn t' ts r)
  have t': "t' = adjust_tries_remain t" "2 \<le> tries_remain t" "retryable bs (bt_options t) (at_ec (env i))"
    using again.hyps retry_next_try_simps(1) [of bs t "at_ec (env i)" "at_conn (env i)"] by (auto split: if_splits)
  obtain k where k: "\<forall>j < k. ec_failed (at_ec (env (Suc i + j))) \<and> retryable bs (bt_options t) (at_ec (env (Suc i + j)))"
    "contexts try_get_context env (Suc i) ts =
        map (\<lambda>j. (bt_ctx t)\<lparr>ctx_time_constraint := get_try_time_constraint (ctx_time_constraint (bt_ctx t))
           (tries_remain t - int (Suc j)) (at_now (env (Suc i + j)))\<rparr>) [0..<Suc k]"
    "k = 0 \<or> int k < tries_remain t - 1"
    "r = (at_ec (env (Suc i + k)), defer_close_connection
            (ec_failed (at_ec (env (Suc i + k))) \<and> retry_closes (bt_options t)) (at_conn (env (Suc i + k))))"
    "ec_failed (at_ec (env (Suc i + k))) \<and> retryable bs (bt_options t) (at_ec (env (Suc i + k)))
         \<longrightarrow> tries_remain t - 1 \<le> int k + 1"
    using again.IH t' by (auto simp: algebra_simps)
  have "ec_failed (at_ec (env (i + j))) \<and> retryable bs (bt_options t) (at_ec (env (i + j)))" if "j < Suc k" for j
    using that k(1) t' again.hyps(1) by (cases j) auto
  moreover have "contexts try_get_context env i (t # ts) =
        map (\<lambda>j. (bt_ctx t)\<lparr>ctx_time_constraint := get_try_time_constraint (ctx_time_constraint (bt_ctx t))
           (tries_remain t - int j) (at_now (env (i + j)))\<rparr>) [0..<Suc (Suc k)]"
    unfolding map_upt_Cons contexts_simps k(2)
    by (simp add: try_get_context_def [of t] try_time_constraint_def)
  ultimately show ?case
    using k(3-5) t'(2) by (intro exI [of _ "Suc k"]) auto
qed

section \<open>The role-based strategy\<close>

definition role_closes :: "'u role_based_options \<Rightarrow> bool" where
  "role_closes opts = get_option (rbo_close_connection opts) True"

text \<open>The first role behind position \<open>k\<close> that can recover.\<close>

definition next_role ::
    "boost_system \<Rightarrow> ('u \<Rightarrow> error_code \<Rightarrow> bool) \<Rightarrow> 'u role list \<Rightarrow> nat \<Rightarrow> error_code \<Rightarrow> nat option" where
  "next_role bs user roles k ec = find (\<lambda>l. can_recover bs user (roles ! l) ec) [Suc k..<length roles]"

lemma next_role_range: "next_role bs user roles k ec = Some l \<Longrightarrow> k < l \<and> l < length roles"
  by (auto simp: next_role_def find_Some_iff)

lemma next_role_step:
  "next_role bs user roles k ec =
     (if Suc k < length roles
      then if can_recover bs user (roles ! Suc k) ec then Some (Suc k) else next_role bs user roles (Suc k) ec
      else None)"
  by (simp add: next_role_def upt_conv_Cons)

lemma role_next_try_inits:
  "inits (fst (role_next_try bs user t ec conn)) =
     (case next_role bs user (rbo_roles (rbt_options t)) (rbt_idx t) ec of
        None \<Rightarrow> [] | Some l \<Rightarrow> [t\<lparr>rbt_idx := l\<rparr>])"
proof (induction bs user t ec conn rule: role_next_try.induct)
  case (1 bs user t ec conn)
  then show ?case
    unfolding next_role_step [of bs user _ "rbt_idx t"] role_next_try.simps [of bs user t]
    by (simp add: Let_def tries_left_def role_of_try_def less_diff_conv split: option.splits)
qed

lemma role_next_try_conn:
  "snd (role_next_try bs user t ec conn) = defer_close_connection (role_closes (rbt_options t)) conn"
proof (induction bs user t ec conn rule: role_next_try.induct)
  case (1 bs user t ec conn)
  then show ?case
    unfolding role_next_try.simps [of bs user t] by (simp add: Let_def role_closes_def)
qed

interpretation falling_back: failover_strategy "role_next_try bs user" "\<lambda>t. tries_left t - 1" for bs user
  by unfold_locales
    (auto simp: role_next_try_inits tries_left_def split: option.splits
      dest!: sym [of "Some _"] next_role_range)

text \<open>
  The positions of the roles that are tried, from the \<open>i\<close>-th completion on: each successor is the next role that can
  recover the error of its predecessor, and the last try succeeds or has no such role behind it.
\<close>

fun falls_back :: "(nat \<Rightarrow> error_code \<Rightarrow> nat option) \<Rightarrow> (nat \<Rightarrow> error_code) \<Rightarrow> nat \<Rightarrow> nat list \<Rightarrow> bool" where
  "falls_back nxt ecs i [] = False"
| "falls_back nxt ecs i [k] = (ec_failed (ecs i) \<longrightarrow> nxt k (ecs i) = None)"
| "falls_back nxt ecs i (k # l # ks) =
     (ec_failed (ecs i) \<and> nxt k (ecs i) = Some l \<and> falls_back nxt ecs (Suc i) (l # ks))"

lemma falls_back_sorted:
  "falls_back nxt ecs i ks \<Longrightarrow> (\<And>k ec l. nxt k ec = Some l \<Longrightarrow> k < l) \<Longrightarrow> sorted_wrt (<) ks"
proof (induction nxt ecs i ks rule: falls_back.induct)
  case (3 nxt ecs i k l ks)
  then have "k < l" "sorted_wrt (<) (l # ks)" by auto
  then show ?case by auto
qed simp_all

lemma role_run:
  assumes "failover_run (role_next_try bs user) env i t ts r"
  shows "\<exists>ks. ts = map (\<lambda>k. t\<lparr>rbt_idx := k\<rparr>) (rbt_idx t # ks)
    \<and> falls_back (next_role bs user (rbo_roles (rbt_options t))) (\<lambda>i. at_ec (env i)) i (rbt_idx t # ks)
    \<and> (\<forall>k \<in> set ks. k < length (rbo_roles (rbt_options t)))
    \<and> r = (at_ec (env (i + length ks)),
           defer_close_connection (ec_failed (at_ec (env (i + length ks))) \<and> role_closes (rbt_options t))
             (at_conn (env (i + length ks))))"
  using assms
proof (induction rule: failover_run.induct)
  case (success i t)
  then show ?case by (intro exI [of _ "[]"]) (simp add: defer_close_connection_def)
next
  case (give_up i t as conn)
  then show ?case
    using role_next_try_inits [of bs user t "at_ec (env i)" "at_conn (env i)"]
      role_next_try_conn [of bs user t "at_ec (env i)" "at_conn (env i)"]
    by (intro exI [of _ "[]"]) (auto split: option.splits)
next
  case (again i t as conn t' ts r)
  obtain l where l: "next_role bs user (rbo_roles (rbt_options t)) (rbt_idx t) (at_ec (env i)) = Some l"
    "t' = t\<lparr>rbt_idx := l\<rparr>"
    using again.hyps role_next_try_inits [of bs user t "at_ec (env i)" "at_conn (env i)"]
    by (auto split: option.splits)
  obtain ks where ks: "ts = map (\<lambda>k. t\<lparr>rbt_idx := k\<rparr>) (l # ks)"
    "falls_back (next_role bs user (rbo_roles (rbt_options t))) (\<lambda>i. at_ec (env i)) (Suc i) (l # ks)"
    "\<forall>k \<in> set ks. k < length (rbo_roles (rbt_options t))"
    "r = (at_ec (env (Suc i + length ks)),
           defer_close_connection (ec_failed (at_ec (env (Suc i + length ks))) \<and> role_closes (rbt_options t))
             (at_conn (env (Suc i + length ks))))"
    using again.IH l(2) by auto
  then show ?case
    using l again.hyps(1) next_role_range [OF l(1)] by (intro exI [of _ "l # ks"]) simp
qed

lemma last_try_left:
  assumes "rbt_idx t = length (rbo_roles (rbt_options t)) - 1" and "rbo_roles (rbt_options t) \<noteq> []"
  shows "tries_left t = 1"
  using assms by (cases "rbo_roles (rbt_options t)") (simp_all add: tries_left_def)

text \<open>The provider of a try takes its connections from the source of the role.\<close>

lemma rebound_source:
  assumes "source_is_supported (rp_source p) r"
  shows "\<exists>s. (r, s) \<in> set (rs_sources (rp_source p))
    \<and> provider_async_get_connection (provider_rebind_role r p) = Some (s, rp_io p)"
proof -
  have "map_of (rs_sources (rp_source p)) r \<noteq> None"
    using assms by (simp add: source_is_supported_def map_of_eq_None_iff)
  then show ?thesis
    by (auto simp: provider_async_get_connection_def provider_rebind_role_def source_rebind_role_def
        source_call_def dest: map_of_SomeD)
qed

section \<open>Time of the tries\<close>

definition share :: "int \<Rightarrow> int \<Rightarrow> int \<Rightarrow> int" where
  "share D n now = (if n > 0 then duration_div (time_left D now) n else 0)"

lemma share_eq: "now \<le> D \<Longrightarrow> 0 < n \<Longrightarrow> share D n now = (D - now) div n"
  by (simp add: share_def duration_div_def time_left_def)

lemma share_fits:
  assumes "now \<le> D" and "0 < n"
  shows "now + share D n now \<le> D"
proof -
  have "(D - now) div n \<le> D - now" using zdiv_mono2 [of "D - now" 1 n] assms by simp
  then show ?thesis using assms by (simp add: share_eq)
qed

lemma share_grows:
  assumes "now \<le> D" and "1 < n" and "later \<le> now + share D n now"
  shows "later \<le> D \<and> share D n now \<le> share D (n - 1) later"
proof
  show "later \<le> D" using assms share_fits [of now D n] by simp
  let ?q = "(D - now) div n"
  have "?q * n \<le> D - now" using div_mult_mod_eq [of "D - now" n] pos_mod_sign [of n "D - now"] assms(2) by linarith
  moreover have "later \<le> now + ?q" using assms by (simp add: share_eq)
  ultimately have "?q * (n - 1) \<le> D - later" by (simp add: algebra_simps)
  then have "?q \<le> (D - later) div (n - 1)" using zdiv_mono1 [of "?q * (n - 1)" "D - later" "n - 1"] assms(2) by simp
  then show "share D n now \<le> share D (n - 1) later"
    using assms \<open>later \<le> D\<close> by (simp add: share_eq)
qed

lemma shares_grow:
  assumes "s 0 \<le> D" and "\<And>j. Suc j \<le> k \<Longrightarrow> s (Suc j) \<le> s j + share D (n - int j) (s j)"
    and "int k < n" and "j \<le> k"
  shows "s j \<le> D \<and> share D n (s 0) \<le> share D (n - int j) (s j)"
  using assms(4)
proof (induction j)
  case 0
  then show ?case using assms(1) by simp
next
  case (Suc j)
  then have "s j \<le> D" "share D n (s 0) \<le> share D (n - int j) (s j)" by simp_all
  with share_grows [of "s j" D "n - int j" "s (Suc j)"] assms(2,3) Suc.prems
  show ?case by (auto simp: algebra_simps)
qed

section \<open>Runs of the two strategies\<close>

lemma retry_operation_runs:
  "\<exists>es k. retry_operation bs opts now provider t args env = Some es
    \<and> (\<forall>j < k. ec_failed (at_ec (env j)) \<and> retryable bs opts (at_ec (env j)))
    \<and> initiated es =
        map (\<lambda>j. \<lparr>ctx_provider = provider,
                   ctx_time_constraint = get_try_time_constraint (deadline now t) (ro_tries opts - int j) (at_now (env j)),
                   ctx_args = args\<rparr>) [0..<Suc k]
    \<and> (k = 0 \<or> int k < ro_tries opts)
    \<and> handled es = [(at_ec (env k),
         defer_close_connection (ec_failed (at_ec (env k)) \<and> retry_closes opts) (at_conn (env k)))]
    \<and> (ec_failed (at_ec (env k)) \<and> retryable bs opts (at_ec (env k)) \<longrightarrow> ro_tries opts \<le> int k + 1)"
proof -
  let ?t = "retry_get_first_try opts now provider t args"
  obtain es ts r where run: "retry_operation bs opts now provider t args env = Some es"
    "failover_run (retry_next_try bs) env 0 ?t ts r" "handled es = [r]"
    "initiated es = contexts try_get_context env 0 ts"
    using retrying.initiate_operation_ends [of bs try_get_context env ?t] by (auto simp: retry_operation_def)
  have t: "bt_options ?t = opts" "tries_remain ?t = ro_tries opts"
    "bt_ctx ?t = \<lparr>ctx_provider = provider, ctx_time_constraint = deadline now t, ctx_args = args\<rparr>"
    by (simp_all add: retry_get_first_try_def tries_remain_def)
  show ?thesis using retry_run [OF run(2)] run(1,3,4) t by auto
qed

lemma role_based_operation_runs:
  "\<exists>es ks. role_based_operation bs user opts now provider t args env = Some es
    \<and> falls_back (next_role bs user (rbo_roles opts)) (\<lambda>i. at_ec (env i)) 0 (0 # ks)
    \<and> (\<forall>k \<in> set ks. k < length (rbo_roles opts))
    \<and> initiated es =
        map (\<lambda>(j, k). \<lparr>ctx_provider = provider_rebind_role (rbo_roles opts ! k) provider,
               ctx_time_constraint =
                 get_try_time_constraint (deadline now t) (int (length (rbo_roles opts) - k)) (at_now (env j)),
               ctx_args = args\<rparr>) (List.enumerate 0 (0 # ks))
    \<and> handled es = [(at_ec (env (length ks)),
         defer_close_connection (ec_failed (at_ec (env (length ks))) \<and> role_closes opts) (at_conn (env (length ks))))]"
proof -
  let ?t = "role_get_first_try opts now provider t args"
  obtain es ts r where run: "role_based_operation bs user opts now provider t args env = Some es"
    "failover_run (role_next_try bs user) env 0 ?t ts r" "handled es = [r]"
    "initiated es = contexts role_get_context env 0 ts"
    using falling_back.initiate_operation_ends [of bs user role_get_context env ?t]
    by (auto simp: role_based_operation_def)
  have t: "rbt_options ?t = opts" "rbt_idx ?t = 0"
    "\<And>k now'. role_get_context (?t\<lparr>rbt_idx := k\<rparr>) now' =
       \<lparr>ctx_provider = provider_rebind_role (rbo_roles opts ! k) provider,
        ctx_time_constraint = get_try_time_constraint (deadline now t) (int (length (rbo_roles opts) - k)) now',
        ctx_args = args\<rparr>"
    by (simp_all add: role_get_first_try_def role_get_context_def role_of_try_def role_time_constraint_def
        tries_left_def)
  obtain ks where ks: "ts = map (\<lambda>k. ?t\<lparr>rbt_idx := k\<rparr>) (0 # ks)"
    "falls_back (next_role bs user (rbo_roles opts)) (\<lambda>i. at_ec (env i)) 0 (0 # ks)"
    "\<forall>k \<in> set ks. k < length (rbo_roles opts)"
    "r = (at_ec (env (length ks)),
         defer_close_connection (ec_failed (at_ec (env (length ks))) \<and> role_closes opts) (at_conn (env (length ks))))"
    using role_run [OF run(2)] unfolding t by auto
  have "initiated es = map (\<lambda>(j, k). role_get_context (?t\<lparr>rbt_idx := k\<rparr>) (at_now (env j))) (List.enumerate 0 (0 # ks))"
    unfolding run(4) ks(1) by (rule contexts_map)
  then show ?thesis using run(1,3) ks unfolding t by blast
qed

section \<open>Properties\<close>

text \<open>C18 Termination. An operation with the retry strategy always ends, whatever its tries complete with: it is
  started at most as often as the number of tries says (once at least), a further try is made only after an error
  that the conditions accept, and the handler is called exactly once, with the completion of the last try. An error
  that is handed over comes with its connection closed, unless the option forbids it, and an acceptable error is
  handed over only when no tries remain.\<close>
theorem retry_ends:
  "\<exists>es k. retry_operation bs opts now provider t args env = Some es
    \<and> length (initiated es) = Suc k \<and> Suc k \<le> max 1 (nat (ro_tries opts))
    \<and> (\<forall>j < k. ec_failed (at_ec (env j)) \<and> retryable bs opts (at_ec (env j)))
    \<and> handled es = [(at_ec (env k),
         defer_close_connection (ec_failed (at_ec (env k)) \<and> retry_closes opts) (at_conn (env k)))]
    \<and> (ec_failed (at_ec (env k)) \<and> retryable bs opts (at_ec (env k)) \<longrightarrow> Suc k = max 1 (nat (ro_tries opts)))"
proof -
  obtain es k where k: "retry_operation bs opts now provider t args env = Some es"
    "\<forall>j < k. ec_failed (at_ec (env j)) \<and> retryable bs opts (at_ec (env j))"
    "length (initiated es) = Suc k"
    "k = 0 \<or> int k < ro_tries opts"
    "handled es = [(at_ec (env k),
         defer_close_connection (ec_failed (at_ec (env k)) \<and> retry_closes opts) (at_conn (env k)))]"
    "ec_failed (at_ec (env k)) \<and> retryable bs opts (at_ec (env k)) \<longrightarrow> ro_tries opts \<le> int k + 1"
    using retry_operation_runs [of bs opts now provider t args env] by fastforce
  then show ?thesis by (intro exI [of _ es] exI [of _ k]) auto
qed

definition sample_ec :: error_code where
  "sample_ec = error_make_error_code unexpected_eof"

definition failing :: "nat \<Rightarrow> (nat, unit) connection attempt" where
  "failing i = \<lparr>at_now = 10 * int i, at_ec = sample_ec, at_conn = None\<rparr>"

lemma sample_ec_failed [simp]: "ec_failed sample_ec"
  by (simp add: sample_ec_def ec_failed_def error_make_error_code_def)

theorem retry_ends_witness:
  "\<exists>es. retry_operation sample_boost (retry [] 3) 0 () (Duration 60) () failing = Some es
     \<and> length (initiated es) = 3 \<and> handled es = [(sample_ec, None)]"
proof -
  have r: "retryable sample_boost (retry [] 3) ec" "ro_tries (retry [] 3) = 3" for ec
    by (simp_all add: retryable_def retry_def get_option_def)
  have f: "at_ec (failing i) = sample_ec" "at_conn (failing i) = None" for i by (simp_all add: failing_def)
  show ?thesis
    using retry_ends [of sample_boost "retry [] 3" 0 "()" "Duration 60" "()" failing]
    by (auto simp: r f defer_close_connection_def)
qed

text \<open>C19 Functional. An operation with the role-based strategy always ends. It starts with the first role; after an
  error it goes on with the first later role that can recover it, skipping the roles that cannot, so no role is tried
  twice; each try gets the connection provider of its role and its share of the time; the handler is called exactly
  once, after a success or after an error that no later role can recover.\<close>
theorem role_based_falls_back:
  assumes "rbo_roles opts \<noteq> []"
  shows "\<exists>es ks. role_based_operation bs user opts now provider t args env = Some es
    \<and> falls_back (next_role bs user (rbo_roles opts)) (\<lambda>i. at_ec (env i)) 0 (0 # ks)
    \<and> sorted_wrt (<) (0 # ks) \<and> length (0 # ks) \<le> length (rbo_roles opts)
    \<and> initiated es =
        map (\<lambda>(j, k). \<lparr>ctx_provider = provider_rebind_role (rbo_roles opts ! k) provider,
               ctx_time_constraint =
                 get_try_time_constraint (deadline now t) (int (length (rbo_roles opts) - k)) (at_now (env j)),
               ctx_args = args\<rparr>) (List.enumerate 0 (0 # ks))
    \<and> handled es = [(at_ec (env (length ks)),
         defer_close_connection (ec_failed (at_ec (env (length ks))) \<and> role_closes opts) (at_conn (env (length ks))))]"
proof -
  obtain es ks where run: "role_based_operation bs user opts now provider t args env = Some es"
    "falls_back (next_role bs user (rbo_roles opts)) (\<lambda>i. at_ec (env i)) 0 (0 # ks)"
    "\<forall>k \<in> set ks. k < length (rbo_roles opts)"
    "initiated es =
        map (\<lambda>(j, k). \<lparr>ctx_provider = provider_rebind_role (rbo_roles opts ! k) provider,
               ctx_time_constraint =
                 get_try_time_constraint (deadline now t) (int (length (rbo_roles opts) - k)) (at_now (env j)),
               ctx_args = args\<rparr>) (List.enumerate 0 (0 # ks))"
    "handled es = [(at_ec (env (length ks)),
         defer_close_connection (ec_failed (at_ec (env (length ks))) \<and> role_closes opts) (at_conn (env (length ks))))]"
    using role_based_operation_runs [of bs user opts now provider t args env] by blast
  have sorted: "sorted_wrt (<) (0 # ks)"
    using falls_back_sorted [OF run(2)] next_role_range by blast
  then have "distinct (0 # ks)" by (auto simp: strict_sorted_iff)
  moreover have "set (0 # ks) \<subseteq> {..<length (rbo_roles opts)}" using run(3) assms by auto
  ultimately have "length (0 # ks) \<le> length (rbo_roles opts)"
    using card_mono [of "{..<length (rbo_roles opts)}" "set (0 # ks)"] distinct_card [of "0 # ks"] by simp
  then show ?thesis using run sorted by blast
qed

definition sample_roles :: "nat role_based_options" where
  "sample_roles = role_based [user_role 0, user_role 1, user_role 2]"

definition sample_provider :: "(nat, nat, unit) role_based_connection_provider" where
  "sample_provider =
     \<lparr>rp_source = make_role_based_connection_source (user_role 0, 10) [(user_role 1, 11), (user_role 2, 12)], rp_io = ()\<rparr>"

lemma sample_next_role:
  "next_role sample_boost (\<lambda>u ec. u = 2) (rbo_roles sample_roles) k ec = (if k < 2 then Some 2 else None)"
proof (cases "k < 2")
  case True
  then have "k = 0 \<or> k = 1" by auto
  then show ?thesis by (auto simp: next_role_def sample_roles_def role_based_def upt_conv_Cons)
next
  case False
  then show ?thesis by (simp add: next_role_def sample_roles_def role_based_def)
qed

theorem role_based_falls_back_witness:
  "\<exists>es. role_based_operation sample_boost (\<lambda>u ec. u = 2) sample_roles 0 sample_provider NoConstraint () failing = Some es
     \<and> map (\<lambda>x. provider_async_get_connection (ctx_provider x)) (initiated es) = [Some (10, ()), Some (12, ())]
     \<and> handled es = [(sample_ec, None)]"
proof -
  have f: "at_ec (failing i) = sample_ec" "at_conn (failing i) = None" for i by (simp_all add: failing_def)
  have roles: "rbo_roles sample_roles = [user_role 0, user_role 1, user_role 2]"
    by (simp add: sample_roles_def role_based_def)
  obtain es ks where es: "role_based_operation sample_boost (\<lambda>u ec. u = 2) sample_roles 0 sample_provider NoConstraint () failing = Some es"
    "falls_back (next_role sample_boost (\<lambda>u ec. u = 2) (rbo_roles sample_roles)) (\<lambda>i. at_ec (failing i)) 0 (0 # ks)"
    "initiated es =
        map (\<lambda>(j, k). \<lparr>ctx_provider = provider_rebind_role (rbo_roles sample_roles ! k) sample_provider,
               ctx_time_constraint =
                 get_try_time_constraint (deadline 0 NoConstraint) (int (length (rbo_roles sample_roles) - k)) (at_now (failing j)),
               ctx_args = ()\<rparr>) (List.enumerate 0 (0 # ks))"
    "handled es = [(at_ec (failing (length ks)), defer_close_connection
       (ec_failed (at_ec (failing (length ks))) \<and> role_closes sample_roles) (at_conn (failing (length ks))))]"
    using role_based_falls_back [of sample_roles sample_boost "\<lambda>u ec. u = 2" 0 sample_provider NoConstraint "()" failing]
    by (auto simp: roles)
  obtain l ls where "ks = l # ls" using es(2) by (cases ks) (simp_all add: sample_next_role f)
  then have ks: "ks = [2]" using es(2) by (cases ls) (auto simp: sample_next_role f split: if_splits)
  show ?thesis
    using es(1,3,4) unfolding ks
    by (simp add: f roles sample_provider_def make_role_based_connection_source_def provider_rebind_role_def
        source_rebind_role_def provider_async_get_connection_def source_call_def defer_close_connection_def)
qed

text \<open>Bounds. When every try of a retried operation with a deadline ends within its own time constraint, each try
  has at least the time that an even division of the whole time among the tries gives, and none of them may run past
  the deadline.\<close>
lemma retry_time_shares:
  assumes "retry_operation bs opts now provider t args env = Some es"
    and "deadline now t = TimePoint D" and "0 < ro_tries opts" and "at_now (env 0) \<le> D"
    and "\<forall>j d. Suc j < length (initiated es) \<and> ctx_time_constraint (initiated es ! j) = Duration d
           \<longrightarrow> at_now (env (Suc j)) \<le> at_now (env j) + d"
    and "j < length (initiated es)"
  shows "\<exists>d. ctx_time_constraint (initiated es ! j) = Duration d
    \<and> (D - at_now (env 0)) div ro_tries opts \<le> d \<and> at_now (env j) + d \<le> D"
proof -
  let ?n = "ro_tries opts"
  obtain k where k: "initiated es =
        map (\<lambda>j. \<lparr>ctx_provider = provider, ctx_time_constraint = get_try_time_constraint (deadline now t) (?n - int j) (at_now (env j)),
                   ctx_args = args\<rparr>) [0..<Suc k]" "k = 0 \<or> int k < ?n"
    using retry_operation_runs [of bs opts now provider t args env] assms(1) by auto
  have tc: "ctx_time_constraint (initiated es ! i) = Duration (share D (?n - int i) (at_now (env i)))" if "i < Suc k" for i
    using that unfolding k(1) assms(2) by (simp add: share_def del: upt_Suc)
  have len: "length (initiated es) = Suc k" by (simp add: k(1))
  have kn: "int k < ?n" using k(2) assms(3) by auto
  have "at_now (env j) \<le> D \<and> share D ?n (at_now (env 0)) \<le> share D (?n - int j) (at_now (env j))"
    using shares_grow [of "\<lambda>i. at_now (env i)" D k ?n j] assms(4-6) tc len kn by simp
  then show ?thesis
    using tc [of j] share_fits [of "at_now (env j)" D "?n - int j"] share_eq [OF assms(4,3)] assms(6) len kn by simp
qed

definition slow_failing :: "nat \<Rightarrow> (nat, unit) connection attempt" where
  "slow_failing i = \<lparr>at_now = 20 * int i, at_ec = sample_ec, at_conn = None\<rparr>"

end
