(* ===== verification/Ozo_Request.thy ===== *)
theory Ozo_Request
  imports Ozo_Deadline Ozo_Query_Builder
begin

text \<open>
  \<^verbatim>\<open>ozo/impl/async_request.h\<close>, \<^verbatim>\<open>impl/io.h\<close> and \<^verbatim>\<open>impl/request_oid_map.h\<close>: one request on a connection. Its
  query is flushed by one chain of completions and its result read by another; the two share a context with the
  state of the query. libpq is a record of functions on a state that data from the network may change at any time.
\<close>

section \<open>libpq as the request uses it (impl/io.h)\<close>

datatype exec_status =
    PGRES_EMPTY_QUERY | PGRES_COMMAND_OK | PGRES_TUPLES_OK | PGRES_COPY_OUT | PGRES_COPY_IN
  | PGRES_BAD_RESPONSE | PGRES_NONFATAL_ERROR | PGRES_FATAL_ERROR | PGRES_COPY_BOTH | PGRES_SINGLE_TUPLE

fun get_result_status_name :: "exec_status \<Rightarrow> string" where
  "get_result_status_name PGRES_SINGLE_TUPLE = ''PGRES_SINGLE_TUPLE''"
| "get_result_status_name PGRES_TUPLES_OK = ''PGRES_TUPLES_OK''"
| "get_result_status_name PGRES_COMMAND_OK = ''PGRES_COMMAND_OK''"
| "get_result_status_name PGRES_COPY_OUT = ''PGRES_COPY_OUT''"
| "get_result_status_name PGRES_COPY_IN = ''PGRES_COPY_IN''"
| "get_result_status_name PGRES_COPY_BOTH = ''PGRES_COPY_BOTH''"
| "get_result_status_name PGRES_NONFATAL_ERROR = ''PGRES_NONFATAL_ERROR''"
| "get_result_status_name PGRES_BAD_RESPONSE = ''PGRES_BAD_RESPONSE''"
| "get_result_status_name PGRES_EMPTY_QUERY = ''PGRES_EMPTY_QUERY''"
| "get_result_status_name PGRES_FATAL_ERROR = ''PGRES_FATAL_ERROR''"

text \<open>
  Each function gives its answer and the state afterwards; \<open>pq_setnonblocking\<close> answers whether it failed,
  \<open>pq_send_query_params\<close> and \<open>pq_consume_input\<close> whether they succeeded. The last two fields are Asio's codes.
\<close>

record ('p, 'q, 'r) request_io =
  pq_setnonblocking :: "'p \<Rightarrow> bool \<times> 'p"
  pq_send_query_params :: "'q \<Rightarrow> 'p \<Rightarrow> bool \<times> 'p"
  pq_consume_input :: "'p \<Rightarrow> bool \<times> 'p"
  pq_is_busy :: "'p \<Rightarrow> bool \<times> 'p"
  pq_flush :: "'p \<Rightarrow> int \<times> 'p"
  pq_get_result :: "'p \<Rightarrow> 'r option \<times> 'p"
  pq_result_status :: "'r \<Rightarrow> exec_status"
  pq_result_sqlstate :: "'r \<Rightarrow> string option"
  io_bad_descriptor :: error_code
  io_operation_aborted :: error_code

datatype query_state = qs_error | qs_send_finish | qs_send_in_progress

text \<open>\<^verbatim>\<open>static_cast<query_state>(PQflush(...))\<close>; a value without an enumerator matches no case of the switch.\<close>

definition query_state_of :: "int \<Rightarrow> query_state option" where
  "query_state_of v =
     (if v = - 1 then Some qs_error else if v = 0 then Some qs_send_finish
      else if v = 1 then Some qs_send_in_progress else None)"

definition flush_output :: "('p, 'q, 'r) request_io \<Rightarrow> 'p \<Rightarrow> query_state option \<times> 'p" where
  "flush_output io p = (let (v, p) = pq_flush io p in (query_state_of v, p))"

definition set_nonblocking :: "('p, 'q, 'r) request_io \<Rightarrow> 'p \<Rightarrow> error_code \<times> 'p" where
  "set_nonblocking io p =
     (let (bad, p) = pq_setnonblocking io p in
      (if bad then error_make_error_code pg_set_nonblocking_failed else no_error, p))"

definition consume_input :: "('p, 'q, 'r) request_io \<Rightarrow> 'p \<Rightarrow> error_code \<times> 'p" where
  "consume_input io p =
     (let (ok, p) = pq_consume_input io p in
      (if ok then no_error else error_make_error_code pg_consume_input_failed, p))"

text \<open>\<^verbatim>\<open>std::strtol(s, nullptr, 36)\<close> of the state that the server reports.\<close>

definition result_error :: "('p, 'q, 'r) request_io \<Rightarrow> 'r \<Rightarrow> error_code" where
  "result_error io r =
     (case pq_result_sqlstate io r of
        Some s \<Rightarrow> sqlstate_make_error_code (b36tol s)
      | None \<Rightarrow> error_make_error_code no_sql_state_found)"

definition ec_set :: "error_code \<Rightarrow> bool" where
  "ec_set ec = (ec_value ec \<noteq> 0)"

section \<open>The context of a request\<close>

datatype 'r read_wait = WaitFirst | WaitDrain 'r

text \<open>
  \<^verbatim>\<open>request_operation_context\<close> with what the request has done so far: the calls of its handler, the results given
  to the processor, the number of times the connection was cancelled, and the waits that are outstanding.
\<close>

record ('p, 'r) request_context =
  rc_pq :: 'p
  rc_error_context :: string
  rc_state :: query_state
  rc_write :: bool
  rc_read :: "'r read_wait option"
  rc_cancels :: nat
  rc_processed :: "'r list"
  rc_calls :: "error_code list"

definition make_request_operation_context :: "'p \<Rightarrow> string \<Rightarrow> ('p, 'r) request_context" where
  "make_request_operation_context p err =
     \<lparr>rc_pq = p, rc_error_context = err, rc_state = qs_send_in_progress, rc_write = False, rc_read = None,
      rc_cancels = 0, rc_processed = [], rc_calls = []\<rparr>"

definition done_with :: "error_code \<Rightarrow> ('p, 'r) request_context \<Rightarrow> ('p, 'r) request_context" where
  "done_with ec c =
     c\<lparr>rc_state := qs_error, rc_cancels := rc_cancels c + 1, rc_calls := rc_calls c @ [ec]\<rparr>"

definition done_ok :: "('p, 'r) request_context \<Rightarrow> ('p, 'r) request_context" where
  "done_ok c = c\<lparr>rc_calls := rc_calls c @ [no_error]\<rparr>"

section \<open>Sending (async_send_query_params_op)\<close>

definition send_op ::
    "('p, 'q, 'r) request_io \<Rightarrow> error_code \<Rightarrow> ('p, 'r) request_context \<Rightarrow> ('p, 'r) request_context" where
  "send_op io ec c =
     (if rc_state c \<noteq> qs_send_in_progress then c
      else if ec_set ec then done_with ec c
      else let (s, p) = flush_output io (rc_pq c); c = c\<lparr>rc_pq := p\<rparr> in
        (case s of
           Some qs_error \<Rightarrow> done_with (error_make_error_code pg_flush_failed) c
         | Some qs_send_in_progress \<Rightarrow> c\<lparr>rc_write := True\<rparr>
         | Some qs_send_finish \<Rightarrow> c\<lparr>rc_state := qs_send_finish\<rparr>
         | None \<Rightarrow> c))"

definition send_perform ::
    "('p, 'q, 'r) request_io \<Rightarrow> 'q \<Rightarrow> ('p, 'r) request_context \<Rightarrow> ('p, 'r) request_context" where
  "send_perform io q c =
     (let (ec, p) = set_nonblocking io (rc_pq c); c = c\<lparr>rc_pq := p\<rparr> in
      if ec_set ec then done_with ec c
      else let (sent, p) = pq_send_query_params io q (rc_pq c); c = c\<lparr>rc_pq := p\<rparr> in
        if \<not> sent then done_with (error_make_error_code pg_send_query_params_failed) c
        else send_op io no_error c)"

section \<open>Receiving (async_get_result_op)\<close>

definition result_done :: "error_code \<Rightarrow> ('p, 'r) request_context \<Rightarrow> ('p, 'r) request_context" where
  "result_done ec c =
     done_with ec
       (if rc_error_context c = '''' then c\<lparr>rc_error_context := ''error while get request result''\<rparr> else c)"

text \<open>The processor answers with the text of the exception it throws, if any.\<close>

definition process_and_done ::
    "('r \<Rightarrow> string option) \<Rightarrow> 'r \<Rightarrow> ('p, 'r) request_context \<Rightarrow> ('p, 'r) request_context" where
  "process_and_done process r c =
     (let c = c\<lparr>rc_processed := rc_processed c @ [r]\<rparr> in
      case process r of
        Some what \<Rightarrow> result_done (error_make_error_code bad_result_process) (c\<lparr>rc_error_context := what\<rparr>)
      | None \<Rightarrow> done_ok c)"

definition handle_result ::
    "('p, 'q, 'r) request_io \<Rightarrow> ('r \<Rightarrow> string option) \<Rightarrow> 'r \<Rightarrow> ('p, 'r) request_context \<Rightarrow> ('p, 'r) request_context" where
  "handle_result io process r c =
     (let status = pq_result_status io r in
      if status \<in> {PGRES_SINGLE_TUPLE, PGRES_TUPLES_OK, PGRES_COMMAND_OK} then process_and_done process r c
      else if status = PGRES_BAD_RESPONSE then result_done (error_make_error_code result_status_bad_response) c
      else if status = PGRES_EMPTY_QUERY then result_done (error_make_error_code result_status_empty_query) c
      else if status = PGRES_FATAL_ERROR then result_done (result_error io r) c
      else result_done (error_make_error_code result_status_unexpected)
             (c\<lparr>rc_error_context := get_result_status_name status\<rparr>))"

text \<open>
  The two loops of the coroutine from one suspension to the next. The second one takes the results behind the
  first out of libpq until there is none; it ends only if libpq runs out of results, otherwise its value is
  \<open>None\<close>.
\<close>

partial_function (option) drain_results ::
    "('p, 'q, 'r) request_io \<Rightarrow> ('r \<Rightarrow> string option) \<Rightarrow> 'r \<Rightarrow> ('p, 'r) request_context
     \<Rightarrow> ('p, 'r) request_context option" where
  "drain_results io process r c =
     (let (busy, p) = pq_is_busy io (rc_pq c) in
      if busy then Some (c\<lparr>rc_pq := p, rc_read := Some (WaitDrain r)\<rparr>)
      else let (res, p) = pq_get_result io p in
        (case res of
           Some _ \<Rightarrow> drain_results io process r (c\<lparr>rc_pq := p\<rparr>)
         | None \<Rightarrow> Some (handle_result io process r (c\<lparr>rc_pq := p\<rparr>))))"

definition first_result ::
    "('p, 'q, 'r) request_io \<Rightarrow> ('r \<Rightarrow> string option) \<Rightarrow> ('p, 'r) request_context \<Rightarrow> ('p, 'r) request_context option" where
  "first_result io process c =
     (let (busy, p) = pq_is_busy io (rc_pq c) in
      if busy then Some (c\<lparr>rc_pq := p, rc_read := Some WaitFirst\<rparr>)
      else let (res, p) = pq_get_result io p; c = c\<lparr>rc_pq := p\<rparr> in
        (case res of
           None \<Rightarrow> Some (done_ok c)
         | Some r \<Rightarrow>
             if pq_result_status io r \<noteq> PGRES_SINGLE_TUPLE then drain_results io process r c
             else Some (handle_result io process r c)))"

text \<open>\<^verbatim>\<open>operator()\<close> when the wait \<open>w\<close> has completed with \<open>ec\<close>.\<close>

definition get_result_op ::
    "('p, 'q, 'r) request_io \<Rightarrow> ('r \<Rightarrow> string option) \<Rightarrow> error_code \<Rightarrow> 'r read_wait \<Rightarrow> ('p, 'r) request_context
     \<Rightarrow> ('p, 'r) request_context option" where
  "get_result_op io process ec w c =
     (if rc_state c = qs_error then Some c
      else if ec_set ec
      then Some (result_done (if ec = io_bad_descriptor io then io_operation_aborted io else ec) c)
      else let (err, p) = consume_input io (rc_pq c); c = c\<lparr>rc_pq := p\<rparr> in
        (case w of
           WaitFirst \<Rightarrow> if ec_set err then Some (result_done err c) else first_result io process c
         | WaitDrain r \<Rightarrow> if ec_set err then Some (handle_result io process r c) else drain_results io process r c))"

definition get_result_perform ::
    "('p, 'q, 'r) request_io \<Rightarrow> ('r \<Rightarrow> string option) \<Rightarrow> ('p, 'r) request_context \<Rightarrow> ('p, 'r) request_context option" where
  "get_result_perform io process c = (if rc_state c = qs_error then Some c else first_result io process c)"

section \<open>The request (async_request_op)\<close>

text \<open>\<^verbatim>\<open>operator()\<close> with a connection: the query is sent and the reading of its result is started.\<close>

definition async_request_op ::
    "('p, 'q, 'r) request_io \<Rightarrow> ('r \<Rightarrow> string option) \<Rightarrow> 'q \<Rightarrow> 'p \<Rightarrow> string \<Rightarrow> ('p, 'r) request_context option" where
  "async_request_op io process q p err =
     get_result_perform io process (send_perform io q (make_request_operation_context p err))"

text \<open>
  The completions run one after the other on the strand of the request, in any order; between them data arrives.
\<close>

inductive request_step ::
    "('p, 'q, 'r) request_io \<Rightarrow> ('r \<Rightarrow> string option) \<Rightarrow> ('p, 'r) request_context \<Rightarrow> ('p, 'r) request_context \<Rightarrow> bool"
  for io process where
  readable: "rc_read c = Some w \<Longrightarrow> get_result_op io process ec w (c\<lparr>rc_read := None\<rparr>) = Some c' \<Longrightarrow>
     request_step io process c c'"
| writable: "rc_write c \<Longrightarrow> request_step io process c (send_op io ec (c\<lparr>rc_write := False\<rparr>))"
| network: "request_step io process c (c\<lparr>rc_pq := p\<rparr>)"

inductive request_reachable ::
    "('p, 'q, 'r) request_io \<Rightarrow> ('r \<Rightarrow> string option) \<Rightarrow> 'q \<Rightarrow> ('p, 'r) request_context \<Rightarrow> bool"
  for io process q where
  start: "async_request_op io process q p err = Some c \<Longrightarrow> request_reachable io process q c"
| step: "request_reachable io process q c \<Longrightarrow> request_step io process c c' \<Longrightarrow> request_reachable io process q c'"

section \<open>The invariant of a request\<close>

lemma ec_set_no_error [simp]: "\<not> ec_set no_error"
  by (simp add: ec_set_def no_error_def)

text \<open>What the processor was given agrees with the first call of the handler.\<close>

definition processed_ok :: "('r \<Rightarrow> string option) \<Rightarrow> ('p, 'r) request_context \<Rightarrow> bool" where
  "processed_ok process c \<longleftrightarrow>
     (case rc_processed c of
        [] \<Rightarrow> True
      | [r] \<Rightarrow> rc_calls c \<noteq> []
          \<and> hd (rc_calls c) =
              (case process r of None \<Rightarrow> no_error | Some _ \<Rightarrow> error_make_error_code bad_result_process)
      | _ \<Rightarrow> False)"

definition request_inv :: "('r \<Rightarrow> string option) \<Rightarrow> ('p, 'r) request_context \<Rightarrow> bool" where
  "request_inv process c \<longleftrightarrow>
     processed_ok process c
     \<and> (rc_calls c = [] \<and> rc_state c \<noteq> qs_error \<and> rc_read c \<noteq> None
        \<or> (\<exists>e. rc_calls c = [e] \<and> (rc_state c \<noteq> qs_error \<longrightarrow> e = no_error \<and> rc_read c = None))
        \<or> (\<exists>e. rc_calls c = [no_error, e] \<and> rc_state c = qs_error \<and> rc_read c = None))"

text \<open>A request that is running: nothing called, nothing processed, no wait for the result outstanding.\<close>

definition request_running :: "('p, 'r) request_context \<Rightarrow> bool" where
  "request_running c \<longleftrightarrow> rc_calls c = [] \<and> rc_processed c = [] \<and> rc_state c \<noteq> qs_error \<and> rc_read c = None"

text \<open>What the reading side may do to a running request: suspend it, or finish it with one call.\<close>

definition read_outcome ::
    "('r \<Rightarrow> string option) \<Rightarrow> ('p, 'r) request_context \<Rightarrow> ('p, 'r) request_context \<Rightarrow> bool" where
  "read_outcome process c c' \<longleftrightarrow>
     rc_write c' = rc_write c \<and> processed_ok process c'
     \<and> (rc_calls c' = [] \<and> rc_state c' = rc_state c \<and> rc_read c' \<noteq> None
        \<or> rc_read c' = None
          \<and> (rc_calls c' = [no_error] \<and> rc_state c' = rc_state c
              \<or> (\<exists>e. rc_calls c' = [e]) \<and> rc_state c' = qs_error))"

lemma result_done_outcome:
  assumes "request_running c"
  shows "read_outcome process c (result_done ec c)"
  using assms by (simp add: read_outcome_def result_done_def done_with_def request_running_def processed_ok_def)

lemma handle_result_outcome:
  assumes "request_running c"
  shows "read_outcome process c (handle_result io process r c)"
  using assms
  by (simp add: read_outcome_def handle_result_def process_and_done_def result_done_def done_with_def done_ok_def
      request_running_def processed_ok_def Let_def split: option.split)

lemma request_running_pq [simp]:
  "request_running (c\<lparr>rc_pq := p\<rparr>) = request_running c"
  "read_outcome process (c\<lparr>rc_pq := p\<rparr>) c' = read_outcome process c c'"
  by (simp_all add: request_running_def read_outcome_def)

lemma wait_outcome:
  assumes "request_running c"
  shows "read_outcome process c (c\<lparr>rc_pq := p, rc_read := Some w\<rparr>)"
  using assms by (simp add: read_outcome_def request_running_def processed_ok_def)

lemma drain_results_induct [consumes 1, case_names wait last more]:
  assumes "drain_results io process r c = Some c'"
    and wait: "\<And>c p. P c (c\<lparr>rc_pq := p, rc_read := Some (WaitDrain r)\<rparr>)"
    and last: "\<And>c p. P c (handle_result io process r (c\<lparr>rc_pq := p\<rparr>))"
    and more: "\<And>c p c'. P (c\<lparr>rc_pq := p\<rparr>) c' \<Longrightarrow> P c c'"
  shows "P c c'"
proof -
  let ?Q = "\<lambda>io' process' r' c c'. io' = io \<and> process' = process \<and> r' = r \<longrightarrow> P c c'"
  have "?Q io process r c c'"
  proof (rule drain_results.raw_induct [of ?Q, OF _ assms(1)])
    fix drain :: "('a, 'c, 'b) request_io \<Rightarrow> ('b \<Rightarrow> string option) \<Rightarrow> 'b \<Rightarrow> ('a, 'b) request_context
        \<Rightarrow> ('a, 'b) request_context option"
      and io' process' r' c c'
    assume IH: "\<And>io process r c c'. drain io process r c = Some c' \<Longrightarrow> ?Q io process r c c'"
      and step: "(let (busy, p) = pq_is_busy io' (rc_pq c) in
        if busy then Some (c\<lparr>rc_pq := p, rc_read := Some (WaitDrain r')\<rparr>)
        else let (res, p) = pq_get_result io' p in
          (case res of
             Some _ \<Rightarrow> drain io' process' r' (c\<lparr>rc_pq := p\<rparr>)
           | None \<Rightarrow> Some (handle_result io' process' r' (c\<lparr>rc_pq := p\<rparr>)))) = Some c'"
    obtain busy p where b: "pq_is_busy io' (rc_pq c) = (busy, p)" by fastforce
    obtain res p' where g: "pq_get_result io' p = (res, p')" by fastforce
    show "?Q io' process' r' c c'"
      using step b g wait last more IH [of io' process' r' "c\<lparr>rc_pq := p'\<rparr>" c']
      by (auto split: if_splits option.splits)
  qed
  then show ?thesis by simp
qed

lemma drain_results_outcome:
  assumes "drain_results io process r c = Some c'"
  shows "request_running c \<longrightarrow> read_outcome process c c'"
  using assms
proof (induction rule: drain_results_induct)
  case (last c p)
  then show ?case using handle_result_outcome [of "c\<lparr>rc_pq := p\<rparr>" process io r] by simp
qed (simp_all add: wait_outcome)

lemma first_result_outcome:
  assumes "first_result io process c = Some c'" and "request_running c"
  shows "read_outcome process c c'"
proof -
  obtain busy p where b: "pq_is_busy io (rc_pq c) = (busy, p)" by fastforce
  obtain res p' where g: "pq_get_result io p = (res, p')" by fastforce
  have "read_outcome process c (done_ok (c\<lparr>rc_pq := p'\<rparr>))"
    using assms(2) by (simp add: read_outcome_def done_ok_def request_running_def processed_ok_def)
  then show ?thesis
    using assms b g wait_outcome [of c process] handle_result_outcome [of "c\<lparr>rc_pq := p'\<rparr>" process io]
      drain_results_outcome [of io process _ "c\<lparr>rc_pq := p'\<rparr>" c', THEN mp]
    by (auto simp: first_result_def Let_def split: if_splits option.splits)
qed

lemma get_result_op_outcome:
  assumes "get_result_op io process ec w c = Some c'" and "request_running c"
  shows "read_outcome process c c'"
proof -
  obtain err p where i: "consume_input io (rc_pq c) = (err, p)" by fastforce
  have c: "rc_state c \<noteq> qs_error" using assms(2) by (simp add: request_running_def)
  have p: "request_running (c\<lparr>rc_pq := p\<rparr>)" using assms(2) by simp
  show ?thesis
    using assms(1) i c result_done_outcome [OF assms(2)] result_done_outcome [OF p, of process]
      handle_result_outcome [OF p, of process io] first_result_outcome [OF _ p, of io process c']
      drain_results_outcome [THEN mp, OF _ p, of io process _ c']
    by (auto simp: get_result_op_def Let_def split: if_splits read_wait.splits)
qed

lemma read_outcome_inv:
  "read_outcome process c c' \<Longrightarrow> request_running c \<Longrightarrow> request_inv process c'"
  by (auto simp: read_outcome_def request_inv_def request_running_def)

lemma processed_ok_simps [simp]:
  "processed_ok process (c\<lparr>rc_pq := p\<rparr>) = processed_ok process c"
  "processed_ok process (c\<lparr>rc_read := w\<rparr>) = processed_ok process c"
  "processed_ok process (c\<lparr>rc_write := b\<rparr>) = processed_ok process c"
  "processed_ok process (c\<lparr>rc_state := s\<rparr>) = processed_ok process c"
  "processed_ok process (c\<lparr>rc_cancels := n\<rparr>) = processed_ok process c"
  by (simp_all add: processed_ok_def split: list.split)

lemma processed_ok_done_with: "processed_ok process c \<Longrightarrow> processed_ok process (done_with ec c)"
  by (auto simp: processed_ok_def done_with_def split: list.splits)

text \<open>What the sending side may do: nothing to the calls, or one more call with the state set to error.\<close>

definition send_outcome :: "('p, 'r) request_context \<Rightarrow> ('p, 'r) request_context \<Rightarrow> bool" where
  "send_outcome c c' \<longleftrightarrow>
     rc_read c' = rc_read c \<and> rc_processed c' = rc_processed c
     \<and> (rc_calls c' = rc_calls c \<and> (rc_state c' = qs_error \<longrightarrow> rc_state c = qs_error)
          \<and> (rc_state c \<noteq> qs_send_in_progress \<longrightarrow> rc_state c' = rc_state c)
        \<or> (\<exists>e. rc_calls c' = rc_calls c @ [e]) \<and> rc_state c = qs_send_in_progress \<and> rc_state c' = qs_error)"

lemma send_op_outcome: "send_outcome c (send_op io ec c)"
proof -
  obtain s p where f: "flush_output io (rc_pq c) = (s, p)" by fastforce
  show ?thesis
    unfolding send_op_def f
    by (simp add: send_outcome_def done_with_def Let_def split: option.split query_state.split)
qed

lemma processed_ok_more:
  assumes "processed_ok process c" and "rc_processed c' = rc_processed c"
    and "rc_calls c' = rc_calls c \<or> (\<exists>e. rc_calls c' = rc_calls c @ [e])"
  shows "processed_ok process c'"
  using assms by (auto simp: processed_ok_def split: list.splits)

lemma send_outcome_inv:
  assumes "send_outcome c c'" and "request_inv process c"
  shows "request_inv process c'"
proof -
  have "processed_ok process c'"
    using assms by (intro processed_ok_more [of process c c']) (auto simp: send_outcome_def request_inv_def)
  then show ?thesis using assms unfolding request_inv_def send_outcome_def by auto
qed

lemma request_inv_send:
  assumes "request_inv process c"
  shows "request_inv process (send_op io ec (c\<lparr>rc_write := False\<rparr>))"
proof (rule send_outcome_inv [OF send_op_outcome])
  show "request_inv process (c\<lparr>rc_write := False\<rparr>)" using assms by (simp add: request_inv_def)
qed

lemma request_inv_running:
  assumes "request_inv process c" and "rc_calls c = []"
  shows "request_running (c\<lparr>rc_read := None\<rparr>)"
  using assms by (auto simp: request_inv_def request_running_def processed_ok_def split: list.splits)

lemma request_inv_step:
  assumes "request_step io process c c'" and "request_inv process c"
  shows "request_inv process c'"
  using assms
proof (induction rule: request_step.induct)
  case (readable c w ec c')
  show ?case
  proof (cases "rc_calls c = []")
    case True
    note run = request_inv_running [OF readable.prems True]
    show ?thesis by (rule read_outcome_inv [OF get_result_op_outcome [OF readable.hyps(2) run] run])
  next
    case False
    then have "rc_state c = qs_error" using readable by (auto simp: request_inv_def)
    then have "c' = c\<lparr>rc_read := None\<rparr>" using readable.hyps(2) by (simp add: get_result_op_def)
    then show ?thesis using readable.prems False by (auto simp: request_inv_def)
  qed
next
  case (writable c ec)
  then show ?case using request_inv_send by blast
next
  case (network c p)
  then show ?case by (simp add: request_inv_def)
qed

definition request_failed :: "('p, 'r) request_context \<Rightarrow> bool" where
  "request_failed c \<longleftrightarrow>
     (\<exists>e. rc_calls c = [e]) \<and> rc_processed c = [] \<and> rc_state c = qs_error \<and> rc_read c = None"

lemma make_context_running: "request_running (make_request_operation_context p err)"
  by (simp add: request_running_def make_request_operation_context_def)

lemma done_with_failed: "request_running c \<Longrightarrow> request_failed (done_with ec c)"
  by (simp add: request_running_def request_failed_def done_with_def)

lemma send_op_running:
  assumes "request_running c"
  shows "request_running (send_op io ec c) \<or> request_failed (send_op io ec c)"
  using assms send_op_outcome [of c io ec]
  by (auto simp: send_outcome_def request_running_def request_failed_def)

lemma send_perform_running:
  assumes "request_running c"
  shows "request_running (send_perform io q c) \<or> request_failed (send_perform io q c)"
proof -
  obtain e p1 where n: "set_nonblocking io (rc_pq c) = (e, p1)" by fastforce
  obtain sent p2 where s: "pq_send_query_params io q p1 = (sent, p2)" by fastforce
  have "send_perform io q c =
    (if ec_set e then done_with e (c\<lparr>rc_pq := p1\<rparr>)
     else if \<not> sent then done_with (error_make_error_code pg_send_query_params_failed) (c\<lparr>rc_pq := p2\<rparr>)
     else send_op io no_error (c\<lparr>rc_pq := p2\<rparr>))"
    using n s by (simp add: send_perform_def Let_def)
  moreover have "request_running (c\<lparr>rc_pq := p\<rparr>)" for p using assms by simp
  ultimately show ?thesis using done_with_failed send_op_running by metis
qed

lemma request_inv_start:
  fixes io :: "('p, 'q, 'r) request_io"
  assumes "async_request_op io process q p err = Some c"
  shows "request_inv process c"
proof -
  let ?c = "send_perform io q (make_request_operation_context p err) :: ('p, 'r) request_context"
  consider "request_running ?c" | "request_failed ?c"
    using send_perform_running [of "make_request_operation_context p err" io q, OF make_context_running] by blast
  then show ?thesis
  proof cases
    case 1
    then have "first_result io process ?c = Some c"
      using assms by (simp add: async_request_op_def get_result_perform_def request_running_def)
    then show ?thesis using first_result_outcome read_outcome_inv 1 by blast
  next
    case 2
    then have "c = ?c"
      using assms by (simp add: async_request_op_def get_result_perform_def request_failed_def)
    then show ?thesis using 2 by (auto simp: request_inv_def processed_ok_def request_failed_def)
  qed
qed

lemma request_inv_reachable: "request_reachable io process q c \<Longrightarrow> request_inv process c"
  by (induction rule: request_reachable.induct) (auto intro: request_inv_start request_inv_step)

section \<open>A query that is flushed\<close>

definition request_flushed :: "('p, 'r) request_context \<Rightarrow> bool" where
  "request_flushed c \<longleftrightarrow> rc_state c \<noteq> qs_send_in_progress \<and> length (rc_calls c) \<le> 1"

lemma request_flushed_step:
  assumes "request_step io process c c'" and "request_inv process c" and "request_flushed c"
  shows "request_flushed c'"
  using assms
proof (induction rule: request_step.induct)
  case (readable c w ec c')
  show ?case
  proof (cases "rc_calls c = []")
    case True
    have "read_outcome process (c\<lparr>rc_read := None\<rparr>) c'"
      using get_result_op_outcome [OF readable.hyps(2)] request_inv_running [OF readable.prems(1) True] by blast
    then show ?thesis using readable.prems(2) by (auto simp: read_outcome_def request_flushed_def)
  next
    case False
    then have "rc_state c = qs_error" using readable by (auto simp: request_inv_def)
    then show ?thesis using readable by (auto simp: get_result_op_def request_flushed_def)
  qed
next
  case (writable c ec)
  then show ?case by (simp add: send_op_def request_flushed_def)
next
  case (network c p)
  then show ?case by (simp add: request_flushed_def)
qed

lemma request_flushed_steps:
  assumes "(request_step io process)\<^sup>*\<^sup>* c c'" and "request_inv process c" and "request_flushed c"
  shows "request_inv process c' \<and> request_flushed c'"
  using assms by (induction rule: rtranclp_induct) (auto intro: request_inv_step request_flushed_step)

section \<open>What the handler is told\<close>

definition result_code :: "('p, 'q, 'r) request_io \<Rightarrow> ('r \<Rightarrow> string option) \<Rightarrow> 'r \<Rightarrow> error_code" where
  "result_code io process r =
     (case pq_result_status io r of
        PGRES_SINGLE_TUPLE \<Rightarrow> (if process r = None then no_error else error_make_error_code bad_result_process)
      | PGRES_TUPLES_OK \<Rightarrow> (if process r = None then no_error else error_make_error_code bad_result_process)
      | PGRES_COMMAND_OK \<Rightarrow> (if process r = None then no_error else error_make_error_code bad_result_process)
      | PGRES_BAD_RESPONSE \<Rightarrow> error_make_error_code result_status_bad_response
      | PGRES_EMPTY_QUERY \<Rightarrow> error_make_error_code result_status_empty_query
      | PGRES_FATAL_ERROR \<Rightarrow> result_error io r
      | _ \<Rightarrow> error_make_error_code result_status_unexpected)"

lemma handle_result_calls: "rc_calls (handle_result io process r c) = rc_calls c @ [result_code io process r]"
  by (cases "pq_result_status io r")
    (simp_all add: handle_result_def process_and_done_def result_done_def done_with_def done_ok_def result_code_def
      Let_def split: option.split)

lemma drain_results_calls:
  assumes "drain_results io process r c = Some c'"
  shows "rc_read c' = None \<longrightarrow> rc_calls c' = rc_calls c @ [result_code io process r]"
  using assms by (induction rule: drain_results_induct) (simp_all add: handle_result_calls)

text \<open>
  libpq runs out of results: \<^verbatim>\<open>PQgetResult\<close> takes one result out and \<^verbatim>\<open>PQisBusy\<close> adds none. Then every wait that
  completes is handled to its end.
\<close>

definition results_run_out :: "('p, 'q, 'r) request_io \<Rightarrow> ('p \<Rightarrow> nat) \<Rightarrow> bool" where
  "results_run_out io left \<longleftrightarrow>
     (\<forall>p r p'. pq_get_result io p = (Some r, p') \<longrightarrow> left p' < left p)
     \<and> (\<forall>p. left (snd (pq_is_busy io p)) \<le> left p)"

lemma drain_results_total:
  assumes "results_run_out io left"
  shows "\<exists>c'. drain_results io process r c = Some c'"
proof (induction "left (rc_pq c)" arbitrary: c rule: less_induct)
  case less
  obtain busy p where b: "pq_is_busy io (rc_pq c) = (busy, p)" by fastforce
  obtain res p' where g: "pq_get_result io p = (res, p')" by fastforce
  have "left p \<le> left (rc_pq c)" using assms b by (metis results_run_out_def snd_conv)
  moreover have "res \<noteq> None \<Longrightarrow> left p' < left p" using assms g by (auto simp: results_run_out_def)
  ultimately show ?case
    using less [of "c\<lparr>rc_pq := p'\<rparr>"] b g
    by (subst drain_results.simps) (auto split: option.split)
qed

lemma first_result_total:
  assumes "results_run_out io left"
  shows "\<exists>c'. first_result io process c = Some c'"
proof -
  obtain busy p where b: "pq_is_busy io (rc_pq c) = (busy, p)" by fastforce
  obtain res p' where g: "pq_get_result io p = (res, p')" by fastforce
  show ?thesis
    using b g drain_results_total [OF assms, of process _ "c\<lparr>rc_pq := p'\<rparr>"]
    by (auto simp: first_result_def Let_def split: option.split)
qed

lemma get_result_op_total:
  assumes "results_run_out io left"
  shows "\<exists>c'. get_result_op io process ec w c = Some c'"
proof -
  obtain err p where i: "consume_input io (rc_pq c) = (err, p)" by fastforce
  show ?thesis
    using i drain_results_total [OF assms, of process _ "c\<lparr>rc_pq := p\<rparr>"]
      first_result_total [OF assms, of process "c\<lparr>rc_pq := p\<rparr>"]
    by (auto simp: get_result_op_def Let_def split: read_wait.split)
qed

section \<open>The OID map (request_oid_map.h)\<close>

text \<open>
  The map has the custom types of a connection as its keys, in their order; \<open>type_name\<close> is the name that a type is
  bound to and \<open>demangle\<close> the name of its C++ type.
\<close>

definition get_types_names :: "('k \<Rightarrow> string) \<Rightarrow> 'k list \<Rightarrow> string list" where
  "get_types_names type_name keys = map type_name keys"

definition make_oids_query :: "('k \<Rightarrow> string) \<Rightarrow> 'k list \<Rightarrow> string list query_element list" where
  "make_oids_query type_name keys =
     builder_plus_builder
       (builder_plus_value (SQL ''SELECT COALESCE(to_regtype(f)::oid, 0) AS oid FROM UNNEST('')
         (get_types_names type_name keys))
       (SQL '') AS f'')"

definition null_oid :: int where "null_oid = 0"

text \<open>The loop over the keys; an exception leaves the map as it is at that moment.\<close>

fun assign_oids ::
    "('k \<Rightarrow> string) \<Rightarrow> ('k \<Rightarrow> string) \<Rightarrow> 'k list \<Rightarrow> int list \<Rightarrow> ('k \<Rightarrow> int) \<Rightarrow> string option \<times> ('k \<Rightarrow> int)" where
  "assign_oids type_name demangle (k # ks) (i # is) m =
     (if i = null_oid
      then (Some (''null oid for type '' @ demangle k @ '' which is mapped as '' @ type_name k), m)
      else assign_oids type_name demangle ks is (m(k := i)))"
| "assign_oids type_name demangle ks is m = (None, m)"

definition set_oid_map ::
    "('k \<Rightarrow> string) \<Rightarrow> ('k \<Rightarrow> string) \<Rightarrow> 'k list \<Rightarrow> int list \<Rightarrow> ('k \<Rightarrow> int) \<Rightarrow> string option \<times> ('k \<Rightarrow> int)" where
  "set_oid_map type_name demangle keys res m =
     (if length keys \<noteq> length res
      then (Some (''result size '' @ std_to_string (int (length res)) @ '' does not match to oid map size ''
              @ std_to_string (int (length keys))), m)
      else assign_oids type_name demangle keys res m)"

text \<open>\<^verbatim>\<open>request_oid_map_op::operator()\<close>: the error given to the handler, the error context and the map.\<close>

definition request_oid_map_op ::
    "('k \<Rightarrow> string) \<Rightarrow> ('k \<Rightarrow> string) \<Rightarrow> 'k list \<Rightarrow> int list \<Rightarrow> error_code \<Rightarrow> string \<Rightarrow> ('k \<Rightarrow> int)
     \<Rightarrow> error_code \<times> string \<times> ('k \<Rightarrow> int)" where
  "request_oid_map_op type_name demangle keys res ec err m =
     (if ec_set ec then (ec, err, m)
      else case set_oid_map type_name demangle keys res m of
        (None, m) \<Rightarrow> (ec, err, m)
      | (Some what, m) \<Rightarrow> (error_make_error_code oid_request_failed, what, m))"

lemma make_oids_query_text:
  "builder_build (make_oids_query type_name keys) =
     Some (make_query ''SELECT COALESCE(to_regtype(f)::oid, 0) AS oid FROM UNNEST($1) AS f'' [map type_name keys])"
  by (simp add: make_oids_query_def builder_defs builder_build_def builder_text_def builder_params_def params_step_def
      text_step_def get_types_names_def to_string_1)

lemma assign_oids_other: "k \<notin> set ks \<Longrightarrow> snd (assign_oids tn dm ks is m) k = m k"
  by (induction tn dm ks "is" m rule: assign_oids.induct) auto

lemma assign_oids_ok:
  "length ks = length is \<Longrightarrow> distinct ks \<Longrightarrow>
   (fst (assign_oids tn dm ks is m) = None \<longleftrightarrow> null_oid \<notin> set is)
   \<and> (null_oid \<notin> set is \<longrightarrow> map (snd (assign_oids tn dm ks is m)) ks = is)"
  by (induction tn dm ks "is" m rule: assign_oids.induct) (auto simp: assign_oids_other)

lemma assign_oids_partly:
  "snd (assign_oids tn dm ks is m) k = m k \<or> snd (assign_oids tn dm ks is m) k \<noteq> null_oid"
proof (induction tn dm ks "is" m rule: assign_oids.induct)
  case (1 tn dm k' ks i "is" m)
  then show ?case using fun_upd_apply [of m k' i k] by (auto simp del: fun_upd_apply split: if_splits)
qed auto

section \<open>Properties\<close>

text \<open>C20 Invariant. A request in progress always waits for its result, so it is never lost; its handler is called
  once, with a second call possible only after a success; the processor sees at most one
  result, and the first call tells whether it threw. Once the query is flushed no later completion adds a second
  call.\<close>
theorem request_calls_handler:
  assumes "request_reachable io process q c"
  shows "(rc_calls c = [] \<longrightarrow> rc_read c \<noteq> None)
    \<and> (length (rc_calls c) \<le> 1 \<or> (\<exists>e. rc_calls c = [no_error, e]))
    \<and> (\<forall>r \<in> set (rc_processed c). rc_processed c = [r] \<and> rc_calls c \<noteq> []
         \<and> hd (rc_calls c) = (if process r = None then no_error else error_make_error_code bad_result_process))
    \<and> (rc_state c \<noteq> qs_send_in_progress \<and> length (rc_calls c) \<le> 1 \<longrightarrow>
         (\<forall>c'. (request_step io process)\<^sup>*\<^sup>* c c' \<longrightarrow> length (rc_calls c') \<le> 1))"
proof (intro conjI)
  note inv = request_inv_reachable [OF assms]
  show "rc_calls c = [] \<longrightarrow> rc_read c \<noteq> None" using inv by (auto simp: request_inv_def)
  show "length (rc_calls c) \<le> 1 \<or> (\<exists>e. rc_calls c = [no_error, e])" using inv by (auto simp: request_inv_def)
  show "\<forall>r \<in> set (rc_processed c). rc_processed c = [r] \<and> rc_calls c \<noteq> []
         \<and> hd (rc_calls c) = (if process r = None then no_error else error_make_error_code bad_result_process)"
    using inv by (auto simp: request_inv_def processed_ok_def split: list.splits option.splits)
  show "rc_state c \<noteq> qs_send_in_progress \<and> length (rc_calls c) \<le> 1 \<longrightarrow>
         (\<forall>c'. (request_step io process)\<^sup>*\<^sup>* c c' \<longrightarrow> length (rc_calls c') \<le> 1)"
    using request_flushed_steps [OF _ inv] by (auto simp: request_flushed_def)
qed

text \<open>
  A small libpq: its state says whether the query is still in its buffer and what \<^verbatim>\<open>PQgetResult\<close> will answer. As
  documented, \<^verbatim>\<open>PQconsumeInput\<close> sends what is in the buffer, too.
\<close>

definition sample_io :: "(bool \<times> nat option list, unit, nat) request_io" where
  "sample_io =
     \<lparr>pq_setnonblocking = (\<lambda>p. (False, p)), pq_send_query_params = (\<lambda>_ p. (True, p)),
      pq_consume_input = (\<lambda>(_, rs). (True, (False, rs))), pq_is_busy = (\<lambda>(b, rs). (rs = [], (b, rs))),
      pq_flush = (\<lambda>(b, rs). (if b then 1 else 0, (b, rs))),
      pq_get_result = (\<lambda>(b, rs). (case rs of [] \<Rightarrow> (None, (b, rs)) | r # rs' \<Rightarrow> (r, (b, rs')))),
      pq_result_status = (\<lambda>_. PGRES_TUPLES_OK), pq_result_sqlstate = (\<lambda>_. None),
      io_bad_descriptor = error_make_error_code pg_flush_failed,
      io_operation_aborted = error_make_error_code pg_consume_input_failed\<rparr>"

lemma sample_io_simps:
  "pq_is_busy sample_io (b, rs) = (rs = [], (b, rs))" "pq_consume_input sample_io (b, rs) = (True, (False, rs))"
  "pq_get_result sample_io (b, []) = (None, (b, []))" "pq_get_result sample_io (b, r # rs) = (r, (b, rs))"
  "pq_result_status sample_io x = PGRES_TUPLES_OK"
  by (simp_all add: sample_io_def)

definition sample_sent :: "(bool \<times> nat option list, nat) request_context" where
  "sample_sent =
     (make_request_operation_context (True, []) '''')\<lparr>rc_write := True, rc_read := Some WaitFirst\<rparr>"

lemma sample_sent_reachable: "request_reachable sample_io (\<lambda>_. None) () sample_sent"
proof (rule request_reachable.start)
  show "async_request_op sample_io (\<lambda>_. None) () (True, []) '''' = Some sample_sent"
    by (simp add: async_request_op_def get_result_perform_def send_perform_def set_nonblocking_def send_op_def
        flush_output_def query_state_of_def first_result_def sample_io_def sample_sent_def
        make_request_operation_context_def)
qed

definition sample_answered :: "(bool \<times> nat option list, nat) request_context" where
  "sample_answered = sample_sent\<lparr>rc_pq := (False, []), rc_read := None, rc_processed := [7], rc_calls := [no_error]\<rparr>"

lemma sample_drain:
  "rc_pq c = (False, [None]) \<Longrightarrow> drain_results sample_io process r c =
     Some (handle_result sample_io process r (c\<lparr>rc_pq := (False, [])\<rparr>))"
  by (subst drain_results.simps) (simp add: sample_io_simps)

lemma sample_answered_reachable: "request_reachable sample_io (\<lambda>_. None) () sample_answered"
proof (rule request_reachable.step)
  let ?c = "sample_sent\<lparr>rc_pq := (True, [Some 7, None])\<rparr>"
  show "request_reachable sample_io (\<lambda>_. None) () ?c"
    by (rule request_reachable.step [OF sample_sent_reachable request_step.network])
  have "get_result_op sample_io (\<lambda>_. None) no_error WaitFirst (?c\<lparr>rc_read := None\<rparr>) = Some sample_answered"
    by (simp add: get_result_op_def consume_input_def first_result_def sample_drain handle_result_def
        process_and_done_def done_ok_def sample_answered_def sample_sent_def make_request_operation_context_def
        sample_io_simps)
  then show "request_step sample_io (\<lambda>_. None) ?c sample_answered"
    by (intro request_step.readable [of ?c WaitFirst]) (simp add: sample_sent_def)
qed

theorem request_calls_handler_witness:
  "rc_read sample_sent \<noteq> None \<and> hd (rc_calls sample_answered) = no_error"
proof
  show "rc_read sample_sent \<noteq> None"
    using request_calls_handler [OF sample_sent_reachable, THEN conjunct1]
    by (simp add: sample_sent_def make_request_operation_context_def)
  have "rc_processed sample_answered = [7]" by (simp add: sample_answered_def)
  then show "hd (rc_calls sample_answered) = no_error"
    using request_calls_handler [OF sample_answered_reachable, THEN conjunct2, THEN conjunct2, THEN conjunct1] by simp
qed



text \<open>Functional. The first result decides what the handler is told, whatever results follow it: a result of a good
  status goes to the processor, every other status has its own error, and a fatal error has the SQLSTATE that the
  server sent. When libpq runs out of results, the reading side always finishes or waits again.\<close>
lemma first_result_decides:
  assumes "results_run_out io left" and "request_running c"
    and "pq_is_busy io (rc_pq c) = (False, p)" and "pq_get_result io p = (Some r, p')"
  shows "\<exists>c'. first_result io process c = Some c'
    \<and> (rc_calls c' = [result_code io process r] \<or> rc_calls c' = [] \<and> rc_read c' = Some (WaitDrain r))"
proof -
  let ?c = "c\<lparr>rc_pq := p'\<rparr>"
  have calls: "rc_calls ?c = []" "request_running ?c" using assms(2) by (simp_all add: request_running_def)
  show ?thesis
  proof (cases "pq_result_status io r = PGRES_SINGLE_TUPLE")
    case True
    then show ?thesis using assms calls handle_result_calls [of io process r ?c] by (simp add: first_result_def)
  next
    case False
    obtain c' where c': "drain_results io process r ?c = Some c'" using drain_results_total [OF assms(1)] by blast
    have "(rc_read c' = Some (WaitDrain r) \<and> rc_calls c' = rc_calls ?c) \<or> rc_calls c' = rc_calls ?c @ [result_code io process r]"
      using c' by (induction rule: drain_results_induct) (simp_all add: handle_result_calls)
    then show ?thesis using assms c' False calls(1) by (auto simp: first_result_def)
  qed
qed

text \<open>Functional. The answer to the OID request is accepted exactly if it has one OID for each custom type and none
  is null; then every type has the OID at its position. Otherwise the handler gets \<^verbatim>\<open>oid_request_failed\<close>, and the
  map is changed only to OIDs that are not null.\<close>
lemma oid_map_assigned:
  assumes "distinct keys"
    and "request_oid_map_op type_name demangle keys res no_error err m = (ec, err', m')"
  shows "(ec = no_error \<longleftrightarrow> length res = length keys \<and> null_oid \<notin> set res)
    \<and> (ec = no_error \<longrightarrow> map m' keys = res \<and> err' = err)
    \<and> (ec \<noteq> no_error \<longrightarrow> ec = error_make_error_code oid_request_failed)
    \<and> (\<forall>k. (k \<in> set keys \<longrightarrow> m' k = m k \<or> m' k \<noteq> null_oid) \<and> (k \<notin> set keys \<longrightarrow> m' k = m k))"
proof -
  have ne: "error_make_error_code oid_request_failed \<noteq> no_error"
    by (simp add: error_make_error_code_def no_error_def)
  show ?thesis
    using assms ne assign_oids_ok [of keys res type_name demangle m] assign_oids_partly [of type_name demangle keys res m]
      assign_oids_other [of _ keys type_name demangle res m]
    by (auto simp: request_oid_map_op_def set_oid_map_def split: if_splits prod.splits option.splits)
qed

end
