(* ===== verification/Ozo_Connect.thy ===== *)
theory Ozo_Connect
  imports Ozo_Connection Ozo_Request
begin

text \<open>
  \<^verbatim>\<open>ozo/impl/async_connect.h\<close>, \<^verbatim>\<open>ozo/transaction.h\<close> with \<^verbatim>\<open>detail/begin_statement_builder.h\<close> and
  \<^verbatim>\<open>ozo/impl/cancel.h\<close>: how a connection is made, how a transaction is begun and ended on it, and how a request
  is cancelled. What libpq answers comes with the completions, in any order.
\<close>

section \<open>Connecting (async_connect.h)\<close>

datatype polling_status =
    PGRES_POLLING_FAILED | PGRES_POLLING_READING | PGRES_POLLING_WRITING | PGRES_POLLING_OK | PGRES_POLLING_ACTIVE

datatype socket_wait = ReadWait | WriteWait

text \<open>
  The operation owns the connection until it moves it into the call of its handler; \<open>cn_calls\<close> are these calls.
\<close>

record ('h, 'o) connect_op =
  cn_connection :: "('h, 'o) connection"
  cn_wait :: "socket_wait option"
  cn_calls :: "(error_code \<times> ('h, 'o) connection) list"

definition new_connect_op :: "('h, 'o) connection \<Rightarrow> ('h, 'o) connect_op" where
  "new_connect_op conn = \<lparr>cn_connection = conn, cn_wait = None, cn_calls = []\<rparr>"

definition connect_done :: "error_code \<Rightarrow> ('h, 'o) connect_op \<Rightarrow> ('h, 'o) connect_op" where
  "connect_done ec c = c\<lparr>cn_calls := cn_calls c @ [(ec, cn_connection c)]\<rparr>"

text \<open>\<open>handle\<close> is the answer of \<^verbatim>\<open>PQconnectStart\<close>.\<close>

definition connect_perform ::
    "'h libpq \<Rightarrow> 'h option \<Rightarrow> ('h, 'o) connect_op \<Rightarrow> ('h, 'o) connect_op" where
  "connect_perform pq handle c =
     (if handle = None then connect_done (error_make_error_code pq_connection_start_failed) c
      else if connection_status_bad pq handle then connect_done (error_make_error_code pq_connection_status_bad) c
      else let (err, conn) = connection_assign pq handle (cn_connection c); c = c\<lparr>cn_connection := conn\<rparr> in
        (case err of
           Some e \<Rightarrow> connect_done (error_make_error_code e) c
         | None \<Rightarrow> c\<lparr>cn_wait := Some WriteWait\<rparr>))"

text \<open>\<open>poll\<close> is the answer of \<^verbatim>\<open>PQconnectPoll\<close>.\<close>

definition connect_resume ::
    "error_code \<Rightarrow> polling_status \<Rightarrow> ('h, 'o) connect_op \<Rightarrow> ('h, 'o) connect_op" where
  "connect_resume ec poll c =
     (if ec_set ec
      then connect_done ec
        (if conn_error_context (cn_connection c) = ''''
         then c\<lparr>cn_connection := (cn_connection c)\<lparr>conn_error_context := ''error while connection polling''\<rparr>\<rparr>
         else c)
      else case poll of
          PGRES_POLLING_OK \<Rightarrow> connect_done no_error c
        | PGRES_POLLING_WRITING \<Rightarrow> c\<lparr>cn_wait := Some WriteWait\<rparr>
        | PGRES_POLLING_READING \<Rightarrow> c\<lparr>cn_wait := Some ReadWait\<rparr>
        | _ \<Rightarrow> connect_done (error_make_error_code pq_connect_poll_failed) c)"

inductive connect_step :: "('h, 'o) connect_op \<Rightarrow> ('h, 'o) connect_op \<Rightarrow> bool" where
  ready: "cn_wait c = Some w \<Longrightarrow> connect_step c (connect_resume ec poll (c\<lparr>cn_wait := None\<rparr>))"

text \<open>
  \<^verbatim>\<open>request_oid_map_handler\<close>: what follows the connect operation when the connection has custom types (\<open>keys\<close> is
  not empty): nothing after an error, and after success the request whose result or error \<open>answer\<close> gives.
\<close>

definition oid_map_handler ::
    "('k \<Rightarrow> string) \<Rightarrow> ('k \<Rightarrow> string) \<Rightarrow> 'k list \<Rightarrow> error_code \<times> int list
     \<Rightarrow> error_code \<times> ('h, 'k \<Rightarrow> int) connection \<Rightarrow> error_code \<times> ('h, 'k \<Rightarrow> int) connection" where
  "oid_map_handler type_name demangle keys answer call =
     (case call of (ec, conn) \<Rightarrow>
        if keys = [] \<or> ec_set ec then (ec, conn)
        else let (ec, err, m) = request_oid_map_op type_name demangle keys (snd answer) (fst answer)
               (conn_error_context conn) (conn_oid_map conn) in
          (ec, conn\<lparr>conn_error_context := err, conn_oid_map := m\<rparr>))"

section \<open>One call for every connect operation\<close>

definition connect_inv :: "'h libpq \<Rightarrow> ('h, 'o) connect_op \<Rightarrow> bool" where
  "connect_inv pq c \<longleftrightarrow>
     connection_inv pq (cn_connection c)
     \<and> (cn_wait c \<noteq> None \<and> cn_calls c = [] \<and> connection_is_open (cn_connection c)
        \<or> cn_wait c = None
          \<and> (\<exists>ec. cn_calls c = [(ec, cn_connection c)] \<and> (\<not> ec_set ec \<longrightarrow> connection_is_open (cn_connection c))))"

lemma ec_set_error [simp]: "ec_set (error_make_error_code e) \<longleftrightarrow> e \<noteq> err_ok"
  by (cases e) (simp_all add: ec_set_def error_make_error_code_def)

lemma connection_assign_error: "connection_assign pq handle c = (Some e, d) \<Longrightarrow> e = pq_socket_failed"
  by (auto simp: connection_assign_def Let_def split: if_splits)

lemma connect_inv_perform:
  assumes "connection_inv pq conn"
  shows "connect_inv pq (connect_perform pq handle (new_connect_op conn))"
proof -
  obtain err d where a: "connection_assign pq handle conn = (err, d)" by fastforce
  have d: "connection_inv pq d" using connection_inv_assign [OF assms, of handle] a by simp
  have "err = None \<Longrightarrow> handle \<noteq> None \<Longrightarrow> connection_is_open d"
    using a by (auto simp: connection_assign_def connection_is_open_def Let_def split: if_splits)
  note is_open = this
  show ?thesis
  proof (cases "handle = None \<or> connection_status_bad pq handle")
    case True
    then show ?thesis
      using assms by (auto simp: connect_perform_def new_connect_op_def connect_done_def connect_inv_def)
  next
    case False
    then obtain h where h: "handle = Some h" "\<not> connection_status_bad pq (Some h)" by auto
    show ?thesis
    proof (cases err)
      case None
      then show ?thesis
        using h a d is_open by (simp add: connect_perform_def new_connect_op_def connect_inv_def)
    next
      case (Some e)
      then have "e = pq_socket_failed" using a connection_assign_error by metis
      then show ?thesis
        using h a d Some by (simp add: connect_perform_def new_connect_op_def connect_done_def connect_inv_def)
    qed
  qed
qed

lemma connection_inv_context [simp]:
  "connection_inv pq (c\<lparr>conn_error_context := e\<rparr>) = connection_inv pq c"
  "connection_is_open (c\<lparr>conn_error_context := e\<rparr>) = connection_is_open c"
  by (simp_all add: connection_inv_def connection_is_open_def)

lemma connect_inv_step:
  assumes "connect_step c c'" and "connect_inv pq c"
  shows "connect_inv pq c'"
  using assms
proof (induction rule: connect_step.induct)
  case (ready c w ec poll)
  then show ?case
    by (cases poll) (auto simp: connect_inv_def connect_resume_def connect_done_def)
qed

lemma connect_inv_steps:
  "connect_step\<^sup>*\<^sup>* c c' \<Longrightarrow> connect_inv pq c \<Longrightarrow> connect_inv pq c'"
  by (induction rule: rtranclp_induct) (auto intro: connect_inv_step)

section \<open>Transactions (transaction.h, begin_statement_builder.h)\<close>

datatype isolation_level = serializable | repeatable_read | read_committed | read_uncommitted
datatype transaction_mode = read_write | read_only

text \<open>An option that is absent or \<^verbatim>\<open>none\<close> is \<open>None\<close>; \<open>to_deferrability\<close> is the value of \<^verbatim>\<open>deferrable_mode\<close>.\<close>

record transaction_options =
  to_isolation_level :: "isolation_level option"
  to_mode :: "transaction_mode option"
  to_deferrability :: "bool option"

fun isolation_level_to_string :: "isolation_level \<Rightarrow> string" where
  "isolation_level_to_string serializable = '' ISOLATION LEVEL SERIALIZABLE''"
| "isolation_level_to_string repeatable_read = '' ISOLATION LEVEL REPEATABLE READ''"
| "isolation_level_to_string read_committed = '' ISOLATION LEVEL READ COMMITTED''"
| "isolation_level_to_string read_uncommitted = '' ISOLATION LEVEL READ UNCOMMITTED''"

fun mode_to_string :: "transaction_mode \<Rightarrow> string" where
  "mode_to_string read_write = '' READ WRITE''"
| "mode_to_string read_only = '' READ ONLY''"

definition deferrable_to_string :: "bool \<Rightarrow> string" where
  "deferrable_to_string d = (if d then '' DEFERRABLE'' else '' NOT DEFERRABLE'')"

definition begin_statement :: "transaction_options \<Rightarrow> 'p query" where
  "begin_statement opts =
     make_query
       (''BEGIN''
        @ (case to_isolation_level opts of Some l \<Rightarrow> isolation_level_to_string l | None \<Rightarrow> '''')
        @ (case to_mode opts of Some m \<Rightarrow> mode_to_string m | None \<Rightarrow> '''')
        @ (case to_deferrability opts of Some d \<Rightarrow> deferrable_to_string d | None \<Rightarrow> '''')) []"

record ('h, 'o) transaction =
  tr_impl :: "('h, 'o) connection option"
  tr_options :: transaction_options

text \<open>
  \<^verbatim>\<open>async_start_transaction_op\<close> and \<^verbatim>\<open>async_end_transaction_op\<close>: the completion of the statement becomes the call
  of the handler, with the connection wrapped or released whatever the error.
\<close>

definition start_transaction_op ::
    "transaction_options \<Rightarrow> error_code \<Rightarrow> ('h, 'o) connection option \<Rightarrow> error_code \<times> ('h, 'o) transaction" where
  "start_transaction_op opts ec conn = (ec, \<lparr>tr_impl = conn, tr_options = opts\<rparr>)"

definition release_transaction_connection :: "('h, 'o) transaction \<Rightarrow> ('h, 'o) connection option" where
  "release_transaction_connection t = tr_impl t"

definition end_transaction_op ::
    "error_code \<Rightarrow> ('h, 'o) transaction \<Rightarrow> error_code \<times> ('h, 'o) connection option" where
  "end_transaction_op ec t = (ec, release_transaction_connection t)"

definition transaction_is_open :: "('h, 'o) transaction \<Rightarrow> bool" where
  "transaction_is_open t = (case tr_impl t of None \<Rightarrow> False | Some c \<Rightarrow> connection_is_open c)"

definition transaction_usable :: "'h libpq \<Rightarrow> ('h, 'o) transaction \<Rightarrow> bool" where
  "transaction_usable pq t = (case tr_impl t of None \<Rightarrow> False | Some c \<Rightarrow> \<not> connection_is_bad pq c)"

definition commit_statement :: "'p query_element list" where "commit_statement = SQL ''COMMIT''"
definition rollback_statement :: "'p query_element list" where "rollback_statement = SQL ''ROLLBACK''"

lemma transaction_round_trip:
  "end_transaction_op ec' (snd (start_transaction_op opts ec conn)) = (ec', conn)"
  by (simp add: start_transaction_op_def end_transaction_op_def release_transaction_connection_def)

section \<open>Cancelling (cancel.h)\<close>

text \<open>
  \<open>answer\<close> is what \<^verbatim>\<open>PQcancel\<close> returns and the 255 bytes of its message buffer afterwards.
\<close>

definition dispatch_cancel :: "bool \<times> string \<Rightarrow> error_code \<times> string" where
  "dispatch_cancel answer =
     (case answer of (ok, msg) \<Rightarrow>
        if ok then (no_error, '''')
        else (error_make_error_code pq_cancel_failed,
              (case find_last_not_of (CHR 0x00) msg of
                 None \<Rightarrow> ''''
               | Some pos \<Rightarrow> if pos < length msg then take (pos + 1) msg else msg)))"

record cancel_context =
  cc_state :: nat
  cc_calls :: "(error_code \<times> string) list"
  cc_timer_cancelled :: bool

definition new_deadline_cancel_handler :: cancel_context where
  "new_deadline_cancel_handler = \<lparr>cc_state = 2, cc_calls = [], cc_timer_cancelled = False\<rparr>"

definition cancel_completed :: "error_code \<times> string \<Rightarrow> cancel_context \<Rightarrow> cancel_context" where
  "cancel_completed r c =
     (let c = c\<lparr>cc_state := cc_state c - 1\<rparr> in
      if cc_state c \<noteq> 0 then c\<lparr>cc_timer_cancelled := True, cc_calls := cc_calls c @ [r]\<rparr> else c)"

definition cancel_timer_expired :: "(asio_error \<Rightarrow> error_code) \<Rightarrow> cancel_context \<Rightarrow> cancel_context" where
  "cancel_timer_expired asio_code c =
     (let c = c\<lparr>cc_state := cc_state c - 1\<rparr> in
      if cc_state c \<noteq> 0
      then c\<lparr>cc_calls := cc_calls c @ [(timed_out_code asio_code, ''cancel() operation waiting aborted by time-out'')]\<rparr>
      else c)"

lemma find_last_not_of_replicate: "find_last_not_of c (replicate n c) = None"
  by (induction n) simp_all

lemma find_last_not_of_trailing: "find_last_not_of c (xs @ replicate n c) = find_last_not_of c xs"
  by (induction xs) (simp_all add: find_last_not_of_replicate)

lemma find_last_not_of_last: "x \<noteq> c \<Longrightarrow> find_last_not_of c (xs @ [x]) = Some (length xs)"
  by (induction xs) simp_all

text \<open>The trimmed message is the text without the zero bytes behind it.\<close>

lemma dispatch_cancel_message:
  assumes "msg = [] \<or> last msg \<noteq> CHR 0x00"
  shows "dispatch_cancel (False, msg @ replicate n (CHR 0x00)) = (error_make_error_code pq_cancel_failed, msg)"
proof (cases msg rule: rev_cases)
  case Nil
  then show ?thesis by (simp add: dispatch_cancel_def find_last_not_of_replicate)
next
  case (snoc xs x)
  then have "find_last_not_of (CHR 0x00) (msg @ replicate n (CHR 0x00)) = Some (length xs)"
    using assms unfolding find_last_not_of_trailing by (simp add: find_last_not_of_last)
  then show ?thesis using snoc by (simp add: dispatch_cancel_def)
qed

section \<open>Properties\<close>

text \<open>C22 Invariant. However libpq polls and the socket answers, a connect operation either waits for its socket, with
  an open connection, or has called its handler exactly once and waits no more; a call without an error hands over an
  open connection that watches the socket of its handle.\<close>
theorem connect_answers_once:
  assumes "connection_inv pq conn"
    and "connect_step\<^sup>*\<^sup>* (connect_perform pq handle (new_connect_op conn)) c"
  shows "cn_wait c \<noteq> None \<and> cn_calls c = [] \<and> connection_is_open (cn_connection c)
    \<or> cn_wait c = None
      \<and> (\<exists>ec. cn_calls c = [(ec, cn_connection c)]
          \<and> (\<not> ec_set ec \<longrightarrow> connection_inv pq (cn_connection c) \<and> connection_is_open (cn_connection c)))"
  using connect_inv_steps [OF assms(2) connect_inv_perform [OF assms(1)]] unfolding connect_inv_def by blast

definition sample_connecting :: "(nat, unit) connect_op" where
  "sample_connecting = connect_perform sample_pq (Some 7) (new_connect_op (new_connection ()))"

lemma sample_connecting_waits: "cn_wait sample_connecting = Some WriteWait" "cn_calls sample_connecting = []"
  by (simp_all add: sample_connecting_def connect_perform_def new_connect_op_def connection_assign_def PQsocket_def
      connection_status_bad_def sample_pq_def)

theorem connect_answers_once_witness:
  "cn_wait sample_connecting \<noteq> None
   \<and> (\<exists>ec. cn_calls (connect_resume no_error PGRES_POLLING_OK (sample_connecting\<lparr>cn_wait := None\<rparr>)) = [(ec,
        cn_connection (connect_resume no_error PGRES_POLLING_OK (sample_connecting\<lparr>cn_wait := None\<rparr>)))])"
proof -
  let ?c = "connect_resume no_error PGRES_POLLING_OK (sample_connecting\<lparr>cn_wait := None\<rparr>)"
  have "connect_step\<^sup>*\<^sup>* sample_connecting ?c"
    by (rule r_into_rtranclp) (rule connect_step.ready [OF sample_connecting_waits(1)])
  from connect_answers_once [OF connection_inv_new this [unfolded sample_connecting_def]]
  have "cn_calls ?c = [] \<or> (\<exists>ec. cn_calls ?c = [(ec, cn_connection ?c)])"
    unfolding sample_connecting_def by blast
  moreover have "cn_calls ?c \<noteq> []" by (simp add: connect_resume_def connect_done_def)
  ultimately show ?thesis using sample_connecting_waits(1) by auto
qed

text \<open>Safety. Whichever of a cancel request and its timer completes first, the handler is called exactly once and by
  that one, so that the timer never waits for the blocking cancel call: with the answer of libpq, or with
  \<^verbatim>\<open>timed_out\<close>. The message of a failed cancel is libpq's text without the zero bytes behind its end.\<close>
lemma cancel_answers_once:
  assumes "msg = [] \<or> last msg \<noteq> CHR 0x00"
  shows "cc_calls (cancel_completed r new_deadline_cancel_handler) = [r]
   \<and> cc_calls (cancel_timer_expired asio_code (cancel_completed r new_deadline_cancel_handler)) = [r]
   \<and> cc_timer_cancelled (cancel_completed r new_deadline_cancel_handler)
   \<and> cc_calls (cancel_completed r (cancel_timer_expired asio_code new_deadline_cancel_handler)) =
       cc_calls (cancel_timer_expired asio_code new_deadline_cancel_handler)
   \<and> map fst (cc_calls (cancel_timer_expired asio_code new_deadline_cancel_handler)) = [asio_code timed_out]
   \<and> dispatch_cancel (False, msg @ replicate n (CHR 0x00)) = (error_make_error_code pq_cancel_failed, msg)"
  by (simp add: dispatch_cancel_message [OF assms] cancel_completed_def cancel_timer_expired_def
      new_deadline_cancel_handler_def timed_out_code_def)

definition mode_part :: "transaction_mode option \<Rightarrow> string" where
  "mode_part m = (case m of Some m \<Rightarrow> mode_to_string m | None \<Rightarrow> [])"

definition deferrability_part :: "bool option \<Rightarrow> string" where
  "deferrability_part d = (case d of Some d \<Rightarrow> deferrable_to_string d | None \<Rightarrow> [])"

definition isolation_part :: "isolation_level option \<Rightarrow> string" where
  "isolation_part l = (case l of Some l \<Rightarrow> isolation_level_to_string l | None \<Rightarrow> [])"

lemma deferrability_part_inj: "deferrability_part d = deferrability_part d' \<Longrightarrow> d = d'"
  by (cases d; cases d') (auto simp: deferrability_part_def deferrable_to_string_def split: if_splits)

lemma mode_part_inj:
  assumes "mode_part m @ deferrability_part d = mode_part m' @ deferrability_part d'"
  shows "m = m' \<and> d = d'"
proof -
  have no_mode: "deferrability_part d \<noteq> mode_to_string x @ s" for d x s
    by (cases x; cases d) (auto simp: deferrability_part_def deferrable_to_string_def)
  have inj: "mode_to_string x @ s = mode_to_string y @ s' \<Longrightarrow> x = y \<and> s = s'" for x y s s'
    by (cases x; cases y) auto
  show ?thesis
    using assms no_mode no_mode [symmetric] deferrability_part_inj
    by (cases m; cases m') (auto simp: mode_part_def dest!: inj)
qed

lemma isolation_part_inj:
  assumes "isolation_part l @ mode_part m @ deferrability_part d = isolation_part l' @ mode_part m' @ deferrability_part d'"
  shows "l = l' \<and> m = m' \<and> d = d'"
proof -
  have no_level: "mode_part m @ deferrability_part d \<noteq> isolation_level_to_string x @ s" for m d x s
  proof -
    have "mode_part m @ deferrability_part d = [] \<or> take 2 (mode_part m @ deferrability_part d) \<noteq> '' I''"
      by (cases m; cases d; cases "the m") (auto simp: mode_part_def deferrability_part_def deferrable_to_string_def)
    moreover have "take 2 (isolation_level_to_string x @ s) = '' I''" by (cases x) simp_all
    moreover have "isolation_level_to_string x @ s \<noteq> []" by (cases x) simp_all
    ultimately show ?thesis by metis
  qed
  have inj: "isolation_level_to_string x @ s = isolation_level_to_string y @ s' \<Longrightarrow> x = y \<and> s = s'" for x y s s'
    by (cases x; cases y) auto
  show ?thesis
    using assms no_level no_level [symmetric] mode_part_inj
    by (cases l; cases l') (auto simp: isolation_part_def dest!: inj)
qed

lemma begin_statement_text:
  "q_text (begin_statement opts) = ''BEGIN'' @ isolation_part (to_isolation_level opts) @ mode_part (to_mode opts)
     @ deferrability_part (to_deferrability opts)"
  by (simp add: begin_statement_def make_query_def isolation_part_def mode_part_def deferrability_part_def)

text \<open>Functional. Different transaction options give different \<^verbatim>\<open>BEGIN\<close> statements, none of them with
  parameters, and without options the statement is \<^verbatim>\<open>BEGIN\<close> alone.\<close>
lemma begin_statement_distinct:
  fixes opts :: transaction_options
  shows "(q_text (begin_statement opts :: unit query) = q_text (begin_statement opts' :: unit query)) = (opts = opts')
   \<and> q_params (begin_statement opts :: unit query) = []
   \<and> q_text (begin_statement \<lparr>to_isolation_level = None, to_mode = None, to_deferrability = None\<rparr> :: unit query) = ''BEGIN''"
proof -
  have "opts = opts'" if "q_text (begin_statement opts :: unit query) = q_text (begin_statement opts' :: unit query)"
    using isolation_part_inj that unfolding begin_statement_text by (cases opts; cases opts') simp
  then show ?thesis by (auto simp: begin_statement_def make_query_def)
qed

end
