(* ===== verification/Ozo_Query_Conf.thy ===== *)
theory Ozo_Query_Conf
  imports Ozo_Query_Builder
begin

text \<open>
  \<^verbatim>\<open>ozo/query_conf.h\<close>: queries kept in a text file. The file is cut into comment and text lines, a comment of the
  form \<^verbatim>\<open>-- name: ...\<close> starts a query, the text below it is cut into plain parts and named parameters, and each
  query is checked against its declaration and written with numbered placeholders.
\<close>

section \<open>Parsers (Boost.Spirit as the grammars use it)\<close>

text \<open>
  Every grammar skips null characters before its primitives and before each \<^verbatim>\<open>lexeme\<close>, not inside one. A parser
  answers with its attribute and the rest of the input.
\<close>

type_synonym 'a parser = "string \<Rightarrow> ('a \<times> string) option"

definition is_nul :: "char \<Rightarrow> bool" where "is_nul c = (c = CHR 0x00)"

definition is_eol :: "char \<Rightarrow> bool" where "is_eol c = (c = CHR 0x0D \<or> c = CHR 0x0A)"

definition skip_nul :: "string \<Rightarrow> string" where "skip_nul s = dropWhile is_nul s"

definition lit :: "string \<Rightarrow> string \<Rightarrow> string option" where
  "lit w s = (let s = skip_nul s in if take (length w) s = w then Some (drop (length w) s) else None)"

text \<open>
  \<^verbatim>\<open>*p\<close>. The test that \<open>p\<close> has consumed input only makes the recursion terminate: it is always true for the
  parsers used here (\<open>lexer.kleene_unfold\<close>).
\<close>

function kleene :: "'a parser \<Rightarrow> string \<Rightarrow> 'a list \<times> string" where
  "kleene p s =
     (case p s of
        None \<Rightarrow> ([], s)
      | Some (a, r) \<Rightarrow>
          if length r < length s then (let (as, r') = kleene p r in (a # as, r')) else ([], s))"
  by pat_completeness auto
termination by (relation "measure (\<lambda>(p, s). length s)") auto

declare kleene.simps [simp del]

definition no_nul :: "string \<Rightarrow> string" where "no_nul s = filter (\<lambda>c. \<not> is_nul c) s"

lemma no_nul_simps [simp]:
  "no_nul [] = []" "no_nul (s @ t) = no_nul s @ no_nul t"
  by (simp_all add: no_nul_def)

lemma no_nul_skip [simp]: "no_nul (skip_nul s) = no_nul s"
  by (induction s) (auto simp: no_nul_def skip_nul_def)

lemma skip_nul_length: "length (skip_nul s) \<le> length s"
  by (simp add: skip_nul_def length_dropWhile_le)

lemma no_nul_split: "no_nul (takeWhile P s) @ no_nul (dropWhile P s) = no_nul s"
  by (metis no_nul_simps(2) takeWhile_dropWhile_id)

lemma lit_Some: "lit w s = Some r \<Longrightarrow> no_nul s = no_nul w @ no_nul r \<and> length w + length r \<le> length s"
proof -
  assume "lit w s = Some r"
  then have w: "take (length w) (skip_nul s) = w" and r: "r = drop (length w) (skip_nul s)"
    by (auto simp: lit_def Let_def split: if_splits)
  have s: "skip_nul s = w @ r" using w r by (metis append_take_drop_id)
  then have "length w + length r = length (skip_nul s)" by simp
  then show ?thesis using s skip_nul_length [of s] no_nul_skip [of s] by simp
qed

text \<open>
  What the grammars rely on: a parser that succeeds consumes input, and nothing is lost but null characters.
\<close>

locale lexer =
  fixes p :: "'a parser" and source_of :: "'a \<Rightarrow> string"
  assumes consumes: "p s = Some (a, r) \<Longrightarrow> length r < length s"
    and lossless: "p s = Some (a, r) \<Longrightarrow> no_nul s = no_nul (source_of a) @ no_nul r"
begin

lemma kleene_unfold:
  "kleene p s = (case p s of None \<Rightarrow> ([], s) | Some (a, r) \<Rightarrow> (let (as, r') = kleene p r in (a # as, r')))"
  using consumes by (subst kleene.simps) (auto split: option.split)

lemma kleene_induct [consumes 1, case_names stop step]:
  assumes "kleene p s = (as, r)"
    and stop: "\<And>s. p s = None \<Longrightarrow> P s [] s"
    and step: "\<And>s a r as r'. p s = Some (a, r) \<Longrightarrow> kleene p r = (as, r') \<Longrightarrow> P r as r' \<Longrightarrow> P s (a # as) r'"
  shows "P s as r"
  using assms(1)
proof (induction s arbitrary: as rule: measure_induct_rule [where f = length])
  case (less s)
  show ?case
  proof (cases "p s")
    case None
    then show ?thesis using less(2) stop by (simp add: kleene_unfold [of s])
  next
    case (Some x)
    then obtain a r1 where x: "p s = Some (a, r1)" by (cases x) auto
    obtain as1 r' where k: "kleene p r1 = (as1, r')" by fastforce
    then have eq: "as = a # as1" "r = r'" using less(2) x by (simp_all add: kleene_unfold [of s])
    show ?thesis unfolding eq using step [OF x k] less(1) [OF consumes [OF x]] k eq(2) by simp
  qed
qed

lemma kleene_lossless: "kleene p s = (as, r) \<Longrightarrow> no_nul s = no_nul (concat (map source_of as)) @ no_nul r"
  by (induction rule: kleene_induct) (simp_all add: lossless)

lemma kleene_stops: "kleene p s = (as, r) \<Longrightarrow> p r = None"
  by (induction rule: kleene_induct) simp_all

lemma kleene_length: "kleene p s = (as, r) \<Longrightarrow> length as + length r \<le> length s"
  by (induction rule: kleene_induct) (use consumes in fastforce)+

end

section \<open>Lines (lines_parser)\<close>

datatype query_line = QueryLineComment string | QueryLineText string

fun line_value :: "query_line \<Rightarrow> string" where
  "line_value (QueryLineComment v) = v"
| "line_value (QueryLineText v) = v"

definition line_end :: "string parser" where
  "line_end s =
     (if take 2 s = [CHR 0x0D, CHR 0x0A] then Some ([CHR 0x0D, CHR 0x0A], drop 2 s)
      else if take 1 s = [CHR 0x0D] then Some ([CHR 0x0D], drop 1 s)
      else if take 1 s = [CHR 0x0A] then Some ([CHR 0x0A], drop 1 s)
      else None)"

definition comment_line :: "query_line parser" where
  "comment_line s =
     (case lit ''--'' s of
        None \<Rightarrow> None
      | Some s \<Rightarrow>
          let v = takeWhile (\<lambda>c. \<not> is_eol c) s; r = dropWhile (\<lambda>c. \<not> is_eol c) s in
          (case line_end r of
             Some (e, r') \<Rightarrow> Some (QueryLineComment (''--'' @ v @ e), r')
           | None \<Rightarrow> if r = [] then Some (QueryLineComment (''--'' @ v), r) else None))"

definition text_line :: "query_line parser" where
  "text_line s =
     (let s = skip_nul s; v = takeWhile (\<lambda>c. \<not> is_eol c) s; r = dropWhile (\<lambda>c. \<not> is_eol c) s in
      case line_end r of
        Some (e, r') \<Rightarrow> Some (QueryLineText (v @ e), r')
      | None \<Rightarrow> None)"

definition last_line :: "query_line parser" where
  "last_line s =
     (let s = skip_nul s; v = takeWhile (\<lambda>c. \<not> is_eol c) s; r = dropWhile (\<lambda>c. \<not> is_eol c) s in
      if v \<noteq> [] \<and> skip_nul r = [] then Some (QueryLineText v, r) else None)"

definition parse_line :: "query_line parser" where
  "parse_line s =
     (case comment_line s of
        Some x \<Rightarrow> Some x
      | None \<Rightarrow> (case text_line s of Some x \<Rightarrow> Some x | None \<Rightarrow> last_line s))"

datatype conf_error = InvalidArgument string | OutOfRange string | KeyNotFound | NullConf

definition parse_query_conf_lines :: "string \<Rightarrow> conf_error + query_line list" where
  "parse_query_conf_lines s =
     (let (ls, r) = kleene parse_line s in
      if skip_nul r = [] then Inr ls else Inl (InvalidArgument ''Failed to parse query conf lines''))"

lemma line_end_Some: "line_end s = Some (e, r) \<Longrightarrow> s = e @ r \<and> length r < length s"
proof -
  assume "line_end s = Some (e, r)"
  then have "\<exists>n. take n s = e \<and> drop n s = r \<and> e \<noteq> []"
    by (auto simp: line_end_def split: if_splits)
  then have "s = e @ r" "e \<noteq> []" by auto
  then show ?thesis by simp
qed

lemma line_end_None: "line_end s = None \<longleftrightarrow> s = [] \<or> \<not> is_eol (hd s)"
  by (cases s) (auto simp: line_end_def is_eol_def)

lemma line_rest: "line_end (dropWhile (\<lambda>c. \<not> is_eol c) s) = None \<longleftrightarrow> dropWhile (\<lambda>c. \<not> is_eol c) s = []"
  using hd_dropWhile [of "\<lambda>c. \<not> is_eol c" s] by (auto simp: line_end_None)

lemma parse_line_cases:
  assumes "parse_line s = Some (l, r)"
  obtains (comment_case) s' v e where "lit ''--'' s = Some s'" "s' = v @ e @ r" "l = QueryLineComment (''--'' @ v @ e)"
    | (text_case) v e where "skip_nul s = v @ e @ r" "e \<noteq> []" "l = QueryLineText (v @ e)"
    | (last_case) v where "skip_nul s = v @ r" "v \<noteq> []" "l = QueryLineText v"
proof -
  let ?P = "\<lambda>c. \<not> is_eol c"
  consider (c) "comment_line s = Some (l, r)" | (t) "text_line s = Some (l, r)" | (n) "last_line s = Some (l, r)"
    using assms by (auto simp: parse_line_def split: option.splits)
  then show thesis
  proof cases
    case c
    then obtain s' where s': "lit ''--'' s = Some s'" by (auto simp: comment_line_def split: option.splits)
    show thesis
    proof (cases "line_end (dropWhile ?P s')")
      case None
      then have "r = []" "l = QueryLineComment (''--'' @ takeWhile ?P s')" "dropWhile ?P s' = []"
        using c s' by (auto simp: comment_line_def Let_def split: if_splits)
      then show thesis using comment_case [OF s', of "takeWhile ?P s'" "[]"] by (metis append_Nil2 takeWhile_dropWhile_id)
    next
      case (Some x)
      then obtain e where "line_end (dropWhile ?P s') = Some (e, r)" "l = QueryLineComment (''--'' @ takeWhile ?P s' @ e)"
        using c s' by (cases x) (auto simp: comment_line_def Let_def)
      then show thesis
        using comment_case [OF s', of "takeWhile ?P s'" e] line_end_Some by (metis takeWhile_dropWhile_id)
    qed
  next
    case t
    then obtain e where e: "line_end (dropWhile ?P (skip_nul s)) = Some (e, r)"
      and l: "l = QueryLineText (takeWhile ?P (skip_nul s) @ e)"
      by (auto simp: text_line_def Let_def split: option.splits)
    have "dropWhile ?P (skip_nul s) = e @ r" "e \<noteq> []" using line_end_Some [OF e] by auto
    then show thesis using text_case [of "takeWhile ?P (skip_nul s)" e] l by (metis takeWhile_dropWhile_id)
  next
    case n
    then show thesis
      using last_case [of "takeWhile ?P (skip_nul s)"]
      by (auto simp: last_line_def Let_def split: if_splits)
  qed
qed

interpretation line_lexer: lexer parse_line line_value
proof
  fix s l r assume "parse_line s = Some (l, r)"
  then show "length r < length s"
  proof (cases rule: parse_line_cases)
    case (comment_case s' v e)
    then show ?thesis using lit_Some [of "''--''" s s'] by simp
  next
    case (text_case v e)
    then have "length r < length (skip_nul s)" by simp
    then show ?thesis using skip_nul_length [of s] by simp
  next
    case (last_case v)
    then have "length r < length (skip_nul s)" by simp
    then show ?thesis using skip_nul_length [of s] by simp
  qed
next
  fix s l r assume "parse_line s = Some (l, r)"
  then show "no_nul s = no_nul (line_value l) @ no_nul r"
  proof (cases rule: parse_line_cases)
    case (comment_case s' v e)
    then show ?thesis using lit_Some [of "''--''" s s'] by (simp del: append_Cons append_Nil)
  next
    case (text_case v e)
    then show ?thesis using no_nul_skip [of s] by simp
  next
    case (last_case v)
    then show ?thesis using no_nul_skip [of s] by simp
  qed
qed

text \<open>A line is found as long as anything but null characters is left, so the lines parser never fails.\<close>

lemma parse_line_None: "parse_line s = None \<longleftrightarrow> skip_nul s = []"
proof
  let ?P = "\<lambda>c. \<not> is_eol c"
  assume n: "parse_line s = None"
  then have "text_line s = None" and l: "last_line s = None" by (auto simp: parse_line_def split: option.splits)
  then have d: "dropWhile ?P (skip_nul s) = []"
    using line_rest [of "skip_nul s"] by (auto simp: text_line_def Let_def split: option.splits prod.splits)
  then have w: "takeWhile ?P (skip_nul s) = skip_nul s" by (metis append_Nil2 takeWhile_dropWhile_id)
  have nil: "skip_nul [] = []" by (simp add: skip_nul_def)
  show "skip_nul s = []" using l unfolding last_line_def Let_def d w nil by (simp split: if_splits)
next
  assume "skip_nul s = []"
  then show "parse_line s = None"
    by (simp add: parse_line_def comment_line_def text_line_def last_line_def lit_def line_end_def Let_def)
qed

lemma parse_query_conf_lines_total:
  "\<exists>ls. parse_query_conf_lines s = Inr ls \<and> no_nul (concat (map line_value ls)) = no_nul s"
proof -
  obtain ls r where k: "kleene parse_line s = (ls, r)" by fastforce
  have r: "skip_nul r = []" using line_lexer.kleene_stops [OF k] parse_line_None by simp
  then have "no_nul r = []" using no_nul_skip [of r] by simp
  then show ?thesis using line_lexer.kleene_lossless [OF k] k r by (simp add: parse_query_conf_lines_def)
qed

section \<open>Headers (header_parser)\<close>

text \<open>\<^verbatim>\<open>*space\<close> under the skipper, and \<^verbatim>\<open>-eol\<close>: a carriage return, a line feed, or both in this order.\<close>

definition is_space :: "char \<Rightarrow> bool" where
  "is_space c = (c = CHR '' '' \<or> (of_char c :: nat) \<in> {9..13})"

definition skip_spaces :: "string \<Rightarrow> string" where
  "skip_spaces s = dropWhile (\<lambda>c. is_space c \<or> is_nul c) s"

definition skip_eol :: "string \<Rightarrow> string" where
  "skip_eol s =
     (let s = skip_nul s; s = (if take 1 s = [CHR 0x0D] then drop 1 s else s) in
      if take 1 s = [CHR 0x0A] then drop 1 s else s)"

definition parse_header :: "string \<Rightarrow> string option" where
  "parse_header s =
     (case lit ''--'' s of
        None \<Rightarrow> None
      | Some s \<Rightarrow>
          (case lit ''name'' (skip_spaces s) of
             None \<Rightarrow> None
           | Some s \<Rightarrow>
               (case lit '':'' (skip_spaces s) of
                  None \<Rightarrow> None
                | Some s \<Rightarrow>
                    let s = skip_nul (skip_spaces s);
                        name = takeWhile (\<lambda>c. \<not> is_eol c) s;
                        r = dropWhile (\<lambda>c. \<not> is_eol c) s in
                    if name \<noteq> [] \<and> skip_nul (skip_eol r) = [] then Some name else None)))"

section \<open>Texts (text_parser)\<close>

datatype query_text_element = QueryTextPart string | QueryParameterName string

definition is_name_char :: "char \<Rightarrow> bool" where
  "is_name_char c =
     (let n = of_char c :: nat in c = CHR ''_'' \<or> n \<in> {48..57} \<or> n \<in> {65..90} \<or> n \<in> {97..122})"

definition is_text_char :: "char \<Rightarrow> bool" where
  "is_text_char c = (c \<noteq> CHR '':'' \<and> \<not> is_nul c)"

text \<open>What \<^verbatim>\<open>+\<close> in a \<^verbatim>\<open>lexeme\<close> takes.\<close>

definition plus_chars :: "(char \<Rightarrow> bool) \<Rightarrow> string parser" where
  "plus_chars P s =
     (let s = skip_nul s; v = takeWhile P s in
      if v = [] then None else Some (v, dropWhile P s))"

definition parse_parameter_name :: "string parser" where
  "parse_parameter_name s = (case lit '':'' s of None \<Rightarrow> None | Some s \<Rightarrow> plus_chars is_name_char s)"

definition text_chunk :: "string parser" where
  "text_chunk s =
     (case lit ''::'' s of
        Some r \<Rightarrow> Some (''::'', r)
      | None \<Rightarrow>
          (case lit '':='' s of
             Some r \<Rightarrow> Some ('':='', r)
           | None \<Rightarrow> plus_chars is_text_char s))"

definition parse_text_part :: "string parser" where
  "parse_text_part s =
     (let (vs, r) = kleene text_chunk s in if vs = [] then None else Some (concat vs, r))"

definition parse_text_element :: "query_text_element parser" where
  "parse_text_element s =
     (case parse_parameter_name s of
        Some (v, r) \<Rightarrow> Some (QueryParameterName v, r)
      | None \<Rightarrow>
          (case parse_text_part s of
             Some (v, r) \<Rightarrow> Some (QueryTextPart v, r)
           | None \<Rightarrow> None))"

definition parse_query_text :: "string \<Rightarrow> query_text_element list option" where
  "parse_query_text s =
     (let (es, r) = kleene parse_text_element s in if skip_nul r = [] then Some es else None)"

text \<open>The text that an element stands for in the file.\<close>

fun element_source :: "query_text_element \<Rightarrow> string" where
  "element_source (QueryTextPart v) = v"
| "element_source (QueryParameterName v) = CHR '':'' # v"

lemma plus_chars_Some:
  "plus_chars P s = Some (v, r) \<Longrightarrow> no_nul s = no_nul v @ no_nul r \<and> length r < length s \<and> v \<noteq> [] \<and> (\<forall>c \<in> set v. P c)"
proof -
  assume p: "plus_chars P s = Some (v, r)"
  then have v: "v = takeWhile P (skip_nul s)" "r = dropWhile P (skip_nul s)" "v \<noteq> []"
    by (auto simp: plus_chars_def Let_def split: if_splits)
  then have s: "skip_nul s = v @ r" by simp
  then have "length r < length (skip_nul s)" using v(3) by simp
  then have "length r < length s" using skip_nul_length [of s] by simp
  moreover have "no_nul s = no_nul v @ no_nul r" using no_nul_skip [of s] s by simp
  moreover have "\<forall>c \<in> set v. P c" using v(1) set_takeWhileD by fastforce
  ultimately show ?thesis using v(3) by blast
qed

lemma parse_parameter_name_Some:
  assumes "parse_parameter_name s = Some (v, r)"
  shows "no_nul s = no_nul (CHR '':'' # v) @ no_nul r \<and> length r < length s \<and> v \<noteq> [] \<and> (\<forall>c \<in> set v. is_name_char c)"
proof -
  obtain s' where s': "lit '':'' s = Some s'" "plus_chars is_name_char s' = Some (v, r)"
    using assms by (auto simp: parse_parameter_name_def split: option.splits)
  have colon: "no_nul (CHR '':'' # v) = no_nul '':'' @ no_nul v" by (simp add: no_nul_def)
  show ?thesis unfolding colon using lit_Some [OF s'(1)] plus_chars_Some [OF s'(2)] by simp
qed

interpretation chunk_lexer: lexer text_chunk "\<lambda>v. v"
proof
  fix s v r assume c: "text_chunk s = Some (v, r)"
  have "no_nul s = no_nul v @ no_nul r \<and> length r < length s"
  proof (cases "lit ''::'' s")
    case (Some r')
    then show ?thesis using c lit_Some [OF Some] by (auto simp: text_chunk_def)
  next
    case none: None
    show ?thesis
    proof (cases "lit '':='' s")
      case (Some r')
      then show ?thesis using none c lit_Some [OF Some] by (auto simp: text_chunk_def)
    next
      case None
      then show ?thesis using none c plus_chars_Some [of is_text_char s v r] by (simp add: text_chunk_def)
    qed
  qed
  then show "length r < length s" "no_nul s = no_nul v @ no_nul r" by simp_all
qed

lemma parse_text_part_Some:
  assumes "parse_text_part s = Some (v, r)"
  shows "no_nul s = no_nul v @ no_nul r \<and> length r < length s"
proof -
  obtain vs where k: "kleene text_chunk s = (vs, r)" "v = concat vs" "vs \<noteq> []"
    using assms by (cases "kleene text_chunk s") (auto simp: parse_text_part_def split: if_splits)
  then show ?thesis
    using chunk_lexer.kleene_lossless [OF k(1)] chunk_lexer.kleene_length [OF k(1)] by (cases vs) simp_all
qed

interpretation element_lexer: lexer parse_text_element element_source
proof
  fix s e r assume p: "parse_text_element s = Some (e, r)"
  have "no_nul s = no_nul (element_source e) @ no_nul r \<and> length r < length s"
  proof (cases "parse_parameter_name s")
    case (Some x)
    then obtain v r' where x: "parse_parameter_name s = Some (v, r')" by (cases x) auto
    then have "e = QueryParameterName v" "r = r'" using p by (simp_all add: parse_text_element_def)
    then show ?thesis using parse_parameter_name_Some [OF x] by simp
  next
    case None
    then obtain v where "parse_text_part s = Some (v, r)" "e = QueryTextPart v"
      using p by (auto simp: parse_text_element_def split: option.splits)
    then show ?thesis using parse_text_part_Some by simp
  qed
  then show "length r < length s" "no_nul s = no_nul (element_source e) @ no_nul r" by simp_all
qed

lemma parse_query_text_source:
  assumes "parse_query_text s = Some es"
  shows "no_nul (concat (map element_source es)) = no_nul s"
proof -
  obtain r where k: "kleene parse_text_element s = (es, r)" "skip_nul r = []"
    using assms by (cases "kleene parse_text_element s") (auto simp: parse_query_text_def split: if_splits)
  have "no_nul r = []" using k(2) no_nul_skip [of r] by simp
  then show ?thesis using element_lexer.kleene_lossless [OF k(1)] by simp
qed

lemma kleene_names:
  "kleene parse_text_element s = (es, r) \<Longrightarrow> QueryParameterName v \<in> set es \<Longrightarrow> v \<noteq> [] \<and> (\<forall>c \<in> set v. is_name_char c)"
proof (induction rule: element_lexer.kleene_induct)
  case (step s a r as r')
  show ?case
  proof (cases "QueryParameterName v \<in> set as")
    case False
    then have "parse_text_element s = Some (QueryParameterName v, r)" using step by simp
    then have "parse_parameter_name s = Some (v, r)" by (auto simp: parse_text_element_def split: option.splits)
    then show ?thesis using parse_parameter_name_Some by simp
  qed (use step in blast)
qed simp

section \<open>Parsed queries (line_visitor)\<close>

record parsed_query =
  pq_name :: string
  pq_text :: "query_text_element list"

datatype state_type = initial | header_parsed

record line_visitor =
  lv_state :: state_type
  lv_queries :: "parsed_query list"

definition new_line_visitor :: line_visitor where
  "new_line_visitor = \<lparr>lv_state = initial, lv_queries = []\<rparr>"

definition visit_header :: "string \<Rightarrow> line_visitor \<Rightarrow> line_visitor" where
  "visit_header comment lv =
     (case parse_header comment of
        Some name \<Rightarrow>
          lv\<lparr>lv_state := header_parsed, lv_queries := lv_queries lv @ [\<lparr>pq_name = name, pq_text = []\<rparr>]\<rparr>
      | None \<Rightarrow> lv)"

definition append_text :: "query_text_element list \<Rightarrow> parsed_query list \<Rightarrow> parsed_query list" where
  "append_text es qs = butlast qs @ [(last qs)\<lparr>pq_text := pq_text (last qs) @ es\<rparr>]"

definition visit_text :: "string \<Rightarrow> line_visitor \<Rightarrow> conf_error + line_visitor" where
  "visit_text text lv =
     (case parse_query_text text of
        None \<Rightarrow> Inl (InvalidArgument (''Failed to parse query text: '' @ pq_name (last (lv_queries lv))))
      | Some es \<Rightarrow> Inr (lv\<lparr>lv_queries := append_text es (lv_queries lv)\<rparr>))"

fun visit_line :: "query_line \<Rightarrow> line_visitor \<Rightarrow> conf_error + line_visitor" where
  "visit_line (QueryLineComment comment) lv = Inr (visit_header comment lv)"
| "visit_line (QueryLineText text) lv =
     (case lv_state lv of
        initial \<Rightarrow> Inl (InvalidArgument ''Failed to parse query conf: expected comment'')
      | header_parsed \<Rightarrow> visit_text text lv)"

fun visit_lines :: "query_line list \<Rightarrow> line_visitor \<Rightarrow> conf_error + line_visitor" where
  "visit_lines [] lv = Inr lv"
| "visit_lines (l # ls) lv = rbind (visit_line l lv) (visit_lines ls)"

definition parse_query_conf_elements :: "query_line list \<Rightarrow> conf_error + parsed_query list" where
  "parse_query_conf_elements lines = rbind (visit_lines lines new_line_visitor) (\<lambda>lv. Inr (lv_queries lv))"

definition parse_query_conf :: "string \<Rightarrow> conf_error + parsed_query list" where
  "parse_query_conf s = rbind (parse_query_conf_lines s) parse_query_conf_elements"

section \<open>Declarations and descriptions\<close>

text \<open>
  A declaration is a class with a name and a type of parameters: an adapted structure with member names, or a
  tuple of some size. \<^verbatim>\<open>hana::to<const char*>\<close> gives a C string, which ends at its first null character.
\<close>

datatype parameters_type = HasMembers "string list" | TupleOf nat

record query_declaration =
  qd_raw_name :: string
  qd_parameters :: parameters_type

definition c_str_of :: "string \<Rightarrow> string" where "c_str_of s = takeWhile (\<lambda>c. \<not> is_nul c) s"

definition get_query_name :: "query_declaration \<Rightarrow> string" where
  "get_query_name q = c_str_of (qd_raw_name q)"

fun check_declared_duplicates :: "query_declaration list \<Rightarrow> string set \<Rightarrow> conf_error + unit" where
  "check_declared_duplicates [] names = Inr ()"
| "check_declared_duplicates (q # qs) names =
     (if qd_raw_name q \<in> names
      then Inl (InvalidArgument (c_str_of (''Duplicate declaration for query: '' @ qd_raw_name q)))
      else check_declared_duplicates qs (insert (qd_raw_name q) names))"

fun check_defined_duplicates :: "parsed_query list \<Rightarrow> string set \<Rightarrow> conf_error + string set" where
  "check_defined_duplicates [] names = Inr names"
| "check_defined_duplicates (p # ps) names =
     (if pq_name p \<in> names then Inl (InvalidArgument (''Duplicate definition for query: '' @ pq_name p))
      else check_defined_duplicates ps (insert (pq_name p) names))"

fun check_for_undefined :: "query_declaration list \<Rightarrow> string set \<Rightarrow> conf_error + unit" where
  "check_for_undefined [] definitions = Inr ()"
| "check_for_undefined (q # qs) definitions =
     (if get_query_name q \<notin> definitions
      then Inl (InvalidArgument (c_str_of (''Query is not defined in query conf: '' @ qd_raw_name q)))
      else check_for_undefined qs definitions)"

record query_description =
  de_name :: string
  de_text :: string

text \<open>\<^verbatim>\<open>try_lexical_convert\<close> to \<^verbatim>\<open>std::size_t\<close> of a name, which has no sign: only digits, and in range.\<close>

definition lexical_size :: "string \<Rightarrow> nat option" where
  "lexical_size s =
     (if s \<noteq> [] \<and> (\<forall>c \<in> set s. (of_char c :: nat) \<in> {48..57}) \<and> dec_value s < 2 ^ 64 then Some (dec_value s) else None)"

text \<open>The loop over the member names counts the ones before the first that is equal.\<close>

fun member_number :: "string \<Rightarrow> string list \<Rightarrow> bool \<times> nat \<Rightarrow> bool \<times> nat" where
  "member_number v [] r = r"
| "member_number v (k # ks) (found, number) =
     (if k = v then member_number v ks (True, number)
      else member_number v ks (found, if found then number else number + 1))"

definition parameter_number :: "query_declaration \<Rightarrow> string \<Rightarrow> conf_error + nat" where
  "parameter_number q v =
     (case qd_parameters q of
        HasMembers ks \<Rightarrow>
          (let (found, number) = member_number v ks (False, 0) in
           if found then Inr number
           else Inl (InvalidArgument
             (c_str_of (''Parameter is not found in query \"'' @ qd_raw_name q @ ''\": '') @ v)))
      | TupleOf n \<Rightarrow>
          (case lexical_size v of
             None \<Rightarrow> Inl (InvalidArgument
               (c_str_of (''Only valid numeric names supported for not adapted query parameters types,''
                          @ '' but query \"'' @ qd_raw_name q @ ''\" has parameter with name: '') @ v))
           | Some number \<Rightarrow>
               if number \<ge> n
               then Inl (OutOfRange (''Query has numeric parameter greater than maximum: '' @ v @ '' (''
                      @ std_to_string (int n) @ '')''))
               else Inr number))"

fun visit_part :: "query_declaration \<Rightarrow> query_text_element \<Rightarrow> query_description \<Rightarrow> conf_error + query_description" where
  "visit_part q (QueryTextPart v) d = Inr (d\<lparr>de_text := de_text d @ v\<rparr>)"
| "visit_part q (QueryParameterName v) d =
     rbind (parameter_number q v) (\<lambda>number.
       Inr (d\<lparr>de_text := de_text d @ ''$'' @ std_to_string (int (number + 1))\<rparr>))"

fun visit_parts ::
    "query_declaration \<Rightarrow> query_text_element list \<Rightarrow> query_description \<Rightarrow> conf_error + query_description" where
  "visit_parts q [] d = Inr d"
| "visit_parts q (e # es) d = rbind (visit_part q e d) (visit_parts q es)"

definition trim :: "string \<Rightarrow> string" where
  "trim s = rev (dropWhile is_space (rev (dropWhile is_space s)))"

definition make_query_description :: "query_declaration \<Rightarrow> parsed_query \<Rightarrow> conf_error + query_description" where
  "make_query_description q p =
     rbind (visit_parts q (pq_text p) \<lparr>de_name = pq_name p, de_text = ''''\<rparr>) (\<lambda>d.
       Inr (d\<lparr>de_text := trim (de_text d)\<rparr>))"

text \<open>Every declaration with the name is described, and the last description is kept.\<close>

fun description_loop ::
    "query_declaration list \<Rightarrow> parsed_query \<Rightarrow> query_description option \<Rightarrow> conf_error + query_description option" where
  "description_loop [] p r = Inr r"
| "description_loop (q # qs) p r =
     (if get_query_name q = pq_name p
      then rbind (make_query_description q p) (\<lambda>d. description_loop qs p (Some d))
      else description_loop qs p r)"

definition declared_description :: "query_declaration list \<Rightarrow> parsed_query \<Rightarrow> conf_error + query_description" where
  "declared_description qs p =
     rbind (description_loop qs p None) (\<lambda>r.
       case r of
         None \<Rightarrow> Inl (InvalidArgument (''Query is not declared: '' @ pq_name p))
       | Some d \<Rightarrow> Inr d)"

fun make_query_descriptions ::
    "query_declaration list \<Rightarrow> parsed_query list \<Rightarrow> conf_error + query_description list" where
  "make_query_descriptions qs [] = Inr []"
| "make_query_descriptions qs (p # ps) =
     rbind (declared_description qs p) (\<lambda>d. rbind (make_query_descriptions qs ps) (\<lambda>ds. Inr (d # ds)))"

section \<open>The repository\<close>

record query_conf =
  qc_descriptions :: "query_description list"
  qc_queries :: "string \<rightharpoonup> string"

text \<open>\<^verbatim>\<open>insert\<close> into the map keeps the first value of a key.\<close>

definition make_query_conf :: "query_description list \<Rightarrow> query_conf" where
  "make_query_conf ds =
     \<lparr>qc_descriptions = ds, qc_queries = map_of (map (\<lambda>d. (de_name d, de_text d)) ds)\<rparr>"

text \<open>A repository holds a pointer that is null in one made by the default constructor.\<close>

type_synonym query_repository = "query_conf option"

definition is_initialized :: "query_repository \<Rightarrow> bool" where "is_initialized r = (r \<noteq> None)"

definition get_description :: "query_repository \<Rightarrow> query_declaration \<Rightarrow> conf_error + string" where
  "get_description r q =
     (case r of
        None \<Rightarrow> Inl NullConf
      | Some conf \<Rightarrow> (case qc_queries conf (get_query_name q) of None \<Rightarrow> Inl KeyNotFound | Some t \<Rightarrow> Inr t))"

definition repository_make_query ::
    "query_repository \<Rightarrow> query_declaration \<Rightarrow> 'p list \<Rightarrow> conf_error + 'p query" where
  "repository_make_query r q params = rbind (get_description r q) (\<lambda>text. Inr (make_query text params))"

definition make_query_repository :: "string \<Rightarrow> query_declaration list \<Rightarrow> conf_error + query_repository" where
  "make_query_repository s qs =
     rbind (check_declared_duplicates qs {}) (\<lambda>_.
     rbind (parse_query_conf s) (\<lambda>parsed.
     rbind (check_defined_duplicates parsed {}) (\<lambda>names.
     rbind (check_for_undefined qs names) (\<lambda>_.
     rbind (make_query_descriptions qs parsed) (\<lambda>ds.
       Inr (Some (make_query_conf ds)))))))"

section \<open>The sections of a file\<close>

text \<open>
  What a file means, read from its end: the text before the first header, and for each header the text up to the
  next one, without the other comments.
\<close>

fun sections :: "query_line list \<Rightarrow> string \<times> (string \<times> string) list" where
  "sections [] = ('''', [])"
| "sections (QueryLineText v # ls) = (no_nul v @ fst (sections ls), snd (sections ls))"
| "sections (QueryLineComment v # ls) =
     (case parse_header v of
        None \<Rightarrow> sections ls
      | Some name \<Rightarrow> ('''', (name, fst (sections ls)) # snd (sections ls)))"

definition query_source :: "parsed_query \<Rightarrow> string \<times> string" where
  "query_source q = (pq_name q, no_nul (concat (map element_source (pq_text q))))"

definition extend_last :: "string \<Rightarrow> (string \<times> string) list \<Rightarrow> (string \<times> string) list" where
  "extend_last t qs = (if qs = [] then [] else butlast qs @ [(fst (last qs), snd (last qs) @ t)])"

definition visitor_ok :: "line_visitor \<Rightarrow> bool" where
  "visitor_ok lv \<longleftrightarrow> (lv_state lv = header_parsed \<longleftrightarrow> lv_queries lv \<noteq> [])"

lemma extend_last_nil [simp]: "extend_last [] qs = qs"
  by (simp add: extend_last_def)

lemma extend_last_twice [simp]: "extend_last t (extend_last s qs) = extend_last (s @ t) qs"
  by (simp add: extend_last_def)

lemma extend_last_snoc [simp]: "extend_last t (qs @ [(n, s)]) = qs @ [(n, s @ t)]"
  by (simp add: extend_last_def)

lemma append_text_source:
  assumes "parse_query_text v = Some es" and "qs \<noteq> []"
  shows "map query_source (append_text es qs) = extend_last (no_nul v) (map query_source qs)"
proof -
  obtain ps p where qs: "qs = ps @ [p]" using assms(2) by (cases qs rule: rev_cases) auto
  show ?thesis using parse_query_text_source [OF assms(1)] by (simp add: qs append_text_def query_source_def)
qed

lemma visit_line_ok: "visit_line l lv = Inr lv' \<Longrightarrow> visitor_ok lv \<Longrightarrow> visitor_ok lv'"
  by (cases l) (auto simp: visitor_ok_def visit_header_def visit_text_def append_text_def
      split: option.splits state_type.splits)

lemma visit_line_source:
  assumes "visit_line l lv = Inr lv'" and "visitor_ok lv"
  shows "extend_last (fst (sections ls)) (map query_source (lv_queries lv')) @ snd (sections ls) =
    extend_last (fst (sections (l # ls))) (map query_source (lv_queries lv)) @ snd (sections (l # ls))"
proof (cases l)
  case (QueryLineComment v)
  then show ?thesis
    using assms by (cases "parse_header v") (auto simp: visit_header_def query_source_def)
next
  case (QueryLineText v)
  then obtain es where es: "parse_query_text v = Some es" and "lv_state lv = header_parsed"
    and lv': "lv' = lv\<lparr>lv_queries := append_text es (lv_queries lv)\<rparr>"
    using assms(1) by (auto simp: visit_text_def split: option.splits state_type.splits)
  then have "lv_queries lv \<noteq> []" using assms(2) by (simp add: visitor_ok_def)
  then show ?thesis using QueryLineText append_text_source [OF es] lv' by simp
qed

lemma visit_lines_source:
  "visit_lines ls lv = Inr lv' \<Longrightarrow> visitor_ok lv \<Longrightarrow>
   map query_source (lv_queries lv') = extend_last (fst (sections ls)) (map query_source (lv_queries lv)) @ snd (sections ls)"
proof (induction ls arbitrary: lv)
  case (Cons l ls)
  obtain lv1 where l: "visit_line l lv = Inr lv1" and ls: "visit_lines ls lv1 = Inr lv'"
    using Cons.prems(1) by (auto simp: rbind_Inr_iff)
  show ?case
    using Cons.IH [OF ls visit_line_ok [OF l Cons.prems(2)]] visit_line_source [OF l Cons.prems(2), of ls] by simp
qed simp

lemma parse_query_conf_source:
  assumes "parse_query_conf s = Inr qs"
  shows "\<exists>ls. parse_query_conf_lines s = Inr ls \<and> map query_source qs = snd (sections ls)"
proof -
  obtain ls lv where ls: "parse_query_conf_lines s = Inr ls" "visit_lines ls new_line_visitor = Inr lv"
    and qs: "qs = lv_queries lv"
    using assms by (auto simp: parse_query_conf_def parse_query_conf_elements_def rbind_Inr_iff)
  have "visitor_ok new_line_visitor" by (simp add: visitor_ok_def new_line_visitor_def)
  from visit_lines_source [OF ls(2) this] show ?thesis
    using ls(1) qs by (simp add: new_line_visitor_def extend_last_def)
qed

text \<open>The form of a line: its content has no line end but the one behind it.\<close>

definition line_ends :: "string set" where
  "line_ends = {[], [CHR 0x0D, CHR 0x0A], [CHR 0x0D], [CHR 0x0A]}"

definition line_wf :: "query_line \<Rightarrow> bool" where
  "line_wf l \<longleftrightarrow>
     (\<exists>v e. line_value l = v @ e \<and> e \<in> line_ends \<and> (\<forall>c \<in> set v. \<not> is_eol c)
        \<and> ((\<exists>v'. l = QueryLineComment v') \<longleftrightarrow> take 2 v = ''--''))"

lemma takeWhile_line: "\<forall>c \<in> set (takeWhile (\<lambda>c. \<not> is_eol c) s). \<not> is_eol c"
  using set_takeWhileD by fastforce

lemma line_end_in: "line_end s = Some (e, r) \<Longrightarrow> e \<in> line_ends"
  by (auto simp: line_end_def line_ends_def split: if_splits)

lemma nil_line_end: "[] \<in> line_ends"
  by (simp add: line_ends_def)

lemma line_wfI:
  assumes "e \<in> line_ends" and "\<forall>c \<in> set v. \<not> is_eol c"
  shows "line_wf (QueryLineComment (''--'' @ v @ e))" and "take 2 v \<noteq> ''--'' \<Longrightarrow> line_wf (QueryLineText (v @ e))"
proof -
  have "\<forall>c \<in> set (''--'' @ v). \<not> is_eol c" "take 2 (''--'' @ v) = ''--''"
    using assms(2) by (simp_all add: is_eol_def)
  then show "line_wf (QueryLineComment (''--'' @ v @ e))"
    unfolding line_wf_def using assms(1) by (intro exI [of _ "''--'' @ v"] exI [of _ e]) simp
  show "line_wf (QueryLineText (v @ e))" if "take 2 v \<noteq> ''--''"
    unfolding line_wf_def using assms that by (intro exI [of _ v] exI [of _ e]) simp
qed

lemma comment_line_None: "comment_line s = None \<longleftrightarrow> take 2 (skip_nul s) \<noteq> ''--''"
proof -
  have lit: "lit ''--'' s = None \<longleftrightarrow> take 2 (skip_nul s) \<noteq> ''--''" by (simp add: lit_def Let_def numeral_2_eq_2)
  show ?thesis
  proof (cases "lit ''--'' s")
    case None
    then show ?thesis using lit by (simp add: comment_line_def)
  next
    case (Some s')
    then have "comment_line s \<noteq> None"
      using line_rest [of s'] by (auto simp: comment_line_def Let_def split: option.splits)
    then show ?thesis using lit Some by simp
  qed
qed

lemma take_takeWhile_comment:
  "take 2 (takeWhile (\<lambda>c. \<not> is_eol c) s) = ''--'' \<Longrightarrow> take 2 s = ''--''"
  by (cases s; cases "tl s") (auto split: if_splits)

lemma parse_line_wf:
  assumes "parse_line s = Some (l, r)"
  shows "line_wf l"
proof (cases "comment_line s")
  case (Some x)
  then have c: "comment_line s = Some (l, r)" using assms by (simp add: parse_line_def)
  then obtain s' where s': "lit ''--'' s = Some s'" by (auto simp: comment_line_def split: option.splits)
  show ?thesis
    using c s' line_wfI(1) [OF line_end_in takeWhile_line] line_wfI(1) [OF nil_line_end takeWhile_line]
    by (auto simp: comment_line_def Let_def split: option.splits prod.splits if_splits)
next
  case None
  let ?v = "takeWhile (\<lambda>c. \<not> is_eol c) (skip_nul s)"
  have no: "take 2 ?v \<noteq> ''--''" using None comment_line_None take_takeWhile_comment by metis
  consider (t) "text_line s = Some (l, r)" | (n) "last_line s = Some (l, r)"
    using assms None by (auto simp: parse_line_def split: option.splits)
  then show ?thesis
  proof cases
    case t
    then show ?thesis using line_wfI(2) [OF line_end_in takeWhile_line no]
      by (auto simp: text_line_def Let_def split: option.splits prod.splits)
  next
    case n
    then show ?thesis using line_wfI(2) [OF nil_line_end takeWhile_line no]
      by (auto simp: last_line_def Let_def split: if_splits)
  qed
qed

lemma parse_query_conf_lines_wf:
  assumes "parse_query_conf_lines s = Inr ls"
  shows "\<forall>l \<in> set ls. line_wf l"
proof -
  obtain r where "kleene parse_line s = (ls, r)"
    using assms by (cases "kleene parse_line s") (auto simp: parse_query_conf_lines_def split: if_splits)
  then show ?thesis by (induction rule: line_lexer.kleene_induct) (auto intro: parse_line_wf)
qed

section \<open>Placeholders\<close>

lemma member_number_found: "member_number v ks (True, n) = (True, n)"
  by (induction ks) auto

lemma member_number_first:
  "member_number v ks (False, n) = (v \<in> set ks, n + length (takeWhile (\<lambda>k. k \<noteq> v) ks))"
  by (induction ks arbitrary: n) (auto simp: member_number_found)

text \<open>The number of a parameter is the position of the first member of its name, or the number it is written as.\<close>

definition names_parameter :: "query_declaration \<Rightarrow> string \<Rightarrow> nat \<Rightarrow> bool" where
  "names_parameter q v n \<longleftrightarrow>
     (case qd_parameters q of
        HasMembers ks \<Rightarrow> n < length ks \<and> ks ! n = v \<and> v \<notin> set (take n ks)
      | TupleOf m \<Rightarrow> n < m \<and> lexical_size v = Some n)"

lemma parameter_number_Inr: "parameter_number q v = Inr n \<longleftrightarrow> names_parameter q v n"
proof (cases "qd_parameters q")
  case (HasMembers ks)
  let ?i = "length (takeWhile (\<lambda>k. k \<noteq> v) ks)"
  have first: "v \<in> set ks \<Longrightarrow> ?i < length ks \<and> ks ! ?i = v \<and> v \<notin> set (take ?i ks)"
    by (induction ks) auto
  have unique: "n < length ks \<Longrightarrow> ks ! n = v \<Longrightarrow> v \<notin> set (take n ks) \<Longrightarrow> n = ?i" for n
    by (induction ks arbitrary: n) (auto simp: nth_Cons take_Cons split: nat.splits)
  show ?thesis
    using HasMembers first unique [of n]
    by (auto simp: parameter_number_def names_parameter_def member_number_first)
next
  case (TupleOf m)
  then show ?thesis by (auto simp: parameter_number_def names_parameter_def not_le split: option.splits)
qed

definition expand_element :: "query_declaration \<Rightarrow> query_text_element \<Rightarrow> string" where
  "expand_element q e =
     (case e of
        QueryTextPart v \<Rightarrow> v
      | QueryParameterName v \<Rightarrow>
          (case parameter_number q v of Inr n \<Rightarrow> ''$'' @ std_to_string (int (n + 1)) | Inl _ \<Rightarrow> ''''))"

definition parameters_known :: "query_declaration \<Rightarrow> query_text_element list \<Rightarrow> bool" where
  "parameters_known q es \<longleftrightarrow> (\<forall>v. QueryParameterName v \<in> set es \<longrightarrow> (\<exists>n. names_parameter q v n))"

lemma visit_parts_Inr:
  "visit_parts q es d = Inr d' \<longleftrightarrow>
     parameters_known q es \<and> d' = d\<lparr>de_text := de_text d @ concat (map (expand_element q) es)\<rparr>"
proof (induction es arbitrary: d)
  case Nil
  then show ?case by (auto simp: parameters_known_def)
next
  case (Cons e es)
  show ?case
  proof (cases e)
    case (QueryTextPart v)
    then show ?thesis using Cons.IH by (auto simp: parameters_known_def expand_element_def)
  next
    case (QueryParameterName v)
    show ?thesis
    proof (cases "parameter_number q v")
      case (Inl err)
      then have "\<not> names_parameter q v n" for n using parameter_number_Inr [of q v n] by simp
      then show ?thesis using QueryParameterName Inl by (auto simp: parameters_known_def)
    next
      case (Inr n)
      then have "names_parameter q v n" using parameter_number_Inr by simp
      then show ?thesis
        using QueryParameterName Inr Cons.IH by (auto simp: parameters_known_def expand_element_def)
    qed
  qed
qed

lemma make_query_description_Inr:
  "make_query_description q p = Inr d \<longleftrightarrow>
     parameters_known q (pq_text p)
     \<and> d = \<lparr>de_name = pq_name p, de_text = trim (concat (map (expand_element q) (pq_text p)))\<rparr>"
  by (auto simp: make_query_description_def rbind_Inr_iff visit_parts_Inr)

section \<open>Acceptance\<close>

lemma declared_duplicates_Inr:
  "check_declared_duplicates qs N = Inr () \<longleftrightarrow> distinct (map qd_raw_name qs) \<and> qd_raw_name ` set qs \<inter> N = {}"
  by (induction qs arbitrary: N) auto

lemma defined_duplicates_Inr:
  "check_defined_duplicates ps N = Inr M \<longleftrightarrow>
     distinct (map pq_name ps) \<and> pq_name ` set ps \<inter> N = {} \<and> M = N \<union> pq_name ` set ps"
  by (induction ps arbitrary: N) auto

lemma check_for_undefined_Inr: "check_for_undefined qs D = Inr () \<longleftrightarrow> get_query_name ` set qs \<subseteq> D"
  by (induction qs) auto

definition description_of :: "query_declaration \<Rightarrow> parsed_query \<Rightarrow> query_description" where
  "description_of q p = \<lparr>de_name = pq_name p, de_text = trim (concat (map (expand_element q) (pq_text p)))\<rparr>"

lemma description_loop_Inr:
  "description_loop qs p r = Inr r' \<longleftrightarrow>
     (\<forall>q \<in> set qs. get_query_name q = pq_name p \<longrightarrow> parameters_known q (pq_text p))
     \<and> r' = (case filter (\<lambda>q. get_query_name q = pq_name p) qs of
              [] \<Rightarrow> r
            | ms \<Rightarrow> Some (description_of (last ms) p))"
proof (induction qs arbitrary: r)
  case (Cons q qs)
  then show ?case
    by (auto simp: rbind_Inr_iff make_query_description_Inr description_of_def split: list.splits)
qed auto

lemma declared_description_Inr:
  "declared_description qs p = Inr d \<longleftrightarrow>
     (\<forall>q \<in> set qs. get_query_name q = pq_name p \<longrightarrow> parameters_known q (pq_text p))
     \<and> (\<exists>q \<in> set qs. get_query_name q = pq_name p)
     \<and> d = description_of (last (filter (\<lambda>q. get_query_name q = pq_name p) qs)) p"
proof (cases "filter (\<lambda>q. get_query_name q = pq_name p) qs")
  case Nil
  then show ?thesis by (auto simp: declared_description_def rbind_Inr_iff description_loop_Inr filter_empty_conv)
next
  case (Cons m ms)
  then have "\<exists>q \<in> set qs. get_query_name q = pq_name p" by (metis (mono_tags, lifting) filter_empty_conv list.distinct(1))
  then show ?thesis using Cons by (auto simp: declared_description_def rbind_Inr_iff description_loop_Inr)
qed

lemma make_query_descriptions_Inr:
  "make_query_descriptions qs ps = Inr ds \<longleftrightarrow> list_all2 (\<lambda>p d. declared_description qs p = Inr d) ps ds"
  by (induction ps arbitrary: ds) (auto simp: rbind_Inr_iff list_all2_Cons1)

definition conf_acceptable :: "query_declaration list \<Rightarrow> parsed_query list \<Rightarrow> bool" where
  "conf_acceptable qs ps \<longleftrightarrow>
     distinct (map qd_raw_name qs) \<and> distinct (map pq_name ps) \<and> get_query_name ` set qs = pq_name ` set ps
     \<and> (\<forall>p \<in> set ps. \<forall>q \<in> set qs. get_query_name q = pq_name p \<longrightarrow> parameters_known q (pq_text p))"

definition described :: "query_declaration list \<Rightarrow> parsed_query list \<Rightarrow> query_description list" where
  "described qs ps = map (\<lambda>p. description_of (last (filter (\<lambda>q. get_query_name q = pq_name p) qs)) p) ps"

lemma list_all2_map_iff: "list_all2 (\<lambda>p d. Q p \<and> d = f p) ps ds \<longleftrightarrow> (\<forall>p \<in> set ps. Q p) \<and> ds = map f ps"
  by (induction ps arbitrary: ds) (auto simp: list_all2_Cons1)

lemma descriptions_Inr:
  "make_query_descriptions qs ps = Inr ds \<longleftrightarrow>
     (\<forall>p \<in> set ps. pq_name p \<in> get_query_name ` set qs
        \<and> (\<forall>q \<in> set qs. get_query_name q = pq_name p \<longrightarrow> parameters_known q (pq_text p)))
     \<and> ds = described qs ps"
proof -
  let ?Q = "\<lambda>p. pq_name p \<in> get_query_name ` set qs
    \<and> (\<forall>q \<in> set qs. get_query_name q = pq_name p \<longrightarrow> parameters_known q (pq_text p))"
  let ?f = "\<lambda>p. description_of (last (filter (\<lambda>q. get_query_name q = pq_name p) qs)) p"
  have "(declared_description qs p = Inr d) = (?Q p \<and> d = ?f p)" for p d
    unfolding declared_description_Inr by (metis (no_types, lifting) imageE imageI)
  then have "make_query_descriptions qs ps = Inr ds \<longleftrightarrow> list_all2 (\<lambda>p d. ?Q p \<and> d = ?f p) ps ds"
    by (simp add: make_query_descriptions_Inr)
  then show ?thesis unfolding described_def list_all2_map_iff .
qed

lemma make_query_repository_Inr:
  "make_query_repository s qs = Inr r \<longleftrightarrow>
     (\<exists>ps. parse_query_conf s = Inr ps \<and> conf_acceptable qs ps \<and> r = Some (make_query_conf (described qs ps)))"
  unfolding make_query_repository_def conf_acceptable_def
  by (auto simp: rbind_Inr_iff declared_duplicates_Inr defined_duplicates_Inr check_for_undefined_Inr descriptions_Inr)

lemma described_lookup:
  assumes "distinct (map pq_name ps)" and "p \<in> set ps"
  shows "qc_queries (make_query_conf (described qs ps)) (pq_name p) =
    Some (de_text (description_of (last (filter (\<lambda>q. get_query_name q = pq_name p) qs)) p))"
proof -
  let ?f = "\<lambda>p. de_text (description_of (last (filter (\<lambda>q. get_query_name q = pq_name p) qs)) p)"
  have "map (\<lambda>d. (de_name d, de_text d)) (described qs ps) = map (\<lambda>p. (pq_name p, ?f p)) ps"
    by (simp add: described_def description_of_def)
  moreover have "distinct (map fst (map (\<lambda>p. (pq_name p, ?f p)) ps))" using assms(1) by (simp add: comp_def)
  ultimately show ?thesis
    using assms(2) by (simp add: make_query_conf_def map_of_eq_Some_iff del: map_map)
qed

lemma filter_key_unique:
  "distinct (map f xs) \<Longrightarrow> x \<in> set xs \<Longrightarrow> filter (\<lambda>y. f y = f x) xs = [x]"
proof (induction xs)
  case (Cons a xs)
  have out: "f a \<notin> f ` set xs" using Cons.prems(1) by simp
  show ?case
  proof (cases "x = a")
    case True
    then have "filter (\<lambda>y. f y = f x) xs = []" using True out by (metis (mono_tags, lifting) filter_False imageI)
    then show ?thesis using True by simp
  next
    case False
    then have "x \<in> set xs" using Cons.prems(2) by simp
    moreover from this have "f a \<noteq> f x" using out by auto
    ultimately show ?thesis using Cons by simp
  qed
qed simp

lemma acceptable_unique:
  assumes "conf_acceptable qs ps" and "\<forall>q \<in> set qs. get_query_name q = qd_raw_name q" and "q \<in> set qs"
  shows "filter (\<lambda>q'. get_query_name q' = get_query_name q) qs = [q]"
proof -
  have "distinct (map get_query_name qs)"
    using assms(1,2) by (metis (no_types, lifting) conf_acceptable_def map_cong)
  then show ?thesis using assms(3) by (rule filter_key_unique)
qed

text \<open>Text lines stand behind a header.\<close>

fun text_headed :: "query_line list \<Rightarrow> bool" where
  "text_headed [] = True"
| "text_headed (QueryLineText v # ls) = False"
| "text_headed (QueryLineComment v # ls) = (parse_header v \<noteq> None \<or> text_headed ls)"

definition texts_parse :: "query_line list \<Rightarrow> bool" where
  "texts_parse ls \<longleftrightarrow> (\<forall>v. QueryLineText v \<in> set ls \<longrightarrow> parse_query_text v \<noteq> None)"

lemma visit_lines_Inr:
  "(\<exists>lv'. visit_lines ls lv = Inr lv') \<longleftrightarrow> (lv_state lv = header_parsed \<or> text_headed ls) \<and> texts_parse ls"
proof (induction ls arbitrary: lv)
  case Nil
  then show ?case by (simp add: texts_parse_def)
next
  case (Cons l ls)
  show ?case
  proof (cases l)
    case (QueryLineComment v)
    then show ?thesis
      using Cons.IH [of "visit_header v lv"]
      by (cases "parse_header v") (auto simp: visit_header_def texts_parse_def)
  next
    case (QueryLineText v)
    show ?thesis
    proof (cases "parse_query_text v")
      case None
      then show ?thesis
        using QueryLineText by (auto simp: visit_text_def texts_parse_def split: state_type.split)
    next
      case (Some es)
      then have "texts_parse (l # ls) = texts_parse ls" using QueryLineText by (auto simp: texts_parse_def)
      then show ?thesis
        using QueryLineText Some Cons.IH [of "lv\<lparr>lv_queries := append_text es (lv_queries lv)\<rparr>"]
        by (auto simp: visit_text_def split: state_type.split)
    qed
  qed
qed

text \<open>A file with one query, and its declaration.\<close>

definition sample_file :: string where
  "sample_file = ''-- name:q'' @ CHR 0x0A # ''x:a''"

definition sample_declaration :: query_declaration where
  "sample_declaration = \<lparr>qd_raw_name = ''q'', qd_parameters = HasMembers [''a'']\<rparr>"

lemmas line_parser_defs =
  parse_query_conf_lines_def line_lexer.kleene_unfold parse_line_def comment_line_def text_line_def last_line_def
  lit_def line_end_def skip_nul_def is_nul_def is_eol_def

lemma sample_lines:
  "parse_query_conf_lines sample_file = Inr [QueryLineComment (''-- name:q'' @ [CHR 0x0A]), QueryLineText ''x:a'']"
  by (simp add: sample_file_def line_parser_defs Let_def)

lemma sample_text: "parse_query_text ''x:a'' = Some [QueryTextPart ''x'', QueryParameterName ''a'']"
  by (simp add: parse_query_text_def element_lexer.kleene_unfold chunk_lexer.kleene_unfold parse_text_element_def
      parse_parameter_name_def parse_text_part_def text_chunk_def plus_chars_def is_name_char_def is_text_char_def
      lit_def skip_nul_def is_nul_def Let_def)

lemma sample_header: "parse_header (''-- name:q'' @ [CHR 0x0A]) = Some ''q''"
  by (simp add: parse_header_def lit_def skip_spaces_def skip_eol_def skip_nul_def is_space_def is_nul_def is_eol_def
      Let_def)

lemma sample_queries:
  "parse_query_conf sample_file = Inr [\<lparr>pq_name = ''q'', pq_text = [QueryTextPart ''x'', QueryParameterName ''a'']\<rparr>]"
  unfolding parse_query_conf_def sample_lines
  by (simp add: parse_query_conf_elements_def new_line_visitor_def visit_header_def sample_header [simplified]
      visit_text_def sample_text append_text_def)

lemma sample_repository: "\<exists>r. make_query_repository sample_file [sample_declaration] = Inr r"
  unfolding make_query_repository_Inr
  by (auto simp: sample_queries conf_acceptable_def sample_declaration_def get_query_name_def c_str_of_def is_nul_def
      parameters_known_def names_parameter_def)

section \<open>Properties\<close>

text \<open>C23 Round trip. Cutting a file into lines loses nothing but null characters, every line is a comment or a text
  with one line end, and the queries parsed are exactly the sections of the file: in order, each with the name of its
  header and, written back with its parameters, the text of its lines.\<close>
theorem conf_source_kept:
  assumes "parse_query_conf s = Inr qs"
  shows "\<exists>ls. parse_query_conf_lines s = Inr ls \<and> no_nul (concat (map line_value ls)) = no_nul s
    \<and> (\<forall>l \<in> set ls. line_wf l) \<and> map query_source qs = snd (sections ls)"
  using parse_query_conf_source [OF assms] parse_query_conf_lines_total [of s] parse_query_conf_lines_wf [of s]
  by force

theorem conf_source_kept_witness:
  "map query_source [\<lparr>pq_name = ''q'', pq_text = [QueryTextPart ''x'', QueryParameterName ''a'']\<rparr>] =
     snd (sections [QueryLineComment (''-- name:q'' @ [CHR 0x0A]), QueryLineText ''x:a''])"
  using conf_source_kept [OF sample_queries] unfolding sample_lines by (metis sum.inject(2))

text \<open>C24 Functional. A description is the trimmed text of its query with every parameter written as the placeholder of
  a number: one more than the position of the first member of that name, or than the number that the parameter of a
  tuple is called by, which is within the tuple.\<close>
theorem placeholders_bind:
  assumes "make_query_description q p = Inr d"
  shows "\<exists>num. (\<forall>v. QueryParameterName v \<in> set (pq_text p) \<longrightarrow> names_parameter q v (num v))
    \<and> d = \<lparr>de_name = pq_name p,
           de_text = trim (concat (map (\<lambda>e. case e of QueryTextPart v \<Rightarrow> v
                                          | QueryParameterName v \<Rightarrow> ''$'' @ std_to_string (int (num v + 1)))
                                       (pq_text p)))\<rparr>"
proof (intro exI conjI)
  let ?num = "\<lambda>v. SOME n. names_parameter q v n"
  have known: "parameters_known q (pq_text p)" using assms by (simp add: make_query_description_Inr)
  have num: "names_parameter q v (?num v)" if "QueryParameterName v \<in> set (pq_text p)" for v
    using known that by (auto simp: parameters_known_def intro: someI)
  then show "\<forall>v. QueryParameterName v \<in> set (pq_text p) \<longrightarrow> names_parameter q v (?num v)" by blast
  have eq: "map (expand_element q) (pq_text p) =
    map (\<lambda>e. case e of QueryTextPart v \<Rightarrow> v | QueryParameterName v \<Rightarrow> ''$'' @ std_to_string (int (?num v + 1))) (pq_text p)"
  proof (rule map_cong [OF refl])
    fix e assume e: "e \<in> set (pq_text p)"
    show "expand_element q e =
      (case e of QueryTextPart v \<Rightarrow> v | QueryParameterName v \<Rightarrow> ''$'' @ std_to_string (int (?num v + 1)))"
    proof (cases e)
      case (QueryParameterName v)
      then have "parameter_number q v = Inr (?num v)" using num e parameter_number_Inr by blast
      then show ?thesis using QueryParameterName by (simp add: expand_element_def)
    qed (simp add: expand_element_def)
  qed
  then show "d = \<lparr>de_name = pq_name p, de_text = trim (concat (map (\<lambda>e. case e of QueryTextPart v \<Rightarrow> v
      | QueryParameterName v \<Rightarrow> ''$'' @ std_to_string (int (?num v + 1))) (pq_text p)))\<rparr>"
    using assms unfolding make_query_description_Inr eq by blast
qed

theorem placeholders_bind_witness:
  "\<exists>n. names_parameter \<lparr>qd_raw_name = ''q'', qd_parameters = HasMembers [''a'', ''b'']\<rparr> ''b'' n"
proof -
  let ?q = "\<lparr>qd_raw_name = ''q'', qd_parameters = HasMembers [''a'', ''b'']\<rparr>"
  have "names_parameter ?q ''b'' 1" by (simp add: names_parameter_def)
  then have "\<exists>d. make_query_description ?q \<lparr>pq_name = ''q'', pq_text = [QueryParameterName ''b'']\<rparr> = Inr d"
    by (auto simp: make_query_description_Inr parameters_known_def)
  then obtain d where "make_query_description ?q \<lparr>pq_name = ''q'', pq_text = [QueryParameterName ''b'']\<rparr> = Inr d" ..
  from placeholders_bind [OF this] show ?thesis by auto
qed

text \<open>C25 Error. A repository is made exactly if no text stands before the first header, every text line can be parsed,
  no name is declared or defined twice, the declared names are the defined ones, and every parameter of a query is a
  parameter of its declaration; every other file or declaration is answered with an exception.\<close>
theorem repository_accepts:
  assumes "parse_query_conf_lines s = Inr ls"
  shows "(\<exists>r. make_query_repository s qs = Inr r) \<longleftrightarrow>
    text_headed ls \<and> texts_parse ls \<and> (\<exists>ps. parse_query_conf s = Inr ps \<and> conf_acceptable qs ps)"
proof -
  have "(\<exists>ps. parse_query_conf s = Inr ps) \<longleftrightarrow> text_headed ls \<and> texts_parse ls"
    using assms visit_lines_Inr [of ls new_line_visitor]
    by (auto simp: parse_query_conf_def parse_query_conf_elements_def rbind_Inr_iff new_line_visitor_def)
  then show ?thesis by (auto simp: make_query_repository_Inr)
qed

theorem repository_accepts_witness:
  "\<not> (\<exists>r. make_query_repository [CHR 0x0A] [sample_declaration] = Inr r)
   \<and> texts_parse [QueryLineComment (''-- name:q'' @ [CHR 0x0A]), QueryLineText ''x:a'']"
proof
  have "parse_query_conf_lines [CHR 0x0A] = Inr [QueryLineText [CHR 0x0A]]"
    by (simp add: line_parser_defs Let_def)
  from repository_accepts [OF this, of "[sample_declaration]"]
  show "\<not> (\<exists>r. make_query_repository [CHR 0x0A] [sample_declaration] = Inr r)" by simp
  show "texts_parse [QueryLineComment (''-- name:q'' @ [CHR 0x0A]), QueryLineText ''x:a'']"
    using repository_accepts [OF sample_lines, of "[sample_declaration]"] sample_repository by blast
qed

text \<open>Safety. Every query declared for a repository can be made from it, with any parameters: its text is the
  description of the one definition that has its name, so a lookup never fails.\<close>
lemma repository_complete:
  fixes params :: "'p list"
  assumes "make_query_repository s qs = Inr r" and "q \<in> set qs"
    and "\<forall>q \<in> set qs. get_query_name q = qd_raw_name q"
  shows "\<exists>ps p d. parse_query_conf s = Inr ps \<and> filter (\<lambda>p. pq_name p = get_query_name q) ps = [p]
    \<and> make_query_description q p = Inr d
    \<and> repository_make_query r q params = Inr \<lparr>q_text = de_text d, q_params = params\<rparr>"
proof -
  obtain ps where ps: "parse_query_conf s = Inr ps" and acc: "conf_acceptable qs ps"
    and r: "r = Some (make_query_conf (described qs ps))"
    using assms(1) by (auto simp: make_query_repository_Inr)
  obtain p where p: "p \<in> set ps" "pq_name p = get_query_name q"
    using acc assms(2) by (metis (no_types, lifting) conf_acceptable_def imageE imageI)
  have d: "distinct (map pq_name ps)" "parameters_known q (pq_text p)"
    using acc p assms(2) by (auto simp: conf_acceptable_def)
  have "filter (\<lambda>x. pq_name x = get_query_name q) ps = [p]"
    using filter_key_unique [OF d(1) p(1)] p(2) by simp
  moreover have "make_query_description q p = Inr (description_of q p)"
    using d(2) by (simp add: make_query_description_Inr description_of_def)
  moreover have "repository_make_query r q params = Inr \<lparr>q_text = de_text (description_of q p), q_params = params\<rparr>"
    using described_lookup [OF d(1) p(1), of qs] acceptable_unique [OF acc assms(3,2)] p(2)
    by (simp add: repository_make_query_def get_description_def r make_query_def)
  ultimately show ?thesis using ps by blast
qed

end
