(* ===== verification/Ozo_Time.thy ===== *)
theory Ozo_Time
  imports Ozo_IO "HOL-Library.Signed_Division"
begin

text \<open>
  \<^verbatim>\<open>ozo/ext/std/duration.h\<close>, \<^verbatim>\<open>ext/std/time_point.h\<close> with \<^verbatim>\<open>detail/epoch.h\<close>, and \<^verbatim>\<open>ext/boost/uuid.h\<close>: how durations,
  time points and uuids become intervals, timestamps and 16 bytes of the server. Tick counts are 64-bit integers;
  where an operation of the source can overflow, the wrap-around of the machine is written out. The clock counts
  nanoseconds, as \<^verbatim>\<open>std::chrono::system_clock\<close> of libstdc++ does.
\<close>

section \<open>Ticks\<close>

definition wrap64 :: "int \<Rightarrow> int" where "wrap64 x = (x + 2 ^ 63) mod 2 ^ 64 - 2 ^ 63"

definition min64 :: int where "min64 = - (2 ^ 63)"
definition max64 :: int where "max64 = 2 ^ 63 - 1"

lemma wrap64_id: "min64 \<le> x \<Longrightarrow> x \<le> max64 \<Longrightarrow> wrap64 x = x"
  by (simp add: wrap64_def min64_def max64_def)

lemma wrap64_low: "min64 - 2 ^ 64 \<le> x \<Longrightarrow> x < min64 \<Longrightarrow> wrap64 x = x + 2 ^ 64"
proof -
  assume x: "min64 - 2 ^ 64 \<le> x" "x < min64"
  have "(x + 2 ^ 63) mod 2 ^ 64 = x + 2 ^ 63 + 2 ^ 64"
    by (rule mod_pos_pos_trivial [THEN trans [OF mod_add_self2 [symmetric]]]) (use x in \<open>auto simp: min64_def\<close>)
  then show ?thesis by (simp add: wrap64_def)
qed

lemma wrap64_high: "max64 < x \<Longrightarrow> x \<le> max64 + 2 ^ 64 \<Longrightarrow> wrap64 x = x - 2 ^ 64"
proof -
  assume x: "max64 < x" "x \<le> max64 + 2 ^ 64"
  have "(x + 2 ^ 63) mod 2 ^ 64 = (x + 2 ^ 63 - 2 ^ 64) mod 2 ^ 64" by (rule minus_mod_self2 [symmetric])
  also have "\<dots> = x + 2 ^ 63 - 2 ^ 64" using x by (intro mod_pos_pos_trivial) (auto simp: max64_def)
  finally show ?thesis by (simp add: wrap64_def)
qed

section \<open>Durations (duration.h)\<close>

record pg_interval =
  pi_microseconds :: int
  pi_days :: int
  pi_months :: int

definition usecs_per_day :: int where "usecs_per_day = 24 * 3600 * 1000000"

definition days_cast :: "int \<Rightarrow> int" where "days_cast us = us sdiv usecs_per_day"

definition from_chrono_duration :: "int \<Rightarrow> pg_interval" where
  "from_chrono_duration us =
     \<lparr>pi_microseconds = us smod usecs_per_day, pi_days = size_type (days_cast us), pi_months = 0\<rparr>"

text \<open>Days converted to microseconds.\<close>

definition usecs_of_days :: "int \<Rightarrow> int" where "usecs_of_days d = wrap64 (d * usecs_per_day)"

definition usecs_surplus :: "pg_interval \<Rightarrow> int" where
  "usecs_surplus i = pi_microseconds i smod usecs_per_day"

definition days_total :: "pg_interval \<Rightarrow> int" where
  "days_total i = wrap64 (wrap64 (pi_months i * 30 + pi_days i) + days_cast (pi_microseconds i))"

definition to_chrono_duration :: "pg_interval \<Rightarrow> int" where
  "to_chrono_duration i =
     (let surplus = usecs_surplus i; days = days_total i in
      if days < days_cast min64 - 1
         \<or> days < 0 \<and> wrap64 (usecs_of_days (days + 1) + surplus) < wrap64 (min64 + usecs_per_day)
      then min64
      else if days_cast max64 + 1 < days
         \<or> 0 < days \<and> wrap64 (max64 - usecs_per_day) < wrap64 (usecs_of_days (days - 1) + surplus)
      then max64
      else wrap64 (usecs_of_days days + surplus))"

definition send_duration :: "int \<Rightarrow> bytes" where
  "send_duration us =
     (let i = from_chrono_duration us in
      write_int 8 (pi_microseconds i) @ write_int 4 (pi_days i) @ write_int 4 (pi_months i))"

definition recv_duration :: "istream \<Rightarrow> io_exception + int \<times> istream" where
  "recv_duration s =
     rbind (read_members [8, 4, 4] s) (\<lambda>(bss, s).
       Inr (to_chrono_duration
         \<lparr>pi_microseconds = to_signed 8 (read_int (bss ! 0)), pi_days = to_signed 4 (read_int (bss ! 1)),
          pi_months = to_signed 4 (read_int (bss ! 2))\<rparr>, s))"

section \<open>Time points (time_point.h, epoch.h)\<close>

text \<open>Nanoseconds since 1970; the epoch of the server is 10957 days later.\<close>

definition epoch :: int where "epoch = wrap64 (24 * 10957 * 3600 * 1000000000)"

definition send_time_point :: "int \<Rightarrow> bytes" where
  "send_time_point t = write_int 8 (wrap64 (t - epoch) sdiv 1000)"

definition recv_time_point :: "istream \<Rightarrow> io_exception + int \<times> istream" where
  "recv_time_point s =
     rbind (read_data 8 s) (\<lambda>(bs, s). Inr (wrap64 (epoch + wrap64 (to_signed 8 (read_int bs) * 1000)), s))"

section \<open>Uuids (uuid.h)\<close>

definition send_uuid :: "bytes \<Rightarrow> bytes" where "send_uuid u = u"

definition recv_uuid :: "istream \<Rightarrow> io_exception + bytes \<times> istream" where "recv_uuid s = read_data 16 s"

section \<open>Bounds of durations\<close>

definition interval_wf :: "pg_interval \<Rightarrow> bool" where
  "interval_wf i \<longleftrightarrow>
     min64 \<le> pi_microseconds i \<and> pi_microseconds i \<le> max64
     \<and> - (2 ^ 31) \<le> pi_days i \<and> pi_days i < 2 ^ 31 \<and> - (2 ^ 31) \<le> pi_months i \<and> pi_months i < 2 ^ 31"

text \<open>The length of an interval in microseconds, a month counted as 30 days.\<close>

definition interval_length :: "pg_interval \<Rightarrow> int" where
  "interval_length i = (pi_months i * 30 + pi_days i) * usecs_per_day + pi_microseconds i"

definition clamp64 :: "int \<Rightarrow> int" where "clamp64 x = max min64 (min max64 x)"

text \<open>The intervals for which the sums of the two checks themselves overflow.\<close>

definition interval_overflows :: "pg_interval \<Rightarrow> bool" where
  "interval_overflows i \<longleftrightarrow>
     days_total i = - 106751992 \<and> usecs_surplus i < - 14454775808
     \<or> days_total i = 106751992 \<and> 14454775807 < usecs_surplus i"

lemma days_cast_bounds: "days_cast min64 = - 106751991" "days_cast max64 = 106751991"
  by (simp_all add: days_cast_def min64_def max64_def usecs_per_day_def signed_divide_int_def)

lemma smod_bounds:
  fixes x :: int
  assumes "0 < d"
  shows "- d < x smod d \<and> x smod d < d"
proof -
  have "0 \<le> y mod d" "y mod d < d" for y :: int using assms by auto
  note bounds = this [of x] this [of "- x"]
  have "x smod d = x mod d \<or> x smod d = - (- x mod d)"
    using assms by (cases x "0 :: int" rule: linorder_cases) (simp_all add: signed_modulo_int_def)
  then show ?thesis using bounds assms by linarith
qed

lemma days_cast_range: "min64 \<le> us \<Longrightarrow> us \<le> max64 \<Longrightarrow> - 106751991 \<le> days_cast us \<and> days_cast us \<le> 106751991"
proof (cases "0 \<le> us")
  case True
  assume us: "min64 \<le> us" "us \<le> max64"
  have "days_cast us = us div usecs_per_day"
    using True by (cases "us = 0") (simp_all add: days_cast_def usecs_per_day_def signed_divide_int_def)
  moreover have "us div usecs_per_day \<le> max64 div usecs_per_day" "0 \<le> us div usecs_per_day"
    using us True by (simp_all add: zdiv_mono1 usecs_per_day_def pos_imp_zdiv_nonneg_iff)
  ultimately show ?thesis by (simp add: usecs_per_day_def max64_def)
next
  case False
  assume us: "min64 \<le> us" "us \<le> max64"
  have "days_cast us = - (- us div usecs_per_day)"
    using False by (simp add: days_cast_def usecs_per_day_def signed_divide_int_def)
  moreover have "- us div usecs_per_day \<le> - min64 div usecs_per_day" "0 \<le> - us div usecs_per_day"
    using us False by (simp_all add: zdiv_mono1 usecs_per_day_def pos_imp_zdiv_nonneg_iff)
  ultimately show ?thesis by (simp add: usecs_per_day_def min64_def)
qed

lemma interval_split:
  assumes "interval_wf i"
  shows "interval_length i = days_total i * usecs_per_day + usecs_surplus i"
    and "- usecs_per_day < usecs_surplus i" "usecs_surplus i < usecs_per_day"
proof -
  have us: "- 106751991 \<le> days_cast (pi_microseconds i)" "days_cast (pi_microseconds i) \<le> 106751991"
    using days_cast_range assms by (auto simp: interval_wf_def)
  have m: "wrap64 (pi_months i * 30 + pi_days i) = pi_months i * 30 + pi_days i"
    using assms by (intro wrap64_id) (auto simp: interval_wf_def min64_def max64_def)
  have "days_total i = pi_months i * 30 + pi_days i + days_cast (pi_microseconds i)"
    unfolding days_total_def m using assms us by (intro wrap64_id) (auto simp: interval_wf_def min64_def max64_def)
  moreover have "days_cast (pi_microseconds i) * usecs_per_day + usecs_surplus i = pi_microseconds i"
    by (simp add: days_cast_def usecs_surplus_def sdiv_mult_smod_eq)
  ultimately show "interval_length i = days_total i * usecs_per_day + usecs_surplus i"
    by (simp add: interval_length_def distrib_right)
  have "- usecs_per_day < usecs_surplus i \<and> usecs_surplus i < usecs_per_day"
    unfolding usecs_surplus_def by (rule smod_bounds) (simp add: usecs_per_day_def)
  then show "- usecs_per_day < usecs_surplus i" "usecs_surplus i < usecs_per_day" by auto
qed

text \<open>The conversion by the number of whole days.\<close>

lemma usecs_of_days_id: "- 106751991 \<le> d \<Longrightarrow> d \<le> 106751991 \<Longrightarrow> usecs_of_days d = d * usecs_per_day"
  unfolding usecs_of_days_def by (rule wrap64_id) (simp_all add: usecs_per_day_def min64_def max64_def)

lemma usecs_of_days_edges:
  "usecs_of_days (- 106751992) = - 106751992 * usecs_per_day + 2 ^ 64"
  "usecs_of_days 106751992 = 106751992 * usecs_per_day - 2 ^ 64"
  by (simp_all add: usecs_of_days_def usecs_per_day_def wrap64_def)

lemma wrap64_bounds: "wrap64 (min64 + usecs_per_day) = min64 + usecs_per_day" "wrap64 (max64 - usecs_per_day) = max64 - usecs_per_day"
  by (simp_all add: wrap64_def min64_def max64_def usecs_per_day_def)

text \<open>What the two checks decide for days and surplus within a day.\<close>

definition convert_days :: "int \<Rightarrow> int \<Rightarrow> int" where
  "convert_days days surplus =
     (if days < - 106751992 \<or> days < 0 \<and> wrap64 (usecs_of_days (days + 1) + surplus) < min64 + usecs_per_day then min64
      else if 106751992 < days \<or> 0 < days \<and> max64 - usecs_per_day < wrap64 (usecs_of_days (days - 1) + surplus) then max64
      else wrap64 (usecs_of_days days + surplus))"

lemma to_chrono_convert: "to_chrono_duration i = convert_days (days_total i) (usecs_surplus i)"
  by (simp add: to_chrono_duration_def convert_days_def days_cast_bounds wrap64_bounds Let_def)

lemma convert_days_inside:
  assumes s: "- usecs_per_day < s" "s < usecs_per_day"
    and d: "- 106751991 \<le> d" "d \<le> 106751991"
  shows "convert_days d s = clamp64 (d * usecs_per_day + s)"
proof -
  note u = usecs_per_day_def min64_def max64_def
  have low: "d < 0 \<Longrightarrow> wrap64 (usecs_of_days (d + 1) + s) = (d + 1) * usecs_per_day + s"
    using d s by (simp add: usecs_of_days_id, intro wrap64_id) (simp_all add: u)
  have high: "0 < d \<Longrightarrow> wrap64 (usecs_of_days (d - 1) + s) = (d - 1) * usecs_per_day + s"
    using d s by (simp add: usecs_of_days_id, intro wrap64_id) (simp_all add: u)
  have id: "min64 \<le> d * usecs_per_day + s \<Longrightarrow> d * usecs_per_day + s \<le> max64 \<Longrightarrow>
      wrap64 (usecs_of_days d + s) = d * usecs_per_day + s"
    using d by (simp add: usecs_of_days_id wrap64_id)
  consider (neg) "d < 0" | (zero) "d = 0" | (pos) "0 < d" by linarith
  then show ?thesis
  proof cases
    case neg
    then show ?thesis using d s low id unfolding convert_days_def clamp64_def u by auto
  next
    case zero
    then show ?thesis using s id unfolding convert_days_def clamp64_def u by auto
  next
    case pos
    then show ?thesis using d s high id unfolding convert_days_def clamp64_def u by auto
  qed
qed

lemma convert_days_outside:
  assumes "- usecs_per_day < s" and "s < usecs_per_day" and "d < - 106751992 \<or> 106751992 < d"
  shows "convert_days d s = clamp64 (d * usecs_per_day + s)"
  using assms unfolding convert_days_def clamp64_def usecs_per_day_def min64_def max64_def by auto

lemma convert_days_low_edge:
  assumes "- usecs_per_day < s" and "s < usecs_per_day"
  shows "convert_days (- 106751992) s =
    (if s < - 14454775808 then - 106751992 * usecs_per_day + s + 2 ^ 64
     else clamp64 (- 106751992 * usecs_per_day + s))"
proof -
  note u = usecs_per_day_def min64_def max64_def
  let ?first = "- 106751991 * usecs_per_day + s" and ?full = "- 106751992 * usecs_per_day + s"
  have first: "wrap64 (usecs_of_days (- 106751992 + 1) + s) = (if s < - 14454775808 then ?first + 2 ^ 64 else ?first)"
    using assms by (auto simp: usecs_of_days_id u intro!: wrap64_id wrap64_low [THEN trans])
  have full: "wrap64 (usecs_of_days (- 106751992) + s) = ?full + (if ?full + 2 ^ 64 \<le> max64 then 2 ^ 64 else 0)"
    using assms wrap64_id [of "?full + 2 ^ 64"] wrap64_high [of "?full + 2 ^ 64"]
    by (simp add: usecs_of_days_edges algebra_simps) (auto simp: u)
  show ?thesis
    using assms unfolding convert_days_def first full clamp64_def by (auto simp: u)
qed

lemma convert_days_high_edge:
  assumes "- usecs_per_day < s" and "s < usecs_per_day"
  shows "convert_days 106751992 s =
    (if 14454775807 < s then 106751992 * usecs_per_day + s - 2 ^ 64
     else clamp64 (106751992 * usecs_per_day + s))"
proof -
  note u = usecs_per_day_def min64_def max64_def
  let ?first = "106751991 * usecs_per_day + s" and ?full = "106751992 * usecs_per_day + s"
  have first: "wrap64 (usecs_of_days (106751992 - 1) + s) = (if 14454775807 < s then ?first - 2 ^ 64 else ?first)"
    using assms by (auto simp: usecs_of_days_id u intro!: wrap64_id wrap64_high [THEN trans])
  have full: "wrap64 (usecs_of_days 106751992 + s) = ?full - (if min64 \<le> ?full - 2 ^ 64 then 2 ^ 64 else 0)"
    using assms wrap64_id [of "?full - 2 ^ 64"] wrap64_low [of "?full - 2 ^ 64"]
    by (simp add: usecs_of_days_edges algebra_simps) (auto simp: u)
  show ?thesis
    using assms unfolding convert_days_def first full clamp64_def by (auto simp: u)
qed

lemma to_chrono_cases:
  assumes "interval_wf i"
  shows "to_chrono_duration i =
    (if interval_overflows i
     then interval_length i + (if days_total i < 0 then 2 ^ 64 else - (2 ^ 64))
     else clamp64 (interval_length i))"
proof -
  note s = interval_split(2,3) [OF assms]
  consider (inside) "- 106751991 \<le> days_total i" "days_total i \<le> 106751991"
    | (outside) "days_total i < - 106751992 \<or> 106751992 < days_total i"
    | (low) "days_total i = - 106751992" | (high) "days_total i = 106751992" by linarith
  then show ?thesis
  proof cases
    case inside
    then show ?thesis using convert_days_inside [OF s inside]
      by (auto simp: to_chrono_convert interval_split(1) [OF assms] interval_overflows_def)
  next
    case outside
    then show ?thesis using convert_days_outside [OF s outside]
      by (auto simp: to_chrono_convert interval_split(1) [OF assms] interval_overflows_def)
  next
    case low
    then show ?thesis using convert_days_low_edge [OF s]
      by (simp add: to_chrono_convert interval_split(1) [OF assms] interval_overflows_def)
  next
    case high
    then show ?thesis using convert_days_high_edge [OF s]
      by (simp add: to_chrono_convert interval_split(1) [OF assms] interval_overflows_def)
  qed
qed

section \<open>Values on the wire\<close>

lemma from_chrono_wf:
  assumes "min64 \<le> us" and "us \<le> max64"
  shows "interval_wf (from_chrono_duration us)" "interval_length (from_chrono_duration us) = us"
    "\<not> interval_overflows (from_chrono_duration us)"
proof -
  have d: "- 106751991 \<le> days_cast us" "days_cast us \<le> 106751991" using days_cast_range [OF assms] by auto
  have sd: "size_type (days_cast us) = days_cast us" using d by (intro size_type_id) auto
  have s: "- usecs_per_day < us smod usecs_per_day \<and> us smod usecs_per_day < usecs_per_day"
    by (rule smod_bounds) (simp add: usecs_per_day_def)
  show wf: "interval_wf (from_chrono_duration us)"
    using d s by (simp add: interval_wf_def from_chrono_duration_def sd) (simp add: usecs_per_day_def min64_def max64_def)
  show "interval_length (from_chrono_duration us) = us"
    by (simp add: interval_length_def from_chrono_duration_def sd) (simp add: days_cast_def sdiv_mult_smod_eq)
  have z: "days_cast (us smod usecs_per_day) = 0"
    using s by (auto simp: days_cast_def signed_divide_int_def)
  have "wrap64 (days_cast us) = days_cast us"
    using d by (intro wrap64_id) (auto simp: min64_def max64_def)
  then have "days_total (from_chrono_duration us) = days_cast us"
    by (simp add: days_total_def from_chrono_duration_def sd z)
  then show "\<not> interval_overflows (from_chrono_duration us)" using d by (auto simp: interval_overflows_def)
qed

lemma from_chrono_to_chrono: "min64 \<le> us \<Longrightarrow> us \<le> max64 \<Longrightarrow> to_chrono_duration (from_chrono_duration us) = us"
  using to_chrono_cases [OF from_chrono_wf(1)] from_chrono_wf(2,3) by (simp add: clamp64_def)

lemma recv_duration_members:
  assumes "interval_wf i"
  shows "recv_duration (new_istream (write_int 8 (pi_microseconds i) @ write_int 4 (pi_days i) @ write_int 4 (pi_months i) @ rest))
    = Inr (to_chrono_duration i, new_istream rest)"
  using read_members_append [of "[write_int 8 (pi_microseconds i), write_int 4 (pi_days i), write_int 4 (pi_months i)]" "[8, 4, 4]" rest]
    assms
  by (cases i) (simp add: recv_duration_def read_write_int to_signed_unsigned interval_wf_def min64_def max64_def)

lemma epoch_value: "epoch = 946684800000000000"
  by (simp add: epoch_def wrap64_def)

lemma recv_time_point_written:
  assumes "min64 \<le> v" and "v \<le> max64"
  shows "recv_time_point (new_istream (write_int 8 v @ rest)) = Inr (wrap64 (epoch + wrap64 (v * 1000)), new_istream rest)"
  using assms by (simp add: recv_time_point_def read_data_append read_write_int to_signed_unsigned min64_def max64_def)

lemma time_point_trip:
  assumes "min64 + epoch \<le> t" and "t \<le> max64"
  shows "recv_time_point (new_istream (send_time_point t @ rest)) = Inr (t - (t - epoch) smod 1000, new_istream rest)"
proof -
  let ?e = "t - epoch" and ?v = "(t - epoch) sdiv 1000"
  have e: "wrap64 ?e = ?e" using assms by (intro wrap64_id) (auto simp: epoch_value)
  have s: "- 1000 < ?e smod 1000 \<and> ?e smod 1000 < 1000" by (rule smod_bounds) simp
  have split: "?v * 1000 + ?e smod 1000 = ?e" by (rule sdiv_mult_smod_eq)
  have sign: "0 \<le> ?e \<Longrightarrow> 0 \<le> ?e smod 1000" "?e \<le> 0 \<Longrightarrow> ?e smod 1000 \<le> 0"
    by (cases "?e = 0"; simp add: signed_modulo_int_def)+
  have "?v * 1000 = ?e - ?e smod 1000" using split by simp
  moreover have "min64 \<le> ?e - ?e smod 1000 \<and> ?e - ?e smod 1000 \<le> max64"
    using sign s assms by (cases "0 \<le> ?e") (auto simp: epoch_value min64_def max64_def)
  ultimately have range: "min64 \<le> ?v * 1000" "?v * 1000 \<le> max64" by simp_all
  then have "min64 \<le> ?v" "?v \<le> max64" unfolding min64_def max64_def by linarith+
  moreover have "wrap64 (epoch + ?v * 1000) = t - ?e smod 1000"
  proof -
    have eq: "epoch + ?v * 1000 = t - ?e smod 1000" using split by simp
    have "min64 \<le> t - ?e smod 1000 \<and> t - ?e smod 1000 \<le> max64"
      using sign s assms by (cases "0 \<le> ?e") (auto simp: epoch_value min64_def max64_def)
    then show ?thesis unfolding eq by (intro wrap64_id) auto
  qed
  ultimately show ?thesis
    using recv_time_point_written [of ?v rest] by (simp add: send_time_point_def e wrap64_id [OF range])
qed

section \<open>Properties\<close>

text \<open>C27 Bounds. A received interval becomes its length in microseconds, limited to the range of the duration, unless
  the checks that limit it overflow themselves: a little beyond the range on either side the result has the wrong
  sign.\<close>
theorem interval_received:
  assumes "interval_wf i"
  shows "(\<not> interval_overflows i \<longrightarrow> to_chrono_duration i = clamp64 (interval_length i))
    \<and> (interval_overflows i \<longrightarrow>
         interval_length i < min64 \<and> 0 < to_chrono_duration i \<or> max64 < interval_length i \<and> to_chrono_duration i < 0)"
proof (cases "interval_overflows i")
  case True
  then show ?thesis
    using to_chrono_cases [OF assms] interval_split [OF assms]
    by (auto simp: interval_overflows_def usecs_per_day_def min64_def max64_def)
qed (use to_chrono_cases [OF assms] in simp)

theorem interval_received_witness:
  "to_chrono_duration \<lparr>pi_microseconds = 5, pi_days = 2, pi_months = 1\<rparr> = 2764800000005
   \<and> 0 < to_chrono_duration \<lparr>pi_microseconds = - 20000000000, pi_days = - 106751992, pi_months = 0\<rparr>"
proof
  note u = interval_wf_def min64_def max64_def interval_overflows_def days_total_def usecs_surplus_def days_cast_def
    usecs_per_day_def signed_divide_int_def signed_modulo_int_def wrap64_def interval_length_def clamp64_def
  show "to_chrono_duration \<lparr>pi_microseconds = 5, pi_days = 2, pi_months = 1\<rparr> = 2764800000005"
    using interval_received [of "\<lparr>pi_microseconds = 5, pi_days = 2, pi_months = 1\<rparr>"] by (simp add: u)
  show "0 < to_chrono_duration \<lparr>pi_microseconds = - 20000000000, pi_days = - 106751992, pi_months = 0\<rparr>"
    using interval_received [of "\<lparr>pi_microseconds = - 20000000000, pi_days = - 106751992, pi_months = 0\<rparr>"]
    by (simp add: u)
qed

text \<open>C28 Round trip. Every duration is received as it was sent, a time point not more than 292 years before the epoch
  is received with its nanoseconds cut off towards the epoch, and a uuid is its 16 bytes.\<close>
theorem time_round_trip:
  assumes "min64 \<le> us" and "us \<le> max64" and "min64 + epoch \<le> t" and "t \<le> max64" and "length u = 16"
  shows "recv_duration (new_istream (send_duration us @ rest)) = Inr (us, new_istream rest)
    \<and> recv_time_point (new_istream (send_time_point t @ rest)) = Inr (t - (t - epoch) smod 1000, new_istream rest)
    \<and> recv_uuid (new_istream (send_uuid u @ rest)) = Inr (u, new_istream rest)"
  using recv_duration_members [OF from_chrono_wf(1) [OF assms(1,2)], of rest] from_chrono_to_chrono [OF assms(1,2)]
    time_point_trip [OF assms(3,4)] read_data_append [OF assms(5), of rest]
  by (simp add: send_duration_def Let_def recv_uuid_def send_uuid_def)

theorem time_round_trip_witness:
  "recv_duration (new_istream (send_duration (- 5))) = Inr (- 5, new_istream [])
   \<and> recv_time_point (new_istream (send_time_point (946684800000001999))) = Inr (946684800000001000, new_istream [])"
  using time_round_trip [of "- 5" 946684800000001999 "replicate 16 0" "[]"]
  by (simp add: min64_def max64_def epoch_value signed_modulo_int_def)

text \<open>Safety. The timestamps \<^verbatim>\<open>infinity\<close> and \<^verbatim>\<open>-infinity\<close> of the server, the largest and the smallest 64-bit
  number, are received as times within a microsecond of the year 2000, and so is sent back a finite time.\<close>
lemma infinite_time_points:
  "recv_time_point (new_istream (write_int 8 max64)) = Inr (epoch - 1000, new_istream [])
   \<and> recv_time_point (new_istream (write_int 8 min64)) = Inr (epoch, new_istream [])
   \<and> send_time_point (epoch - 1000) = write_int 8 (- 1) \<and> send_time_point epoch = write_int 8 0"
proof (intro conjI)
  have v: "min64 \<le> max64" "min64 \<le> min64" "max64 \<le> max64" by (simp_all add: min64_def max64_def)
  show "recv_time_point (new_istream (write_int 8 max64)) = Inr (epoch - 1000, new_istream [])"
    using recv_time_point_written [OF v(1,3), of "[]"] by (simp add: epoch_value max64_def wrap64_def)
  show "recv_time_point (new_istream (write_int 8 min64)) = Inr (epoch, new_istream [])"
    using recv_time_point_written [OF v(2,1), of "[]"] by (simp add: epoch_value min64_def wrap64_def)
qed (simp_all add: send_time_point_def wrap64_def signed_divide_int_def)

end
