(* ===== verification/Tao_Params.thy ===== *)
theory Tao_Params
  imports Ozo_IO
begin

text \<open>
  \<^verbatim>\<open>tao/pq\<close>: how the arguments of \<^verbatim>\<open>execute\<close> become the four arrays of \<^verbatim>\<open>PQexecParams\<close>. Each argument has columns
  with an OID, a pointer, a length and a format (\<^verbatim>\<open>internal/parameter_text_traits.hpp\<close>,
  \<^verbatim>\<open>internal/parameter_binary_traits.hpp\<close>, \<^verbatim>\<open>internal/parameter_traits.hpp\<close>); index arithmetic at compile time
  (\<^verbatim>\<open>internal/exclusive_scan.hpp\<close>, \<^verbatim>\<open>internal/gen.hpp\<close>) finds the columns of tuples. The target has 64-bit longs and
  is little-endian.
\<close>

section \<open>Index arithmetic (exclusive_scan.hpp, gen.hpp)\<close>

definition partial_sum :: "nat list \<Rightarrow> nat \<Rightarrow> nat" where
  "partial_sum ns i = sum_list (map (\<lambda>j. if j < i then ns ! j else 0) [0..<length ns])"

definition exclusive_scan :: "nat list \<Rightarrow> nat list" where
  "exclusive_scan ns = map (partial_sum ns) [0..<length ns]"

text \<open>\<^verbatim>\<open>gen<Ns...>\<close>: the element that the column \<open>i\<close> belongs to, and the position of the column in it.\<close>

definition gen_outer :: "nat list \<Rightarrow> nat \<Rightarrow> nat" where
  "gen_outer ns i = sum_list (map (\<lambda>n. if n \<le> i then 1 else 0) (exclusive_scan ns)) - 1"

definition gen_select :: "nat list \<Rightarrow> nat \<Rightarrow> nat" where
  "gen_select ns k = sum_list (map (\<lambda>j. if j = k then exclusive_scan ns ! j else 0) [0..<length ns])"

definition gen_inner :: "nat list \<Rightarrow> nat \<Rightarrow> nat" where
  "gen_inner ns i = i - gen_select ns (gen_outer ns i)"

definition outer_sequence :: "nat list \<Rightarrow> nat list" where
  "outer_sequence ns = map (gen_outer ns) [0..<sum_list ns]"

definition inner_sequence :: "nat list \<Rightarrow> nat list" where
  "inner_sequence ns = map (gen_inner ns) [0..<sum_list ns]"

lemma partial_sum_take: "partial_sum ns i = sum_list (take i ns)"
proof -
  have "map (\<lambda>j. if j < i then ns ! j else 0) [0..<length ns] = take i ns @ replicate (length ns - i) 0"
    by (rule nth_equalityI) (auto simp: nth_append)
  then show ?thesis by (simp add: partial_sum_def)
qed

lemma length_exclusive_scan [simp]: "length (exclusive_scan ns) = length ns"
  by (simp add: exclusive_scan_def)

lemma nth_exclusive_scan: "k < length ns \<Longrightarrow> exclusive_scan ns ! k = sum_list (take k ns)"
  by (simp add: exclusive_scan_def partial_sum_take)

lemma exclusive_scan_Cons: "exclusive_scan (n # ns) = 0 # map (\<lambda>s. n + s) (exclusive_scan ns)"
proof (rule nth_equalityI)
  fix k
  assume "k < length (exclusive_scan (n # ns))"
  then show "exclusive_scan (n # ns) ! k = (0 # map (\<lambda>s. n + s) (exclusive_scan ns)) ! k"
    by (cases k) (simp_all add: nth_exclusive_scan)
qed simp

lemma gen_select_nth: "k < length ns \<Longrightarrow> gen_select ns k = exclusive_scan ns ! k"
proof -
  assume "k < length ns"
  then have "sum_list (map (\<lambda>j. if j = k then exclusive_scan ns ! j else 0) [0..<length ns]) = exclusive_scan ns ! k"
    by (subst sum_list_distinct_conv_sum_set) (auto simp: sum.delta)
  then show ?thesis by (simp add: gen_select_def)
qed

definition below_count :: "nat list \<Rightarrow> nat \<Rightarrow> nat" where
  "below_count ns i = sum_list (map (\<lambda>n. if n \<le> i then 1 else 0) (exclusive_scan ns))"

lemma below_count_Cons: "below_count (n # ns) i = Suc (if n \<le> i then below_count ns (i - n) else 0)"
proof (cases "n \<le> i")
  case True
  then have "(n + s \<le> i) = (s \<le> i - n)" for s by arith
  then show ?thesis using True by (simp add: below_count_def exclusive_scan_Cons comp_def)
qed (simp add: below_count_def exclusive_scan_Cons comp_def)

lemma below_count_bounds: "i < sum_list ns \<Longrightarrow> 0 < below_count ns i \<and> below_count ns i \<le> length ns"
  by (induction ns arbitrary: i) (auto simp: below_count_Cons)

text \<open>The column \<open>i\<close> of a list of elements is the inner column of the outer element.\<close>

lemma gen_splits:
  assumes "i < sum_list ns"
  shows "gen_outer ns i < length ns \<and> gen_inner ns i < ns ! gen_outer ns i
    \<and> sum_list (take (gen_outer ns i) ns) + gen_inner ns i = i"
proof -
  have "below_count ns i - 1 < length ns \<and> sum_list (take (below_count ns i - 1) ns) \<le> i
      \<and> i < sum_list (take (below_count ns i - 1) ns) + ns ! (below_count ns i - 1)"
    using assms
  proof (induction ns arbitrary: i)
    case (Cons n ns)
    show ?case
    proof (cases "n \<le> i")
      case True
      then have i: "i - n < sum_list ns" using Cons.prems by simp
      obtain k where "below_count ns (i - n) = Suc k" using below_count_bounds [OF i] by (cases "below_count ns (i - n)") auto
      then show ?thesis using Cons.IH [OF i] True by (auto simp: below_count_Cons)
    qed (simp add: below_count_Cons)
  qed simp
  moreover have "gen_outer ns i = below_count ns i - 1" by (simp add: gen_outer_def below_count_def)
  ultimately show ?thesis by (auto simp: gen_inner_def gen_select_nth nth_exclusive_scan)
qed

lemma nth_concat:
  "k < length xss \<Longrightarrow> j < length (xss ! k) \<Longrightarrow> concat xss ! (sum_list (take k (map length xss)) + j) = xss ! k ! j"
proof (induction xss arbitrary: k)
  case (Cons xs xss)
  then show ?case by (cases k) (auto simp: nth_append)
qed simp

text \<open>Reading the columns through the two sequences is reading the columns of the elements in order.\<close>

lemma gen_concat:
  assumes "map length xss = ns"
  shows "map (\<lambda>i. xss ! gen_outer ns i ! gen_inner ns i) [0..<sum_list ns] = concat xss"
proof (rule nth_equalityI)
  have len: "length (concat xss) = sum_list ns" using assms by (simp add: length_concat)
  then show "length (map (\<lambda>i. xss ! gen_outer ns i ! gen_inner ns i) [0..<sum_list ns]) = length (concat xss)" by simp
  fix i
  assume "i < length (map (\<lambda>i. xss ! gen_outer ns i ! gen_inner ns i) [0..<sum_list ns])"
  then have i: "i < sum_list ns" by simp
  have k: "gen_outer ns i < length xss" "gen_inner ns i < length (xss ! gen_outer ns i)"
    using gen_splits [OF i] assms by (metis length_map, metis nth_map length_map)
  have "concat xss ! i = concat xss ! (sum_list (take (gen_outer ns i) (map length xss)) + gen_inner ns i)"
    using gen_splits [OF i] assms by simp
  also have "\<dots> = xss ! gen_outer ns i ! gen_inner ns i" by (rule nth_concat [OF k])
  finally show "map (\<lambda>i. xss ! gen_outer ns i ! gen_inner ns i) [0..<sum_list ns] ! i = concat xss ! i" using i by simp
qed

section \<open>Types, values and columns\<close>

datatype tao_type =
    Null_t | Const_char_ptr | Bool_t | Char_t | Signed_char | Unsigned_char | Short_t | Unsigned_short | Int_t
  | Unsigned_t | Long_t | Unsigned_long | Long_long | Unsigned_long_long | Float_t | Double_t | Long_double
  | Std_string | Span_t | Optional_t tao_type | Tuple_t "tao_type list"

datatype fp_class = Finite | NotANumber | Infinite bool

text \<open>
  A \<^verbatim>\<open>const char*\<close> points to a string in memory or is null; a floating-point value is its class (\<open>Infinite True\<close> is
  below zero) with its bit pattern; a span that is \<open>None\<close> has a null pointer and no elements.
\<close>

datatype tao_val =
    NullV | CharPtr "bytes option" | BoolV bool | IntV int | FloatV fp_class int | StringV bytes
  | SpanV "bytes option" | OptionalV "tao_val option" | TupleV "tao_val list"

text \<open>A column: what \<^verbatim>\<open>type\<close>, \<^verbatim>\<open>value\<close> (the memory it points to), \<^verbatim>\<open>length\<close> and \<^verbatim>\<open>format\<close> give.\<close>

record tao_column =
  tc_type :: int
  tc_value :: "bytes option"
  tc_length :: int
  tc_format :: int

text \<open>The parameters below are \<open>None\<close> when an empty optional asks for the static members of the type.\<close>

definition char_pointer_helper :: "bytes option \<Rightarrow> tao_column" where
  "char_pointer_helper p = \<lparr>tc_type = 0, tc_value = p, tc_length = 0, tc_format = 0\<rparr>"

definition string_helper :: "bytes option \<Rightarrow> tao_column" where
  "string_helper s = \<lparr>tc_type = 0, tc_value = map_option c_str s, tc_length = 0, tc_format = 0\<rparr>"

definition null_parameter :: tao_column where
  "null_parameter = \<lparr>tc_type = 0, tc_value = None, tc_length = 0, tc_format = 0\<rparr>"

section \<open>Text (parameter_text_traits.hpp)\<close>

text \<open>\<open>printf\<close> is the conversion of a finite value by the format of its type, \<open>escape\<close> is \<^verbatim>\<open>PQescapeByteaConn\<close>.\<close>

definition printf_helper :: "(string \<Rightarrow> int \<Rightarrow> string) \<Rightarrow> string \<Rightarrow> fp_class \<Rightarrow> int \<Rightarrow> string" where
  "printf_helper printf format c v =
     (case c of Finite \<Rightarrow> printf format v | NotANumber \<Rightarrow> ''NAN'' | Infinite neg \<Rightarrow> if neg then ''-INF'' else ''INF'')"

definition text_bool :: "bool option \<Rightarrow> tao_column" where
  "text_bool v = char_pointer_helper (map_option (\<lambda>v. c_str (ascii (if v then ''true'' else ''false''))) v)"

definition text_char :: "int option \<Rightarrow> tao_column" where
  "text_char v = string_helper (map_option (\<lambda>v. [word_of_int v]) v)"

definition text_integer :: "int option \<Rightarrow> tao_column" where
  "text_integer v = string_helper (map_option (\<lambda>v. ascii (std_to_string v)) v)"

definition text_float ::
    "(string \<Rightarrow> int \<Rightarrow> string) \<Rightarrow> string \<Rightarrow> (fp_class \<times> int) option \<Rightarrow> tao_column" where
  "text_float printf format v = string_helper (map_option (\<lambda>(c, v). ascii (printf_helper printf format c v)) v)"

definition text_string :: "bytes option \<Rightarrow> tao_column" where
  "text_string v = char_pointer_helper (map_option c_str v)"

definition text_span :: "(bytes \<Rightarrow> bytes) \<Rightarrow> bytes option option \<Rightarrow> tao_column" where
  "text_span escape v =
     \<lparr>tc_type = 0,
      tc_value = map_option (\<lambda>v. c_str (escape (case v of Some bs \<Rightarrow> bs | None \<Rightarrow> []))) v,
      tc_length = 0, tc_format = 0\<rparr>"

section \<open>Binary (parameter_binary_traits.hpp, endian_gcc.hpp)\<close>

text \<open>\<^verbatim>\<open>hton\<close> swaps the bytes; the column points to the swapped value in memory.\<close>

definition hton_memory :: "nat \<Rightarrow> int \<Rightarrow> bytes" where
  "hton_memory n v = le_encode n (le_decode (rev (le_encode n (to_unsigned n v))))"

definition binary_bool :: "bool option \<Rightarrow> tao_column" where
  "binary_bool v =
     \<lparr>tc_type = 16, tc_value = map_option (\<lambda>v. [if v then 1 else 0]) v, tc_length = (if v = None then 0 else 1),
      tc_format = 1\<rparr>"

definition binary_char :: "int option \<Rightarrow> tao_column" where
  "binary_char v =
     \<lparr>tc_type = 18, tc_value = map_option (\<lambda>v. [word_of_int v]) v, tc_length = (if v = None then 0 else 1),
      tc_format = 1\<rparr>"

definition binary_integer :: "int \<Rightarrow> nat \<Rightarrow> int option \<Rightarrow> tao_column" where
  "binary_integer oid n v =
     \<lparr>tc_type = oid, tc_value = map_option (hton_memory n) v, tc_length = (if v = None then 0 else int n),
      tc_format = 1\<rparr>"

definition binary_float :: "int \<Rightarrow> nat \<Rightarrow> (fp_class \<times> int) option \<Rightarrow> tao_column" where
  "binary_float oid n v =
     \<lparr>tc_type = oid, tc_value = map_option (\<lambda>(c, bits). hton_memory n bits) v,
      tc_length = (if v = None then 0 else int n), tc_format = 1\<rparr>"

definition binary_string :: "bytes option \<Rightarrow> tao_column" where
  "binary_string v =
     \<lparr>tc_type = 25, tc_value = v,
      tc_length = (case v of Some bs \<Rightarrow> size_type (int (length bs)) | None \<Rightarrow> 0), tc_format = 1\<rparr>"

definition binary_span :: "bytes option option \<Rightarrow> tao_column" where
  "binary_span v =
     \<lparr>tc_type = 17, tc_value = (case v of Some p \<Rightarrow> p | None \<Rightarrow> None),
      tc_length = (case v of Some (Some bs) \<Rightarrow> size_type (int (length bs)) | _ \<Rightarrow> 0), tc_format = 1\<rparr>"

section \<open>Traits of a type (parameter_traits.hpp)\<close>

text \<open>
  The traits of the types that have one column; a type that is not registered has none. The readers of a value
  select the part that the type says.
\<close>

type_synonym traits = "tao_type \<Rightarrow> tao_val option \<Rightarrow> tao_column option"

fun bool_of :: "tao_val option \<Rightarrow> bool option" where
  "bool_of (Some (BoolV b)) = Some b" | "bool_of _ = None"

fun int_of :: "tao_val option \<Rightarrow> int option" where
  "int_of (Some (IntV i)) = Some i" | "int_of _ = None"

fun float_of :: "tao_val option \<Rightarrow> (fp_class \<times> int) option" where
  "float_of (Some (FloatV c v)) = Some (c, v)" | "float_of _ = None"

fun string_of :: "tao_val option \<Rightarrow> bytes option" where
  "string_of (Some (StringV bs)) = Some bs" | "string_of _ = None"

fun span_of :: "tao_val option \<Rightarrow> bytes option option" where
  "span_of (Some (SpanV p)) = Some p" | "span_of _ = None"

fun pointer_of :: "tao_val option \<Rightarrow> bytes option" where
  "pointer_of (Some (CharPtr p)) = p" | "pointer_of _ = None"

definition text_traits :: "(string \<Rightarrow> int \<Rightarrow> string) \<Rightarrow> (bytes \<Rightarrow> bytes) \<Rightarrow> traits" where
  "text_traits printf escape t v =
     (case t of
        Null_t \<Rightarrow> Some null_parameter
      | Const_char_ptr \<Rightarrow> Some (char_pointer_helper (pointer_of v))
      | Bool_t \<Rightarrow> Some (text_bool (bool_of v))
      | Char_t \<Rightarrow> Some (text_char (int_of v))
      | Float_t \<Rightarrow> Some (text_float printf ''%.9g'' (float_of v))
      | Double_t \<Rightarrow> Some (text_float printf ''%.17g'' (float_of v))
      | Long_double \<Rightarrow> Some (text_float printf ''%.21Lg'' (float_of v))
      | Std_string \<Rightarrow> Some (text_string (string_of v))
      | Span_t \<Rightarrow> Some (text_span escape (span_of v))
      | Optional_t t \<Rightarrow> None | Tuple_t ts \<Rightarrow> None
      | _ \<Rightarrow> Some (text_integer (int_of v)))"

definition binary_traits :: traits where
  "binary_traits t v =
     (case t of
        Null_t \<Rightarrow> Some null_parameter
      | Const_char_ptr \<Rightarrow> Some (char_pointer_helper (pointer_of v))
      | Bool_t \<Rightarrow> Some (binary_bool (bool_of v))
      | Char_t \<Rightarrow> Some (binary_char (int_of v))
      | Short_t \<Rightarrow> Some (binary_integer 21 2 (int_of v))
      | Int_t \<Rightarrow> Some (binary_integer 23 4 (int_of v))
      | Long_t \<Rightarrow> Some (binary_integer 20 8 (int_of v))
      | Long_long \<Rightarrow> Some (binary_integer 20 8 (int_of v))
      | Float_t \<Rightarrow> Some (binary_float 700 4 (float_of v))
      | Double_t \<Rightarrow> Some (binary_float 701 8 (float_of v))
      | Std_string \<Rightarrow> Some (binary_string (string_of v))
      | Span_t \<Rightarrow> Some (binary_span (span_of v))
      | _ \<Rightarrow> None)"

fun columns :: "tao_type \<Rightarrow> nat" where
  "columns (Optional_t t) = columns t"
| "columns (Tuple_t ts) = sum_list (map columns ts)"
| "columns _ = 1"

text \<open>An optional forwards to the value it holds; a tuple finds the element by the index arithmetic.\<close>

definition forwarded :: "tao_val option \<Rightarrow> tao_val option" where
  "forwarded v = (case v of Some (OptionalV w) \<Rightarrow> w | _ \<Rightarrow> None)"

definition elements_of :: "tao_val option \<Rightarrow> tao_val list" where
  "elements_of v = (case v of Some (TupleV vs) \<Rightarrow> vs | _ \<Rightarrow> [])"

lemma zip_member_size [termination_simp]: "(t, w) \<in> set (zip ts ws) \<Longrightarrow> size t < Suc (size_list size ts)"
  by (drule set_zip_leftD, drule size_list_estimation' [of _ _ "size t" size], simp_all)

fun column_at :: "traits \<Rightarrow> tao_type \<Rightarrow> tao_val option \<Rightarrow> nat \<Rightarrow> tao_column option" where
  "column_at tr (Optional_t t) v i = column_at tr t (forwarded v) i"
| "column_at tr (Tuple_t ts) v i =
     (map (\<lambda>(t, v). column_at tr t (Some v)) (zip ts (elements_of v)) ! gen_outer (map columns ts) i)
       (gen_inner (map columns ts) i)"
| "column_at tr t v i = tr t v"

section \<open>The call (transaction.hpp)\<close>

record exec_params =
  ep_n :: nat
  ep_types :: "int list"
  ep_values :: "bytes option list"
  ep_lengths :: "int list"
  ep_formats :: "int list"

definition params_of :: "tao_column list \<Rightarrow> exec_params" where
  "params_of cs =
     \<lparr>ep_n = length cs, ep_types = map tc_type cs, ep_values = map tc_value cs, ep_lengths = map tc_length cs,
      ep_formats = map tc_format cs\<rparr>"

definition argument_columns :: "traits \<Rightarrow> (tao_type \<times> tao_val) list \<Rightarrow> tao_column option list" where
  "argument_columns tr args =
     (let ns = map (\<lambda>(t, v). columns t) args in
      map2 (\<lambda>k i. (case args ! k of (t, v) \<Rightarrow> column_at tr t (Some v) i)) (outer_sequence ns) (inner_sequence ns))"

text \<open>A call with an argument whose type is not registered does not compile.\<close>

definition execute_indexed :: "traits \<Rightarrow> (tao_type \<times> tao_val) list \<Rightarrow> exec_params option" where
  "execute_indexed tr args =
     (let cs = argument_columns tr args in
      if None \<in> set cs then None
      else Some (params_of (map the cs)))"

text \<open>
  What libpq sends for a column, as documented: null for a null pointer, the string up to its end for text, and as
  many bytes as the length says for binary data.
\<close>

definition sent_value :: "tao_column \<Rightarrow> bytes option" where
  "sent_value c =
     map_option (\<lambda>p. if tc_format c = 0 then takeWhile (\<lambda>b. b \<noteq> 0) p else take (nat (tc_length c)) p) (tc_value c)"

section \<open>The columns in order\<close>

text \<open>The reference: the columns of an argument one after the other.\<close>

fun flat_columns :: "traits \<Rightarrow> tao_type \<Rightarrow> tao_val option \<Rightarrow> tao_column option list" where
  "flat_columns tr (Optional_t t) v = flat_columns tr t (forwarded v)"
| "flat_columns tr (Tuple_t ts) v = concat (map (\<lambda>(t, v). flat_columns tr t (Some v)) (zip ts (elements_of v)))"
| "flat_columns tr t v = [tr t v]"

text \<open>A value has the shape of its type: tuples have their length, and an optional does not hold a tuple.\<close>

fun shaped :: "tao_type \<Rightarrow> tao_val option \<Rightarrow> bool" where
  "shaped (Optional_t t) v = ((\<forall>ts. t \<noteq> Tuple_t ts) \<and> shaped t (forwarded v))"
| "shaped (Tuple_t ts) v =
     (length (elements_of v) = length ts \<and> list_all (\<lambda>(t, v). shaped t (Some v)) (zip ts (elements_of v)))"
| "shaped t v = True"

lemma flat_columns_facts:
  "shaped t v \<Longrightarrow> length (flat_columns tr t v) = columns t
     \<and> (\<forall>i < columns t. column_at tr t v i = flat_columns tr t v ! i)"
proof (induction tr t v rule: flat_columns.induct)
  case (2 tr ts v)
  let ?zs = "zip ts (elements_of v)" and ?ns = "map columns ts"
  let ?xss = "map (\<lambda>(t, v). flat_columns tr t (Some v)) ?zs"
  have len: "length (elements_of v) = length ts" using "2.prems" by simp
  have part: "length (flat_columns tr t (Some w)) = columns t
      \<and> (\<forall>i < columns t. column_at tr t (Some w) i = flat_columns tr t (Some w) ! i)"
    if "(t, w) \<in> set ?zs" for t w
    using "2.IH" [OF that refl] "2.prems" that by (auto simp: list_all_iff)
  have ns: "map length ?xss = ?ns"
  proof (rule nth_equalityI)
    fix k
    assume "k < length (map length ?xss)"
    then have k: "k < length ts" using len by simp
    then have "(ts ! k, elements_of v ! k) \<in> set ?zs" using len by (auto simp: set_zip)
    then show "map length ?xss ! k = ?ns ! k" using part k len by simp
  qed (use len in simp)
  have cat: "map (\<lambda>i. ?xss ! gen_outer ?ns i ! gen_inner ?ns i) [0..<sum_list ?ns] = concat ?xss"
    by (rule gen_concat [OF ns])
  have "column_at tr (Tuple_t ts) v i = concat ?xss ! i" if i: "i < sum_list ?ns" for i
  proof -
    let ?k = "gen_outer ?ns i"
    have k: "?k < length ts" "gen_inner ?ns i < columns (ts ! ?k)" using gen_splits [OF i] by auto
    then have "(ts ! ?k, elements_of v ! ?k) \<in> set ?zs" using len by (auto simp: set_zip)
    then have "column_at tr (Tuple_t ts) v i = ?xss ! ?k ! gen_inner ?ns i" using part k len by simp
    also have "\<dots> = concat ?xss ! i" using arg_cong [OF cat, of "\<lambda>xs. xs ! i"] i by simp
    finally show ?thesis .
  qed
  moreover have "length (concat ?xss) = sum_list ?ns" unfolding length_concat ns ..
  ultimately show ?case by simp
qed simp_all

lemma argument_columns_flat:
  assumes "\<forall>(t, v) \<in> set args. shaped t (Some v)"
  shows "argument_columns tr args = concat (map (\<lambda>(t, v). flat_columns tr t (Some v)) args)"
proof -
  let ?ns = "map (\<lambda>(t, v). columns t) args" and ?xss = "map (\<lambda>(t, v). flat_columns tr t (Some v)) args"
  have part: "length (flat_columns tr t (Some v)) = columns t
      \<and> (\<forall>i < columns t. column_at tr t (Some v) i = flat_columns tr t (Some v) ! i)"
    if "(t, v) \<in> set args" for t v
    using that assms flat_columns_facts by blast
  have ns: "map length ?xss = ?ns" using part by (auto simp: case_prod_unfold)
  have "argument_columns tr args =
      map (\<lambda>i. case args ! gen_outer ?ns i of (t, v) \<Rightarrow> column_at tr t (Some v) (gen_inner ?ns i)) [0..<sum_list ?ns]"
    by (simp add: argument_columns_def outer_sequence_def inner_sequence_def Let_def zip_map_map zip_same_conv_map comp_def)
  also have "\<dots> = map (\<lambda>i. ?xss ! gen_outer ?ns i ! gen_inner ?ns i) [0..<sum_list ?ns]"
  proof (rule map_cong [OF refl])
    fix i
    assume "i \<in> set [0..<sum_list ?ns]"
    then have i: "i < sum_list ?ns" by simp
    obtain t v where tv: "args ! gen_outer ?ns i = (t, v)" by fastforce
    have k: "gen_outer ?ns i < length args" "gen_inner ?ns i < ?ns ! gen_outer ?ns i" using gen_splits [OF i] by auto
    then have "(t, v) \<in> set args" using tv by (metis nth_mem)
    then show "(case args ! gen_outer ?ns i of (t, v) \<Rightarrow> column_at tr t (Some v) (gen_inner ?ns i)) =
        ?xss ! gen_outer ?ns i ! gen_inner ?ns i"
      using part k tv by simp
  qed
  also have "\<dots> = concat ?xss" by (rule gen_concat [OF ns])
  finally show ?thesis .
qed

section \<open>Agreement with the other client library\<close>

lemma hton_memory_write_int: "hton_memory n v = write_int n v"
  by (simp add: hton_memory_def write_int_def convert_to_big_endian_def le_encode_swap)
    (metis le_encode_decode length_rev length_le_encode)






section \<open>Embedded zeros\<close>

lemma takeWhile_c_str: "takeWhile (\<lambda>b. b \<noteq> 0) (c_str bs) = takeWhile (\<lambda>b. b \<noteq> 0) bs"
  by (induction bs) (simp_all add: c_str_def)

section \<open>Properties\<close>

text \<open>The reference: the arrays hold the columns of the arguments one after the other.\<close>

definition flat_params :: "traits \<Rightarrow> (tao_type \<times> tao_val) list \<Rightarrow> exec_params option" where
  "flat_params tr args =
     (let cs = concat (map (\<lambda>(t, v). flat_columns tr t (Some v)) args) in
      if None \<in> set cs then None else Some (params_of (map the cs)))"

text \<open>C29 Equivalence. The arrays given to libpq, which the code fills by index arithmetic on the numbers of columns, hold
  the columns of the arguments one after the other, for tuples and nested tuples of any shape, also empty ones, and
  their number is the sum of the columns; the call is refused exactly when an argument has a type without traits.\<close>
theorem parameters_in_order:
  assumes "\<forall>(t, v) \<in> set args. shaped t (Some v)"
  shows "execute_indexed tr args = flat_params tr args
    \<and> map_option ep_n (flat_params tr args) \<in> {None, Some (sum_list (map (\<lambda>(t, v). columns t) args))}"
proof -
  let ?css = "map (\<lambda>(t, v). flat_columns tr t (Some v)) args"
  have "map length ?css = map (\<lambda>(t, v). columns t) args" using assms flat_columns_facts by fastforce
  then have "length (concat ?css) = sum_list (map (\<lambda>(t, v). columns t) args)" by (simp only: length_concat)
  then show ?thesis
    using argument_columns_flat [OF assms] by (simp add: execute_indexed_def params_of_def flat_params_def Let_def)
qed

lemma le_encode_4:
  "le_encode 4 v = [word_of_nat v, word_of_nat (v div 256), word_of_nat (v div 256 div 256),
     word_of_nat (v div 256 div 256 div 256)]"
proof -
  have "(4 :: nat) = Suc (Suc (Suc (Suc 0)))" by simp
  then show ?thesis by (simp only: le_encode.simps)
qed

lemma hton_memory_7: "hton_memory 4 7 = [0, 0, 0, 7]"
  by (simp add: hton_memory_write_int write_int_def convert_to_big_endian_def le_encode_swap to_unsigned_def le_encode_4)

theorem parameters_in_order_witness:
  "execute_indexed binary_traits
     [(Tuple_t [], TupleV []), (Tuple_t [Int_t, Tuple_t [Bool_t, Null_t]], TupleV [IntV 7, TupleV [BoolV True, NullV]]),
      (Optional_t Std_string, OptionalV None)] =
   Some \<lparr>ep_n = 4, ep_types = [23, 16, 0, 25], ep_values = [Some [0, 0, 0, 7], Some [1], None, None],
         ep_lengths = [4, 1, 0, 0], ep_formats = [1, 1, 0, 1]\<rparr>"
  by (subst conjunct1 [OF parameters_in_order])
    (simp_all add: flat_params_def params_of_def elements_of_def forwarded_def binary_traits_def binary_integer_def binary_bool_def
      binary_string_def null_parameter_def hton_memory_7)








text \<open>Safety. A string with an embedded zero byte loses what follows it when it is sent as text, and is whole as
  binary data up to the largest length; an empty string is empty in both. An empty span of bytes without memory
  (\<^verbatim>\<open>data()\<close> of an empty vector) is the null of the database as binary data, the same column as for an optional
  without a value, and empty as text.\<close>
lemma what_is_sent_for_strings:
  assumes "int (length bs) < 2 ^ 31"
  shows "map_option sent_value (text_traits printf escape Std_string (Some (StringV bs))) =
      Some (Some (takeWhile (\<lambda>b. b \<noteq> 0) bs))
    \<and> map_option sent_value (binary_traits Std_string (Some (StringV bs))) = Some (Some bs)
    \<and> map_option sent_value (binary_traits Span_t (Some (SpanV (Some bs)))) = Some (Some bs)
    \<and> binary_traits Span_t (Some (SpanV None)) = column_at binary_traits (Optional_t Span_t) (Some (OptionalV None)) 0
    \<and> map_option sent_value (binary_traits Span_t (Some (SpanV None))) = Some None
    \<and> map_option sent_value (text_traits printf escape Span_t (Some (SpanV None))) =
      Some (Some (takeWhile (\<lambda>b. b \<noteq> 0) (escape [])))"
  using assms
  by (simp add: binary_string_def size_type_id text_traits_def text_string_def char_pointer_helper_def takeWhile_c_str
      binary_traits_def binary_span_def forwarded_def text_span_def sent_value_def)

end
