(* ===== verification/Tao_Results.thy ===== *)
theory Tao_Results
  imports Tao_Params
begin

text \<open>
  \<^verbatim>\<open>tao/pq/result.hpp\<close>, \<^verbatim>\<open>row.hpp\<close>, \<^verbatim>\<open>field.hpp\<close> and the \<^verbatim>\<open>result_traits\<close> files: how the values of a result become C++ values.
  A row is a window on the columns of a row of the result; types of several columns read slices of it. The functions
  without a body in the repository are a parameter: access to a value, its conversion, the size of a result.
\<close>

section \<open>Types and values\<close>

datatype traits_base =
  Const_char | Std_string | Bool | Char | Signed_char | Unsigned_char | Short | Unsigned_short | Signed_int | Unsigned
| Long | Unsigned_long | Long_long | Unsigned_long_long | Float | Double | Long_double

datatype rtype = Base traits_base | Optional rtype | Pair rtype rtype | Tuple "rtype list"

text \<open>\<open>'v\<close> are the values that the conversions of the library give.\<close>

datatype 'v rvalue =
  Text string | Converted 'v | Nullopt | Engaged "'v rvalue" | Pair_of "'v rvalue" "'v rvalue" | Tuple_of "'v rvalue list"

datatype row_error =
  Out_of_range | Unexpected_null | Wrong_columns nat nat | Wrong_rows nat | No_result_set | Bad_text | Not_compiled

record tao_row =
  m_row :: nat
  m_offset :: nat
  m_columns :: nat

record tao_field =
  f_row :: tao_row
  m_column :: nat

text \<open>
  A result: what libpq holds in it (\<open>None\<close> is a null), its two sizes, and the functions without a body of \<^verbatim>\<open>row\<close> and
  \<^verbatim>\<open>result\<close> with the conversion of texts.
\<close>

record 'v tao_result =
  cell :: "nat \<Rightarrow> nat \<Rightarrow> string option"
  result_columns :: nat
  m_rows :: nat
  ensure_column :: "tao_row \<Rightarrow> nat \<Rightarrow> row_error + unit"
  row_slice :: "tao_row \<Rightarrow> nat \<Rightarrow> nat \<Rightarrow> row_error + tao_row"
  row_is_null :: "tao_row \<Rightarrow> nat \<Rightarrow> row_error + bool"
  row_get_text :: "tao_row \<Rightarrow> nat \<Rightarrow> row_error + string"
  check_has_result_set :: "row_error + unit"
  result_size :: "row_error + nat"
  result_begin :: "row_error + tao_row"
  result_end :: "row_error + tao_row"
  from_text :: "traits_base \<Rightarrow> string \<Rightarrow> row_error + 'v"

section \<open>Traits\<close>

fun result_traits_size :: "rtype \<Rightarrow> nat" where
  "result_traits_size (Base b) = 1"
| "result_traits_size (Optional t) = result_traits_size t"
| "result_traits_size (Pair t u) = result_traits_size t + result_traits_size u"
| "result_traits_size (Tuple ts) = sum_list (map result_traits_size ts)"

text \<open>\<^verbatim>\<open>tuple<T>\<close> has its own specialisation: it is null if its element can be.\<close>

fun result_traits_has_null :: "rtype \<Rightarrow> bool" where
  "result_traits_has_null (Optional t) = True"
| "result_traits_has_null (Tuple [t]) = result_traits_has_null t"
| "result_traits_has_null _ = False"

fun traits_null :: "rtype \<Rightarrow> 'v rvalue" where
  "traits_null (Tuple [t]) = Tuple_of [traits_null t]"
| "traits_null _ = Nullopt"

text \<open>\<^verbatim>\<open>from(const char*)\<close>, which the types of one column have.\<close>

fun traits_from_text :: "'v tao_result \<Rightarrow> rtype \<Rightarrow> string \<Rightarrow> row_error + 'v rvalue" where
  "traits_from_text R (Base b) s =
     (if b = Const_char \<or> b = Std_string then Inr (Text s) else rbind (from_text R b s) (\<lambda>v. Inr (Converted v)))"
| "traits_from_text R (Optional t) s = rbind (traits_from_text R t s) (\<lambda>v. Inr (Engaged v))"
| "traits_from_text R (Tuple [t]) s = rbind (traits_from_text R t s) (\<lambda>v. Inr (Tuple_of [v]))"
| "traits_from_text R _ s = Inl Not_compiled"

section \<open>Rows\<close>

text \<open>The loop of \<^verbatim>\<open>optional\<close>: whether a column of the row is not null.\<close>

fun some_column :: "'v tao_result \<Rightarrow> tao_row \<Rightarrow> nat list \<Rightarrow> row_error + bool" where
  "some_column R r [] = Inr False"
| "some_column R r (c # cs) = rbind (row_is_null R r c) (\<lambda>b. if \<not> b then Inr True else some_column R r cs)"

text \<open>
  \<open>row_get\<close> is \<^verbatim>\<open>row::get<T>\<close>, \<open>traits_from_row\<close> is \<^verbatim>\<open>result_traits<T>::from(row)\<close>, \<open>row_get_each\<close> the elements of a tuple, each
  at its column.
\<close>

function row_get :: "'v tao_result \<Rightarrow> rtype \<Rightarrow> tao_row \<Rightarrow> nat \<Rightarrow> row_error + 'v rvalue"
  and traits_from_row :: "'v tao_result \<Rightarrow> rtype \<Rightarrow> tao_row \<Rightarrow> row_error + 'v rvalue"
  and row_get_each :: "'v tao_result \<Rightarrow> rtype list \<Rightarrow> nat list \<Rightarrow> tao_row \<Rightarrow> row_error + 'v rvalue list" where
  "row_get R t r c =
     (if result_traits_size t = 0 then Inl Not_compiled
      else if result_traits_size t = 1 then
        (if result_traits_has_null t
         then rbind (row_is_null R r c) (\<lambda>b.
              if b then Inr (traits_null t) else rbind (row_get_text R r c) (traits_from_text R t))
         else rbind (ensure_column R r c) (\<lambda>_. rbind (row_get_text R r c) (traits_from_text R t)))
      else rbind (row_slice R r c (result_traits_size t)) (traits_from_row R t))"
| "traits_from_row R (Base b) r = Inl Not_compiled"
| "traits_from_row R (Optional t) r =
     rbind (some_column R r [0..<m_columns r]) (\<lambda>b.
     if b then rbind (traits_from_row R t r) (\<lambda>v. Inr (Engaged v)) else Inr Nullopt)"
| "traits_from_row R (Pair t u) r =
     rbind (row_get R t r 0) (\<lambda>a. rbind (row_get R u r (result_traits_size t)) (\<lambda>b. Inr (Pair_of a b)))"
| "traits_from_row R (Tuple ts) r =
     (if length ts = 1 then Inl Not_compiled
      else rbind (row_get_each R ts (exclusive_scan (map result_traits_size ts)) r) (\<lambda>vs. Inr (Tuple_of vs)))"
| "row_get_each R (t # ts) (n # ns) r =
     rbind (row_get R t r n) (\<lambda>v. rbind (row_get_each R ts ns r) (\<lambda>vs. Inr (v # vs)))"
| "row_get_each R [] ns r = Inr []"
| "row_get_each R (t # ts) [] r = Inr []"
  by pat_completeness auto
termination
  by (relation "measure (\<lambda>x. case x of
      Inl (R, t, r, c) \<Rightarrow> 2 * size t + 1
    | Inr (Inl (R, t, r)) \<Rightarrow> 2 * size t
    | Inr (Inr (R, ts, ns, r)) \<Rightarrow> 2 * size_list size ts + 1)") simp_all

declare row_get.simps [simp del]

definition row_as :: "'v tao_result \<Rightarrow> rtype \<Rightarrow> tao_row \<Rightarrow> row_error + 'v rvalue" where
  "row_as R t r =
     (if result_traits_size t \<noteq> m_columns r then Inl (Wrong_columns (result_traits_size t) (m_columns r)) else row_get R t r 0)"

definition row_index :: "'v tao_result \<Rightarrow> tao_row \<Rightarrow> nat \<Rightarrow> row_error + tao_field" where
  "row_index R r c = rbind (ensure_column R r c) (\<lambda>_. Inr \<lparr>f_row = r, m_column = m_offset r + c\<rparr>)"

definition field_as :: "'v tao_result \<Rightarrow> rtype \<Rightarrow> tao_field \<Rightarrow> row_error + 'v rvalue" where
  "field_as R t f = (if result_traits_size t = 1 then row_get R t (f_row f) (m_column f) else Inl Not_compiled)"

section \<open>Results\<close>

definition result_row :: "'v tao_result \<Rightarrow> nat \<Rightarrow> tao_row" where
  "result_row R i = \<lparr>m_row = i, m_offset = 0, m_columns = result_columns R\<rparr>"

definition result_as :: "'v tao_result \<Rightarrow> rtype \<Rightarrow> row_error + 'v rvalue" where
  "result_as R t = rbind (result_size R) (\<lambda>n. if n \<noteq> 1 then Inl (Wrong_rows (m_rows R)) else row_as R t (result_row R 0))"

definition result_optional :: "'v tao_result \<Rightarrow> rtype \<Rightarrow> row_error + 'v rvalue" where
  "result_optional R t =
     rbind (result_size R) (\<lambda>n. if n = 0 then Inr Nullopt else rbind (result_as R t) (\<lambda>v. Inr (Engaged v)))"

text \<open>
  \<^verbatim>\<open>as_container\<close>: the loop over the rows compares and advances their numbers; \<open>insert_end\<close> is the \<^verbatim>\<open>insert\<close> of the container
  with its end as position.
\<close>

partial_function (option) insert_rows ::
    "'v tao_result \<Rightarrow> rtype \<Rightarrow> ('c \<Rightarrow> 'v rvalue \<Rightarrow> 'c) \<Rightarrow> tao_row \<Rightarrow> tao_row \<Rightarrow> 'c \<Rightarrow> (row_error + 'c) option" where
  "insert_rows R t insert_end r e nrv =
     (if m_row r \<noteq> m_row e
      then (case row_as R t r of
              Inl err \<Rightarrow> Some (Inl err)
            | Inr v \<Rightarrow> insert_rows R t insert_end (r\<lparr>m_row := m_row r + 1\<rparr>) e (insert_end nrv v))
      else Some (Inr nrv))"

definition as_container ::
    "'v tao_result \<Rightarrow> rtype \<Rightarrow> ('c \<Rightarrow> 'v rvalue \<Rightarrow> 'c) \<Rightarrow> 'c \<Rightarrow> (row_error + 'c) option" where
  "as_container R t insert_end nrv =
     (case check_has_result_set R of
        Inl err \<Rightarrow> Some (Inl err)
      | Inr _ \<Rightarrow>
          (case result_begin R of
             Inl err \<Rightarrow> Some (Inl err)
           | Inr b \<Rightarrow> (case result_end R of Inl err \<Rightarrow> Some (Inl err) | Inr e \<Rightarrow> insert_rows R t insert_end b e nrv)))"

text \<open>Vectors and lists, sets, and maps, whose keys are inserted once.\<close>

definition vector_insert :: "'v rvalue list \<Rightarrow> 'v rvalue \<Rightarrow> 'v rvalue list" where
  "vector_insert vs v = vs @ [v]"

definition set_insert :: "'v rvalue set \<Rightarrow> 'v rvalue \<Rightarrow> 'v rvalue set" where
  "set_insert vs v = insert v vs"

definition map_insert :: "('v rvalue \<rightharpoonup> 'v rvalue) \<Rightarrow> 'v rvalue \<Rightarrow> ('v rvalue \<rightharpoonup> 'v rvalue)" where
  "map_insert m v = (case v of Pair_of k x \<Rightarrow> if m k = None then m(k \<mapsto> x) else m | _ \<Rightarrow> m)"

definition result_vector :: "'v tao_result \<Rightarrow> rtype \<Rightarrow> (row_error + 'v rvalue list) option" where
  "result_vector R t = as_container R t vector_insert []"

definition result_set :: "'v tao_result \<Rightarrow> rtype \<Rightarrow> (row_error + 'v rvalue set) option" where
  "result_set R t = as_container R t set_insert {}"

definition result_map :: "'v tao_result \<Rightarrow> rtype \<Rightarrow> rtype \<Rightarrow> (row_error + ('v rvalue \<rightharpoonup> 'v rvalue)) option" where
  "result_map R t u = as_container R (Pair t u) map_insert (\<lambda>_. None)"

section \<open>The library\<close>

text \<open>
  What the functions without a body do: columns are counted from the start of the row or slice; a slice must lie in the
  row and not be empty; a text is given for a value that is not null; a result without a result set has no size.
\<close>

definition tao_result_ok :: "'v tao_result \<Rightarrow> bool" where
  "tao_result_ok R \<longleftrightarrow>
     (\<forall>r c. ensure_column R r c = (if c < m_columns r then Inr () else Inl Out_of_range))
     \<and> (\<forall>r c n. row_slice R r c n =
          (if 0 < n \<and> c + n \<le> m_columns r then Inr (r\<lparr>m_offset := m_offset r + c, m_columns := n\<rparr>) else Inl Out_of_range))
     \<and> (\<forall>r c. row_is_null R r c =
          (if c < m_columns r then Inr (cell R (m_row r) (m_offset r + c) = None) else Inl Out_of_range))
     \<and> (\<forall>r c. row_get_text R r c =
          (if c < m_columns r
           then (case cell R (m_row r) (m_offset r + c) of None \<Rightarrow> Inl Unexpected_null | Some s \<Rightarrow> Inr s)
           else Inl Out_of_range))
     \<and> (check_has_result_set R = Inl No_result_set \<and> result_size R = Inl No_result_set
        \<or> check_has_result_set R = Inr () \<and> result_size R = Inr (m_rows R) \<and> result_begin R = Inr (result_row R 0)
          \<and> result_end R = Inr (result_row R (m_rows R)))"

lemma tao_result_okD:
  assumes "tao_result_ok R"
  shows "ensure_column R r c = (if c < m_columns r then Inr () else Inl Out_of_range)"
    and "row_slice R r c n =
      (if 0 < n \<and> c + n \<le> m_columns r then Inr (r\<lparr>m_offset := m_offset r + c, m_columns := n\<rparr>) else Inl Out_of_range)"
    and "row_is_null R r c = (if c < m_columns r then Inr (cell R (m_row r) (m_offset r + c) = None) else Inl Out_of_range)"
    and "row_get_text R r c =
      (if c < m_columns r then (case cell R (m_row r) (m_offset r + c) of None \<Rightarrow> Inl Unexpected_null | Some s \<Rightarrow> Inr s)
       else Inl Out_of_range)"
    and "result_size R = Inr n \<Longrightarrow>
      check_has_result_set R = Inr () \<and> n = m_rows R \<and> result_begin R = Inr (result_row R 0) \<and> result_end R = Inr (result_row R (m_rows R))"
    and "result_size R = Inl err \<Longrightarrow> check_has_result_set R = Inl err"
  using assms unfolding tao_result_ok_def by auto

section \<open>Reading by columns\<close>

text \<open>The types that can be instantiated.\<close>

fun readable :: "rtype \<Rightarrow> bool" where
  "readable (Base b) = True"
| "readable (Optional t) = readable t"
| "readable (Pair t u) = (readable t \<and> readable u)"
| "readable (Tuple ts) = (ts \<noteq> [] \<and> list_all readable ts \<and> (length ts = 1 \<longrightarrow> result_traits_size (hd ts) = 1))"

text \<open>A reference: each type takes its columns from the front of a list of values.\<close>

fun read_cells :: "'v tao_result \<Rightarrow> rtype \<Rightarrow> string option list \<Rightarrow> row_error + 'v rvalue"
  and read_each :: "'v tao_result \<Rightarrow> rtype list \<Rightarrow> string option list \<Rightarrow> row_error + 'v rvalue list" where
  "read_cells R (Base b) xs = (case hd xs of None \<Rightarrow> Inl Unexpected_null | Some s \<Rightarrow> traits_from_text R (Base b) s)"
| "read_cells R (Optional t) xs =
     (if list_all (\<lambda>x. x = None) xs then Inr Nullopt else rbind (read_cells R t xs) (\<lambda>v. Inr (Engaged v)))"
| "read_cells R (Pair t u) xs =
     rbind (read_cells R t (take (result_traits_size t) xs)) (\<lambda>a.
     rbind (read_cells R u (drop (result_traits_size t) xs)) (\<lambda>b. Inr (Pair_of a b)))"
| "read_cells R (Tuple ts) xs = rbind (read_each R ts xs) (\<lambda>vs. Inr (Tuple_of vs))"
| "read_each R [] xs = Inr []"
| "read_each R (t # ts) xs =
     rbind (read_cells R t (take (result_traits_size t) xs)) (\<lambda>v.
     rbind (read_each R ts (drop (result_traits_size t) xs)) (\<lambda>vs. Inr (v # vs)))"

definition row_cells :: "'v tao_result \<Rightarrow> tao_row \<Rightarrow> string option list" where
  "row_cells R r = map (\<lambda>c. cell R (m_row r) (m_offset r + c)) [0..<m_columns r]"

lemma length_row_cells [simp]: "length (row_cells R r) = m_columns r"
  by (simp add: row_cells_def)

lemma nth_row_cells [simp]: "c < m_columns r \<Longrightarrow> row_cells R r ! c = cell R (m_row r) (m_offset r + c)"
  by (simp add: row_cells_def)

lemma row_cells_slice:
  "c + n \<le> m_columns r \<Longrightarrow>
   row_cells R (r\<lparr>m_offset := m_offset r + c, m_columns := n\<rparr>) = take n (drop c (row_cells R r))"
  by (rule nth_equalityI) (simp_all add: add.assoc)

lemma readable_size: "readable t \<Longrightarrow> 0 < result_traits_size t"
proof (induction t)
  case (Tuple ts)
  then obtain u us where "ts = u # us" by (cases ts) auto
  then show ?case using Tuple by simp
qed auto

lemma readable_one_column: "readable (Tuple ts) \<Longrightarrow> result_traits_size (Tuple ts) = 1 \<Longrightarrow> \<exists>t. ts = [t]"
proof -
  assume r: "readable (Tuple ts)" "result_traits_size (Tuple ts) = 1"
  then obtain t us where us: "ts = t # us" by (cases ts) auto
  have "us = []"
  proof (rule ccontr)
    assume "us \<noteq> []"
    then obtain u vs where "us = u # vs" by (cases us) auto
    then show False using r us readable_size [of t] readable_size [of u] by simp
  qed
  then show ?thesis using us by simp
qed

text \<open>A type of one column, read from a value that is there or not.\<close>

lemma read_one_cell:
  "readable t \<Longrightarrow> result_traits_size t = 1 \<Longrightarrow>
   read_cells R t [x] =
     (case x of None \<Rightarrow> if result_traits_has_null t then Inr (traits_null t) else Inl Unexpected_null
      | Some s \<Rightarrow> traits_from_text R t s)"
proof (induction t)
  case (Pair t u)
  then show ?case using readable_size [of t] readable_size [of u] by simp
next
  case (Tuple ts)
  then obtain t where t: "ts = [t]" using readable_one_column by blast
  then show ?case using Tuple.IH [of t] Tuple.prems by (cases x) (auto simp: rbind_def split: sum.split)
qed (auto split: option.split)

lemma some_column_eq:
  assumes "tao_result_ok R" and "\<forall>c \<in> set cs. c < m_columns r"
  shows "some_column R r cs = Inr (\<not> list_all (\<lambda>c. cell R (m_row r) (m_offset r + c) = None) cs)"
  using assms(2) by (induction cs) (simp_all add: tao_result_okD [OF assms(1)])

lemma row_get_one:
  assumes "tao_result_ok R" and "readable t" and "result_traits_size t = 1"
  shows "row_get R t r c =
    (if c < m_columns r then read_cells R t [cell R (m_row r) (m_offset r + c)] else Inl Out_of_range)"
  using assms(2,3)
  by (simp add: row_get.simps [of R t] tao_result_okD [OF assms(1)] read_one_cell split: option.split)

lemma row_get_slice:
  assumes "tao_result_ok R" and "1 < result_traits_size t"
  shows "row_get R t r c =
    (if c + result_traits_size t \<le> m_columns r
     then traits_from_row R t (r\<lparr>m_offset := m_offset r + c, m_columns := result_traits_size t\<rparr>) else Inl Out_of_range)"
  using assms(2) by (simp add: row_get.simps [of R t] tao_result_okD [OF assms(1)])

lemma row_get_columns:
  assumes "tao_result_ok R" and "readable t"
    and row: "\<And>r. 1 < result_traits_size t \<Longrightarrow> m_columns r = result_traits_size t \<Longrightarrow>
      traits_from_row R t r = read_cells R t (row_cells R r)"
  shows "row_get R t r c =
    (if c + result_traits_size t \<le> m_columns r
     then read_cells R t (take (result_traits_size t) (drop c (row_cells R r))) else Inl Out_of_range)"
proof (cases "result_traits_size t = 1")
  case True
  have "take 1 (drop c (row_cells R r)) = [cell R (m_row r) (m_offset r + c)]" if "c < m_columns r"
    using that by (simp add: take_Suc hd_drop_conv_nth)
  then show ?thesis using row_get_one [OF assms(1,2) True] True by simp
next
  case False
  then have "1 < result_traits_size t" using readable_size [OF assms(2)] by simp
  then show ?thesis using row_get_slice [OF assms(1)] row by (simp add: row_cells_slice)
qed

lemma row_get_each_columns:
  assumes "\<And>t c. t \<in> set ts \<Longrightarrow> row_get R t r c =
    (if c + result_traits_size t \<le> m_columns r
     then read_cells R t (take (result_traits_size t) (drop c (row_cells R r))) else Inl Out_of_range)"
    and "a + sum_list (map result_traits_size ts) \<le> m_columns r"
  shows "row_get_each R ts (map (\<lambda>s. a + s) (exclusive_scan (map result_traits_size ts))) r = read_each R ts (drop a (row_cells R r))"
  using assms
proof (induction ts arbitrary: a)
  case (Cons t ts)
  have "row_get_each R ts (map (\<lambda>s. (a + result_traits_size t) + s) (exclusive_scan (map result_traits_size ts))) r =
      read_each R ts (drop (a + result_traits_size t) (row_cells R r))"
    using Cons.IH [of "a + result_traits_size t"] Cons.prems by simp
  then show ?case using Cons.prems by (simp add: exclusive_scan_Cons comp_def add.assoc add.commute add.left_commute)
qed simp

lemma traits_from_row_columns:
  assumes "tao_result_ok R"
  shows "readable t \<Longrightarrow> 1 < result_traits_size t \<Longrightarrow> m_columns r = result_traits_size t \<Longrightarrow>
    traits_from_row R t r = read_cells R t (row_cells R r)"
proof (induction t arbitrary: r)
  case (Optional t)
  have "list_all (\<lambda>c. cell R (m_row r) (m_offset r + c) = None) [0..<m_columns r] = list_all (\<lambda>x. x = None) (row_cells R r)"
    by (simp add: row_cells_def list_all_iff)
  then show ?case using Optional by (simp add: some_column_eq [OF assms])
next
  case (Pair t u)
  then show ?case using row_get_columns [OF assms] by simp
next
  case (Tuple ts)
  then have one: "length ts \<noteq> 1" by (auto simp: length_Suc_conv)
  have "row_get_each R ts (map (\<lambda>s. 0 + s) (exclusive_scan (map result_traits_size ts))) r = read_each R ts (drop 0 (row_cells R r))"
    using Tuple.prems Tuple.IH
    by (intro row_get_each_columns row_get_columns [OF assms]) (simp_all add: list_all_iff)
  then show ?case using one by simp
qed simp

lemma row_get_eq:
  assumes "tao_result_ok R" and "readable t"
  shows "row_get R t r c =
    (if c + result_traits_size t \<le> m_columns r
     then read_cells R t (take (result_traits_size t) (drop c (row_cells R r))) else Inl Out_of_range)"
  by (rule row_get_columns [OF assms traits_from_row_columns [OF assms]])

lemma row_as_eq:
  assumes "tao_result_ok R" and "readable t"
  shows "row_as R t r =
    (if result_traits_size t \<noteq> m_columns r then Inl (Wrong_columns (result_traits_size t) (m_columns r))
     else read_cells R t (row_cells R r))"
  using row_get_eq [OF assms] by (simp add: row_as_def)

section \<open>Containers\<close>

text \<open>The values of the rows, or the first error.\<close>

fun collect :: "('e + 'a) list \<Rightarrow> 'e + 'a list" where
  "collect [] = Inr []"
| "collect (x # xs) = rbind x (\<lambda>v. rbind (collect xs) (\<lambda>vs. Inr (v # vs)))"

definition rows_as :: "'v tao_result \<Rightarrow> rtype \<Rightarrow> (row_error + 'v rvalue) list" where
  "rows_as R t = map (\<lambda>i. row_as R t (result_row R i)) [0..<m_rows R]"

lemma insert_rows_eq:
  "i \<le> n \<Longrightarrow> insert_rows R t ins (result_row R i) (result_row R n) nrv =
    Some (rbind (collect (map (\<lambda>i. row_as R t (result_row R i)) [i..<n])) (\<lambda>vs. Inr (fold (\<lambda>v c. ins c v) vs nrv)))"
proof (induction "n - i" arbitrary: i nrv)
  case 0
  then show ?case by (simp add: insert_rows.simps result_row_def)
next
  case (Suc k)
  then have i: "i < n" by simp
  have next_row: "(result_row R i)\<lparr>m_row := Suc (m_row (result_row R i))\<rparr> = result_row R (Suc i)" by (simp add: result_row_def)
  have rows: "m_row (result_row R i) \<noteq> m_row (result_row R n)" using i by (simp add: result_row_def)
  note rest = Suc.hyps(1) [of "Suc i"]
  show ?case
  proof (cases "row_as R t (result_row R i)")
    case (Inl e)
    then show ?thesis using i rows by (subst insert_rows.simps) (simp add: upt_conv_Cons)
  next
    case (Inr v)
    then show ?thesis using i rows rest [of "ins nrv v"] Suc.hyps(2)
      by (subst insert_rows.simps) (simp add: next_row upt_conv_Cons rbind_assoc)
  qed
qed

lemma as_container_eq:
  assumes "tao_result_ok R"
  shows "as_container R t ins nrv = Some (rbind (result_size R) (\<lambda>n. rbind (collect (rows_as R t)) (\<lambda>vs. Inr (fold (\<lambda>v c. ins c v) vs nrv))))"
proof (cases "result_size R")
  case (Inr n)
  from tao_result_okD(5) [OF assms this] insert_rows_eq [of 0 "m_rows R" R t ins nrv]
  show ?thesis by (simp add: as_container_def Inr rows_as_def)
qed (use tao_result_okD(6) [OF assms] in \<open>simp add: as_container_def\<close>)

lemma fold_vector_insert: "fold (\<lambda>v c. vector_insert c v) vs xs = xs @ vs"
  by (induction vs arbitrary: xs) (simp_all add: vector_insert_def)

lemma fold_set_insert: "fold (\<lambda>v c. set_insert c v) vs A = set vs \<union> A"
  by (induction vs arbitrary: A) (simp_all add: set_insert_def)

lemma fold_map_insert: "fold (\<lambda>v c. map_insert c v) (map (\<lambda>(k, x). Pair_of k x) ks) m = map_of ks ++ m"
proof (induction ks arbitrary: m)
  case (Cons kx ks)
  obtain k x where kx: "kx = (k, x)" by (cases kx)
  show ?case
  proof (cases "m k")
    case None
    then show ?thesis using Cons by (auto simp: kx map_insert_def map_add_def fun_eq_iff split: option.split)
  next
    case (Some y)
    then show ?thesis using Cons by (auto simp: kx map_insert_def map_add_def fun_eq_iff split: option.split)
  qed
qed simp

section \<open>Properties\<close>


text \<open>C36 Safety. A field of a slice is read from the wrong column: \<^verbatim>\<open>operator[]\<close> stores the offset of the slice plus the
  column, and \<^verbatim>\<open>as\<close> counts that from the start of the slice again. In a slice of a row from its column \<open>k\<close>, the field
  \<open>c\<close> gives the column \<open>2 * k + c\<close> of the row, or an error, where \<^verbatim>\<open>get(c)\<close> gives the column \<open>k + c\<close>.\<close>
theorem field_of_slice_wrong:
  assumes "tao_result_ok R" and "readable t" and "result_traits_size t = 1"
    and "row_slice R (result_row R i) k n = Inr q" and "c < n"
  shows "rbind (row_index R q c) (field_as R t) =
      (if k + c < n then row_get R t (result_row R i) (2 * k + c) else Inl Out_of_range)
    \<and> row_get R t q c = row_get R t (result_row R i) (k + c)"
proof -
  have q: "q = \<lparr>m_row = i, m_offset = k, m_columns = n\<rparr>" and n: "k + n \<le> result_columns R"
    using assms(4) by (auto simp: tao_result_okD [OF assms(1)] result_row_def split: if_splits)
  show ?thesis
    using assms(5) n
    by (auto simp: q row_index_def field_as_def tao_result_okD [OF assms(1)] assms(3) row_get_one [OF assms(1-3)] result_row_def
        mult_2 add.assoc)
qed

text \<open>C37 Termination. The loop over the rows ends, with the first error of a row or its containers: a vector has the values
  of all rows in their order, a set has them once, and a map has for each key the value of the first row with it. A
  single value is there for exactly one row, an optional one for none as well; without a result set all of them fail.\<close>
theorem containers_of_rows:
  assumes "tao_result_ok R"
  shows "result_vector R t = Some (rbind (result_size R) (\<lambda>n. collect (rows_as R t)))
    \<and> result_set R t = Some (rbind (result_size R) (\<lambda>n. rbind (collect (rows_as R t)) (\<lambda>vs. Inr (set vs))))
    \<and> (\<forall>ks. collect (rows_as R (Pair t u)) = Inr (map (\<lambda>(k, x). Pair_of k x) ks) \<longrightarrow>
         result_map R t u = Some (rbind (result_size R) (\<lambda>n. Inr (map_of ks))))
    \<and> result_as R t =
      rbind (result_size R) (\<lambda>n. if m_rows R = 1 then row_as R t (result_row R 0) else Inl (Wrong_rows (m_rows R)))
    \<and> result_optional R t =
      rbind (result_size R) (\<lambda>n. if m_rows R = 0 then Inr Nullopt else rbind (result_as R t) (\<lambda>v. Inr (Engaged v)))"
proof -
  have map: "result_map R t u = Some (rbind (result_size R) (\<lambda>n. Inr (map_of ks)))"
    if "collect (rows_as R (Pair t u)) = Inr (map (\<lambda>(k, x). Pair_of k x) ks)" for ks
    by (simp add: result_map_def as_container_eq [OF assms] that fold_map_insert empty_map_add)
  have size: "rbind (result_size R) f = rbind (result_size R) (\<lambda>n. f (m_rows R))" for f :: "nat \<Rightarrow> row_error + 'b"
    using tao_result_okD(5) [OF assms] by (cases "result_size R") auto
  show ?thesis
    using map size [of "\<lambda>n. if n \<noteq> 1 then Inl (Wrong_rows (m_rows R)) else row_as R t (result_row R 0)"]
      size [of "\<lambda>n. if n = 0 then Inr Nullopt else rbind (result_as R t) (\<lambda>v. Inr (Engaged v))"]
    by (auto simp: result_vector_def result_set_def as_container_eq [OF assms] fold_vector_insert fold_set_insert
        result_as_def result_optional_def cong: if_cong)
qed

text \<open>A result with the values of a list of rows, in a library that converts nothing.\<close>

definition sample_tao_result :: "string option list list \<Rightarrow> nat \<Rightarrow> string tao_result" where
  "sample_tao_result xss n =
     \<lparr>cell = (\<lambda>i c. xss ! i ! c), result_columns = n, m_rows = length xss,
      ensure_column = (\<lambda>r c. if c < m_columns r then Inr () else Inl Out_of_range),
      row_slice = (\<lambda>r c k. if 0 < k \<and> c + k \<le> m_columns r then Inr (r\<lparr>m_offset := m_offset r + c, m_columns := k\<rparr>) else Inl Out_of_range),
      row_is_null = (\<lambda>r c. if c < m_columns r then Inr (xss ! m_row r ! (m_offset r + c) = None) else Inl Out_of_range),
      row_get_text = (\<lambda>r c. if c < m_columns r
        then (case xss ! m_row r ! (m_offset r + c) of None \<Rightarrow> Inl Unexpected_null | Some s \<Rightarrow> Inr s) else Inl Out_of_range),
      check_has_result_set = Inr (), result_size = Inr (length xss), result_begin = Inr \<lparr>m_row = 0, m_offset = 0, m_columns = n\<rparr>,
      result_end = Inr \<lparr>m_row = length xss, m_offset = 0, m_columns = n\<rparr>, from_text = (\<lambda>b s. Inr s)\<rparr>"

lemma sample_tao_result_ok: "tao_result_ok (sample_tao_result xss n)"
  by (simp add: tao_result_ok_def sample_tao_result_def result_row_def)

lemma sample_tao_result_simps [simp]:
  "cell (sample_tao_result xss n) i c = xss ! i ! c" "result_columns (sample_tao_result xss n) = n"
  "m_rows (sample_tao_result xss n) = length xss" "result_size (sample_tao_result xss n) = Inr (length xss)"
  "from_text (sample_tao_result xss n) b s = Inr s"
  by (simp_all add: sample_tao_result_def)

lemmas sample_row_simps = row_as_eq [OF sample_tao_result_ok] row_cells_def result_row_def upt_rec


theorem field_of_slice_wrong_witness:
  "rbind (row_index (sample_tao_result [[Some ''a'', Some ''b'', Some ''c'']] 3) \<lparr>m_row = 0, m_offset = 1, m_columns = 2\<rparr> 0)
       (field_as (sample_tao_result [[Some ''a'', Some ''b'', Some ''c'']] 3) (Base Std_string)) = Inr (Text ''c'')"
proof -
  let ?R = "sample_tao_result [[Some ''a'', Some ''b'', Some ''c'']] 3"
  have "row_slice ?R (result_row ?R 0) 1 2 = Inr \<lparr>m_row = 0, m_offset = 1, m_columns = 2\<rparr>"
    by (simp add: sample_tao_result_def result_row_def)
  from field_of_slice_wrong [OF sample_tao_result_ok _ _ this, of "Base Std_string" 0]
  have "rbind (row_index ?R \<lparr>m_row = 0, m_offset = 1, m_columns = 2\<rparr> 0) (field_as ?R (Base Std_string)) =
      row_get ?R (Base Std_string) (result_row ?R 0) 2"
    by simp
  then show ?thesis by (simp add: row_get_one [OF sample_tao_result_ok] result_row_def)
qed

theorem containers_of_rows_witness:
  "result_map (sample_tao_result [[Some ''a'', Some ''b''], [Some ''a'', Some ''c'']] 2) (Base Std_string) (Base Std_string)
   = Some (Inr (map_of [(Text ''a'', Text ''b''), (Text ''a'', Text ''c'')]))"
proof -
  let ?R = "sample_tao_result [[Some ''a'', Some ''b''], [Some ''a'', Some ''c'']] 2"
  have rows: "collect (rows_as ?R (Pair (Base Std_string) (Base Std_string))) =
      Inr (map (\<lambda>(k, x). Pair_of k x) [(Text ''a'', Text ''b''), (Text ''a'', Text ''c'')])"
    by (simp add: rows_as_def sample_row_simps)
  show ?thesis
    using containers_of_rows [OF sample_tao_result_ok, THEN conjunct2, THEN conjunct2, THEN conjunct1, rule_format, OF rows] by simp
qed

end
