(* ===== verification/Tao_Pool.thy ===== *)
theory Tao_Pool
  imports Prelude
begin

text \<open>
  \<^verbatim>\<open>tao/pq/internal/pool.hpp\<close> and \<^verbatim>\<open>connection_pool.hpp\<close>: idle connections in a list, shared by threads. A connection is
  owned by the pool, by users through copies of a \<^verbatim>\<open>shared_ptr\<close>, or by a thread between two critical sections. What
  happens to it when the last copy goes away is decided by its deleter: back to the pool that it is attached to, if
  that is still alive, or deleted. A connection is a number, given out in the order of creation.
\<close>

section \<open>State\<close>

record tao_pool =
  m_items :: "nat list option"
  m_attached :: "nat \<Rightarrow> bool"
  in_get :: "nat set"
  in_deleter :: "nat set"
  use_count :: "nat \<Rightarrow> nat"
  is_valid :: "nat \<Rightarrow> bool"
  deleted :: "nat list"
  created :: nat

text \<open>
  \<open>m_items\<close> is \<open>None\<close> once the pool is gone: its weak pointers cannot be locked any more. \<open>in_get\<close> are the connections
  pulled by a thread that has not checked them yet, \<open>in_deleter\<close> those that a deleter holds, with the pool locked.
\<close>

definition new_tao_pool :: tao_pool where
  "new_tao_pool =
     \<lparr>m_items = Some [], m_attached = (\<lambda>x. False), in_get = {}, in_deleter = {}, use_count = (\<lambda>x. 0),
      is_valid = (\<lambda>x. False), deleted = [], created = 0\<rparr>"

section \<open>Operations\<close>

definition delete_item :: "nat \<Rightarrow> tao_pool \<Rightarrow> tao_pool" where
  "delete_item x s = s\<lparr>deleted := deleted s @ [x]\<rparr>"

text \<open>\<^verbatim>\<open>create\<close>: a connection that could be opened, attached to the pool, with one owner.\<close>

definition pool_create :: "tao_pool \<Rightarrow> nat \<times> tao_pool" where
  "pool_create s =
     (let x = created s in
      (x, s\<lparr>created := x + 1, m_attached := (m_attached s)(x := True), use_count := (use_count s)(x := 1),
            is_valid := (is_valid s)(x := True)\<rparr>))"

definition pool_pull :: "tao_pool \<Rightarrow> nat option \<times> tao_pool" where
  "pool_pull s =
     (case m_items s of
        None \<Rightarrow> (None, s)
      | Some xs \<Rightarrow>
          if xs = [] then (None, s)
          else (Some (last xs), s\<lparr>m_items := Some (butlast xs), in_get := insert (last xs) (in_get s)\<rparr>))"

text \<open>The deleter when the last copy goes away: it is attached to a pool that can be locked, or not.\<close>

definition run_deleter :: "nat \<Rightarrow> tao_pool \<Rightarrow> tao_pool" where
  "run_deleter x s =
     (if m_attached s x \<and> m_items s \<noteq> None then s\<lparr>in_deleter := insert x (in_deleter s)\<rparr> else delete_item x s)"

definition pool_push :: "nat \<Rightarrow> tao_pool \<Rightarrow> tao_pool" where
  "pool_push x s =
     (let s = s\<lparr>in_deleter := in_deleter s - {x}\<rparr> in
      if is_valid s x
      then s\<lparr>m_items := map_option (\<lambda>xs. xs @ [x]) (m_items s), m_attached := (m_attached s)(x := False)\<rparr>
      else delete_item x s)"

text \<open>The check in \<^verbatim>\<open>get\<close>: a valid connection is attached and returned, any other goes away with its only copy.\<close>

definition pool_check :: "nat \<Rightarrow> tao_pool \<Rightarrow> bool \<times> tao_pool" where
  "pool_check x s =
     (let s = s\<lparr>in_get := in_get s - {x}\<rparr> in
      if is_valid s x
      then (True, s\<lparr>m_attached := (m_attached s)(x := True), use_count := (use_count s)(x := 1)\<rparr>)
      else (False, run_deleter x s))"

definition sp_copy :: "nat \<Rightarrow> tao_pool \<Rightarrow> tao_pool" where
  "sp_copy x s = s\<lparr>use_count := (use_count s)(x := use_count s x + 1)\<rparr>"

definition sp_drop :: "nat \<Rightarrow> tao_pool \<Rightarrow> tao_pool" where
  "sp_drop x s =
     (let s' = s\<lparr>use_count := (use_count s)(x := use_count s x - 1)\<rparr> in
      if use_count s' x = 0 then run_deleter x s' else s')"

text \<open>\<^verbatim>\<open>erase_invalid\<close>: the connections that are not valid leave the list and go away after the lock.\<close>

definition pool_erase_invalid :: "tao_pool \<Rightarrow> tao_pool" where
  "pool_erase_invalid s =
     (case m_items s of
        None \<Rightarrow> s
      | Some xs \<Rightarrow>
          fold run_deleter (filter (\<lambda>x. \<not> is_valid s x) xs) (s\<lparr>m_items := Some (filter (is_valid s) xs)\<rparr>))"

text \<open>The end of the pool: the weak pointers expire before the list is destroyed.\<close>

definition pool_destroy :: "tao_pool \<Rightarrow> tao_pool" where
  "pool_destroy s =
     (case m_items s of None \<Rightarrow> s | Some xs \<Rightarrow> fold run_deleter xs (s\<lparr>m_items := None\<rparr>))"

text \<open>The loop of \<^verbatim>\<open>get\<close>, for a thread that nobody else interrupts.\<close>

definition items_left :: "tao_pool \<Rightarrow> nat" where
  "items_left s = (case m_items s of None \<Rightarrow> 0 | Some xs \<Rightarrow> length xs)"

lemma items_left_delete: "items_left (delete_item x s) = items_left s"
  by (simp add: items_left_def delete_item_def)

lemma items_left_deleter: "items_left (run_deleter x s) = items_left s"
  by (simp add: run_deleter_def items_left_delete) (simp add: items_left_def)

lemma items_left_check: "(b, s') = pool_check x s \<Longrightarrow> items_left s' = items_left s"
  by (auto simp: pool_check_def Let_def items_left_deleter split: if_splits) (simp_all add: items_left_def)

lemma items_left_pull: "(Some x, s') = pool_pull s \<Longrightarrow> items_left s' < items_left s"
  by (auto simp: pool_pull_def items_left_def split: option.splits if_splits)

function pool_get :: "tao_pool \<Rightarrow> nat \<times> tao_pool" where
  "pool_get s =
     (case pool_pull s of
        (None, s) \<Rightarrow> pool_create s
      | (Some x, s) \<Rightarrow> (case pool_check x s of (True, s) \<Rightarrow> (x, s) | (False, s) \<Rightarrow> pool_get s))"
  by pat_completeness auto
termination
  by (relation "measure items_left") (auto dest!: items_left_pull items_left_check)

declare pool_get.simps [simp del]

section \<open>Threads\<close>

text \<open>
  The steps of any number of threads. A pool goes away when nobody uses it: no thread is in \<^verbatim>\<open>get\<close>, and no deleter
  holds it. A connection may become invalid at any time.
\<close>

inductive pool_step :: "tao_pool \<Rightarrow> tao_pool \<Rightarrow> bool" where
  step_create: "m_items s \<noteq> None \<Longrightarrow> pool_step s (snd (pool_create s))"
| step_pull: "pool_step s (snd (pool_pull s))"
| step_check: "x \<in> in_get s \<Longrightarrow> pool_step s (snd (pool_check x s))"
| step_copy: "use_count s x > 0 \<Longrightarrow> pool_step s (sp_copy x s)"
| step_drop: "use_count s x > 0 \<Longrightarrow> pool_step s (sp_drop x s)"
| step_push: "x \<in> in_deleter s \<Longrightarrow> pool_step s (pool_push x s)"
| step_erase: "pool_step s (pool_erase_invalid s)"
| step_destroy: "in_get s = {} \<Longrightarrow> in_deleter s = {} \<Longrightarrow> pool_step s (pool_destroy s)"
| step_close: "pool_step s (s\<lparr>is_valid := (is_valid s)(x := False)\<rparr>)"

inductive pool_reachable :: "tao_pool \<Rightarrow> bool" where
  reach_new: "pool_reachable new_tao_pool"
| reach_step: "pool_reachable s \<Longrightarrow> pool_step s s' \<Longrightarrow> pool_reachable s'"

section \<open>One owner\<close>

definition pool_items :: "tao_pool \<Rightarrow> nat list" where
  "pool_items s = (case m_items s of None \<Rightarrow> [] | Some xs \<Rightarrow> xs)"

lemma pool_items_simps [simp]:
  "pool_items (s\<lparr>in_get := a\<rparr>) = pool_items s" "pool_items (s\<lparr>in_deleter := a\<rparr>) = pool_items s"
  "pool_items (s\<lparr>m_attached := b\<rparr>) = pool_items s" "pool_items (s\<lparr>use_count := c\<rparr>) = pool_items s"
  "pool_items (s\<lparr>deleted := d\<rparr>) = pool_items s" "pool_items (s\<lparr>is_valid := b\<rparr>) = pool_items s"
  "pool_items (s\<lparr>created := n\<rparr>) = pool_items s" "pool_items (s\<lparr>m_items := Some xs\<rparr>) = xs"
  "pool_items (s\<lparr>m_items := None\<rparr>) = []"
  by (simp_all add: pool_items_def)

text \<open>In how many places a connection is: in the pool, with a thread, with users, deleted.\<close>

definition owners :: "tao_pool \<Rightarrow> nat \<Rightarrow> nat" where
  "owners s x =
     count_list (pool_items s) x + (if x \<in> in_get s then 1 else 0) + (if x \<in> in_deleter s then 1 else 0) + (if use_count s x > 0 then 1 else 0)
     + count_list (deleted s) x"

text \<open>Each connection is in one place, and attached to the pool exactly when it is not idle in it.\<close>

definition well_owned :: "tao_pool \<Rightarrow> nat \<Rightarrow> bool" where
  "well_owned s x \<longleftrightarrow>
     (x < created s \<longrightarrow> owners s x = 1) \<and> (\<not> x < created s \<longrightarrow> owners s x = 0)
     \<and> (x \<in> set (pool_items s) \<or> x \<in> in_get s \<longrightarrow> \<not> m_attached s x)
     \<and> (x \<in> in_deleter s \<or> use_count s x > 0 \<longrightarrow> m_attached s x)"

definition tao_pool_inv :: "tao_pool \<Rightarrow> bool" where
  "tao_pool_inv s \<longleftrightarrow> (\<forall>x. well_owned s x) \<and> (m_items s = None \<longrightarrow> in_get s = {} \<and> in_deleter s = {})"

lemma tao_pool_invI:
  "(\<And>x. well_owned s x) \<Longrightarrow> (m_items s = None \<Longrightarrow> in_get s = {} \<and> in_deleter s = {}) \<Longrightarrow> tao_pool_inv s"
  unfolding tao_pool_inv_def by blast

lemma tao_pool_invD:
  assumes "tao_pool_inv s"
  shows "well_owned s x" and "m_items s = None \<Longrightarrow> in_get s = {} \<and> in_deleter s = {}"
  using assms unfolding tao_pool_inv_def by blast+

lemma run_deleter_detached: "\<not> m_attached s x \<or> m_items s = None \<Longrightarrow> run_deleter x s = s\<lparr>deleted := deleted s @ [x]\<rparr>"
  by (auto simp: run_deleter_def delete_item_def)

lemma fold_run_deleter:
  "\<forall>x \<in> set xs. \<not> m_attached s x \<Longrightarrow> fold run_deleter xs s = s\<lparr>deleted := deleted s @ xs\<rparr>"
  by (induction xs arbitrary: s) (simp_all add: run_deleter_detached)

lemma count_list_last: "xs \<noteq> [] \<Longrightarrow> count_list xs x = count_list (butlast xs) x + of_bool (x = last xs)"
  by (induction xs) auto

lemma count_list_split: "count_list (filter P xs) x + count_list (filter (\<lambda>x. \<not> P x) xs) x = count_list xs x"
  by (induction xs) auto

lemma tao_pool_inv_owners: "tao_pool_inv s \<Longrightarrow> owners s x \<le> 1"
  using tao_pool_invD(1) [of s x] by (auto simp: well_owned_def)

lemma member_count: "x \<in> set xs \<longleftrightarrow> 0 < count_list xs x"
  using count_list_0_iff [of xs x] by auto

text \<open>A connection in one place is in no other.\<close>

lemma owner_elsewhere:
  assumes "tao_pool_inv s"
  shows "x \<in> in_get s \<Longrightarrow> x \<notin> set (pool_items s) \<and> x \<notin> in_deleter s \<and> use_count s x = 0 \<and> x \<notin> set (deleted s)"
    and "x \<in> in_deleter s \<Longrightarrow> x \<notin> set (pool_items s) \<and> x \<notin> in_get s \<and> use_count s x = 0 \<and> x \<notin> set (deleted s)"
    and "use_count s x > 0 \<Longrightarrow> x \<notin> set (pool_items s) \<and> x \<notin> in_get s \<and> x \<notin> in_deleter s \<and> x \<notin> set (deleted s)"
    and "x \<in> set (pool_items s) \<Longrightarrow> x \<notin> in_get s \<and> x \<notin> in_deleter s \<and> use_count s x = 0 \<and> x \<notin> set (deleted s)"
  using tao_pool_inv_owners [OF assms, of x]
  unfolding owners_def member_count
  by (simp_all split: if_splits)

lemmas owned_defs = well_owned_def owners_def

lemma tao_pool_inv_new: "tao_pool_inv new_tao_pool"
  by (intro tao_pool_invI) (simp_all add: new_tao_pool_def owned_defs pool_items_def)

lemma tao_pool_inv_create:
  assumes "tao_pool_inv s" and "m_items s \<noteq> None"
  shows "tao_pool_inv (snd (pool_create s))"
proof (rule tao_pool_invI)
  fix y
  have "owners s (created s) = 0" using tao_pool_invD(1) [OF assms(1), of "created s"] by (simp add: well_owned_def)
  then show "well_owned (snd (pool_create s)) y"
    using tao_pool_invD(1) [OF assms(1), of y]
    by (cases "y = created s") (auto simp: pool_create_def Let_def owned_defs count_list_0_iff)
qed (use assms in \<open>simp add: pool_create_def Let_def\<close>)

lemma tao_pool_inv_pull:
  assumes "tao_pool_inv s"
  shows "tao_pool_inv (snd (pool_pull s))"
proof (cases "pool_items s = []")
  case True
  then show ?thesis using assms by (simp add: pool_pull_def pool_items_def split: option.splits)
next
  case False
  then obtain xs where xs: "m_items s = Some xs" "xs \<noteq> []" by (auto simp: pool_items_def split: option.splits)
  then have mem: "last xs \<in> set (pool_items s)" by (simp add: pool_items_def)
  show ?thesis
  proof (rule tao_pool_invI)
    fix y
    show "well_owned (snd (pool_pull s)) y"
      using tao_pool_invD(1) [OF assms, of y] owner_elsewhere(4) [OF assms mem] mem count_list_last [OF xs(2), of y] xs
      by (cases "y = last xs") (auto simp: pool_pull_def owned_defs pool_items_def dest: in_set_butlastD)
  qed (use xs in \<open>simp add: pool_pull_def\<close>)
qed

text \<open>The outcomes of the operations on a connection.\<close>

lemma pool_check_cases:
  assumes "\<not> m_attached s x"
  shows "pool_check x s =
    (if is_valid s x
     then (True, s\<lparr>in_get := in_get s - {x}, m_attached := (m_attached s)(x := True), use_count := (use_count s)(x := 1)\<rparr>)
     else (False, s\<lparr>in_get := in_get s - {x}, deleted := deleted s @ [x]\<rparr>))"
  using assms by (simp add: pool_check_def run_deleter_detached)

lemma pool_push_cases:
  "pool_push x s =
    (if is_valid s x
     then s\<lparr>in_deleter := in_deleter s - {x}, m_items := map_option (\<lambda>xs. xs @ [x]) (m_items s),
            m_attached := (m_attached s)(x := False)\<rparr>
     else s\<lparr>in_deleter := in_deleter s - {x}, deleted := deleted s @ [x]\<rparr>)"
  by (simp add: pool_push_def delete_item_def)

lemma sp_drop_cases:
  assumes "m_attached s x"
  shows "sp_drop x s =
    (if use_count s x > 1 then s\<lparr>use_count := (use_count s)(x := use_count s x - 1)\<rparr>
     else if m_items s = None then s\<lparr>use_count := (use_count s)(x := 0), deleted := deleted s @ [x]\<rparr>
     else s\<lparr>use_count := (use_count s)(x := 0), in_deleter := insert x (in_deleter s)\<rparr>)"
  using assms by (simp add: sp_drop_def run_deleter_def delete_item_def)

lemma tao_pool_inv_check:
  assumes "tao_pool_inv s" and "x \<in> in_get s"
  shows "tao_pool_inv (snd (pool_check x s))"
proof (rule tao_pool_invI)
  have x: "\<not> m_attached s x" using tao_pool_invD(1) [OF assms(1), of x] assms(2) by (simp add: well_owned_def)
  fix y
  show "well_owned (snd (pool_check x s)) y"
    using tao_pool_invD(1) [OF assms(1), of y] owner_elsewhere(1) [OF assms] assms(2)
    by (cases "is_valid s x"; cases "y = x") (simp_all add: pool_check_cases [OF x] owned_defs)
  show "in_get (snd (pool_check x s)) = {} \<and> in_deleter (snd (pool_check x s)) = {}"
    if "m_items (snd (pool_check x s)) = None"
    using tao_pool_invD(2) [OF assms(1)] assms(2) that by (cases "is_valid s x") (simp_all add: pool_check_cases [OF x])
qed

lemma tao_pool_inv_push:
  assumes "tao_pool_inv s" and "x \<in> in_deleter s"
  shows "tao_pool_inv (pool_push x s)"
proof (rule tao_pool_invI)
  obtain xs where xs: "m_items s = Some xs" using tao_pool_invD(2) [OF assms(1)] assms(2) by blast
  fix y
  show "well_owned (pool_push x s) y"
    using tao_pool_invD(1) [OF assms(1), of y] owner_elsewhere(2) [OF assms] assms(2) xs
    by (cases "is_valid s x"; cases "y = x") (simp_all add: pool_push_cases owned_defs pool_items_def)
  show "in_get (pool_push x s) = {} \<and> in_deleter (pool_push x s) = {}" if "m_items (pool_push x s) = None"
    using xs that by (simp add: pool_push_cases split: if_splits)
qed

lemma tao_pool_inv_drop:
  assumes "tao_pool_inv s" and "use_count s x > 0"
  shows "tao_pool_inv (sp_drop x s)"
proof (rule tao_pool_invI)
  have x: "m_attached s x" using tao_pool_invD(1) [OF assms(1), of x] assms(2) by (simp add: well_owned_def)
  fix y
  show "well_owned (sp_drop x s) y"
    using tao_pool_invD(1) [OF assms(1), of y] owner_elsewhere(3) [OF assms] assms(2)
    by (cases "use_count s x > 1"; cases "m_items s"; cases "y = x") (simp_all add: sp_drop_cases [OF x] owned_defs)
  show "in_get (sp_drop x s) = {} \<and> in_deleter (sp_drop x s) = {}" if "m_items (sp_drop x s) = None"
    using tao_pool_invD(2) [OF assms(1)] that by (simp add: sp_drop_cases [OF x] split: if_splits)
qed

lemma tao_pool_items_detached: "tao_pool_inv s \<Longrightarrow> m_items s = Some xs \<Longrightarrow> x \<in> set xs \<Longrightarrow> \<not> m_attached s x"
  using tao_pool_invD(1) [of s x] by (simp add: well_owned_def pool_items_def)

lemma erase_invalid_eq:
  assumes "tao_pool_inv s" and "m_items s = Some xs"
  shows "pool_erase_invalid s =
    s\<lparr>m_items := Some (filter (is_valid s) xs), deleted := deleted s @ filter (\<lambda>x. \<not> is_valid s x) xs\<rparr>"
  using fold_run_deleter [of "filter (\<lambda>x. \<not> is_valid s x) xs" "s\<lparr>m_items := Some (filter (is_valid s) xs)\<rparr>"]
    tao_pool_items_detached [OF assms] by (simp add: pool_erase_invalid_def assms(2))

lemma pool_destroy_eq:
  assumes "tao_pool_inv s" and "m_items s = Some xs"
  shows "pool_destroy s = s\<lparr>m_items := None, deleted := deleted s @ xs\<rparr>"
  using fold_run_deleter [of xs "s\<lparr>m_items := None\<rparr>"] tao_pool_items_detached [OF assms]
  by (simp add: pool_destroy_def assms(2))

lemma tao_pool_inv_erase:
  assumes "tao_pool_inv s"
  shows "tao_pool_inv (pool_erase_invalid s)"
proof (cases "m_items s")
  case (Some xs)
  show ?thesis
  proof (rule tao_pool_invI)
    fix y
    have "owners (pool_erase_invalid s) y = owners s y"
      using count_list_split [of "is_valid s" xs y] Some
      by (simp add: owners_def erase_invalid_eq [OF assms Some] pool_items_def)
    then show "well_owned (pool_erase_invalid s) y"
      using tao_pool_invD(1) [OF assms, of y] Some
      by (simp add: well_owned_def) (auto simp: erase_invalid_eq [OF assms Some] pool_items_def)
  qed (simp add: erase_invalid_eq [OF assms Some])
qed (use assms in \<open>simp add: pool_erase_invalid_def\<close>)

lemma tao_pool_inv_destroy:
  assumes "tao_pool_inv s" and "in_get s = {}" and "in_deleter s = {}"
  shows "tao_pool_inv (pool_destroy s)"
proof (cases "m_items s")
  case (Some xs)
  show ?thesis
  proof (rule tao_pool_invI)
    fix y
    have "owners (pool_destroy s) y = owners s y"
      using Some by (simp add: owners_def pool_destroy_eq [OF assms(1) Some] pool_items_def)
    then show "well_owned (pool_destroy s) y"
      using tao_pool_invD(1) [OF assms(1), of y]
      by (simp add: well_owned_def) (auto simp: pool_destroy_eq [OF assms(1) Some] assms(2,3))
  qed (simp add: pool_destroy_eq [OF assms(1) Some] assms(2,3))
qed (use assms in \<open>simp add: pool_destroy_def\<close>)

lemma tao_pool_inv_copy:
  assumes "tao_pool_inv s" and "use_count s x > 0"
  shows "tao_pool_inv (sp_copy x s)"
proof (rule tao_pool_invI)
  fix y
  show "well_owned (sp_copy x s) y"
    using tao_pool_invD(1) [OF assms(1), of y] owner_elsewhere(3) [OF assms] assms(2)
    by (cases "y = x") (simp_all add: sp_copy_def owned_defs)
  show "in_get (sp_copy x s) = {} \<and> in_deleter (sp_copy x s) = {}" if "m_items (sp_copy x s) = None"
    using tao_pool_invD(2) [OF assms(1)] that by (simp add: sp_copy_def)
qed

lemma tao_pool_inv_close: "tao_pool_inv s \<Longrightarrow> tao_pool_inv (s\<lparr>is_valid := v\<rparr>)"
  by (simp add: tao_pool_inv_def owned_defs)

lemma tao_pool_inv_step: "pool_step s s' \<Longrightarrow> tao_pool_inv s \<Longrightarrow> tao_pool_inv s'"
  by (induction rule: pool_step.induct)
    (simp_all add: tao_pool_inv_create tao_pool_inv_pull tao_pool_inv_check tao_pool_inv_push tao_pool_inv_drop
      tao_pool_inv_erase tao_pool_inv_destroy tao_pool_inv_copy tao_pool_inv_close)

lemma tao_pool_inv_reachable: "pool_reachable s \<Longrightarrow> tao_pool_inv s"
  by (induction rule: pool_reachable.induct) (simp_all add: tao_pool_inv_new tao_pool_inv_step)

section \<open>What get returns\<close>

lemma pool_get_eq:
  assumes "m_items s = Some xs" and "\<forall>x \<in> set xs. \<not> m_attached s x \<and> x \<notin> in_get s"
  shows "pool_get s =
    (case dropWhile (\<lambda>x. \<not> is_valid s x) (rev xs) of
       [] \<Rightarrow> pool_create (s\<lparr>m_items := Some [], deleted := deleted s @ rev xs\<rparr>)
     | x # ys \<Rightarrow>
         (x, s\<lparr>m_items := Some (rev ys), deleted := deleted s @ takeWhile (\<lambda>x. \<not> is_valid s x) (rev xs),
               m_attached := (m_attached s)(x := True), use_count := (use_count s)(x := 1)\<rparr>))"
  using assms
proof (induction xs arbitrary: s rule: rev_induct)
  case Nil
  have same: "s\<lparr>m_items := Some []\<rparr> = s" by (simp add: Nil.prems(1) [symmetric])
  show ?case by (subst pool_get.simps) (simp add: pool_pull_def Nil.prems(1) same)
next
  case (snoc x xs)
  let ?s = "s\<lparr>m_items := Some xs, in_get := insert x (in_get s)\<rparr>"
  have pull: "pool_pull s = (Some x, ?s)" using snoc.prems(1) by (simp add: pool_pull_def)
  have x: "\<not> m_attached ?s x" and new: "insert x (in_get s) - {x} = in_get s" using snoc.prems(2) by simp_all
  show ?case
  proof (cases "is_valid s x")
    case True
    then show ?thesis by (subst pool_get.simps) (simp add: pull pool_check_cases [OF x] new)
  next
    case False
    let ?t = "s\<lparr>m_items := Some xs, deleted := deleted s @ [x]\<rparr>"
    have "pool_check x ?s = (False, ?t)" using False by (simp add: pool_check_cases [OF x] new)
    then have "pool_get s = pool_get ?t" by (subst pool_get.simps) (simp add: pull)
    then show ?thesis
      using snoc.IH [of ?t] snoc.prems(2) False
      by (cases "dropWhile (\<lambda>x. \<not> is_valid s x) (rev xs)") (simp_all add: fun_upd_def del: dropWhile_eq_Nil_conv)
  qed
qed

lemma count_list_distinct: "(\<And>x. count_list xs x \<le> 1) \<Longrightarrow> distinct xs"
proof (induction xs)
  case (Cons a xs)
  have "count_list xs x \<le> 1" for x using Cons.prems [of x] by (cases "x = a") simp_all
  then show ?case using Cons.IH Cons.prems [of a] by (simp add: count_list_0_iff)
qed simp

section \<open>Properties\<close>

text \<open>C32 Invariant. However threads take connections, copy and drop them, let them go back and erase those that broke:
  every connection ever created is in exactly one place (idle in the pool, with a thread, with users, deleted), idle
  ones are detached from the pool and used ones attached to it. When the pool is gone and nobody uses a connection,
  all of them have been deleted, each once.\<close>
theorem connection_has_one_owner:
  assumes "pool_reachable s"
  shows "owners s x = (if x < created s then 1 else 0)
    \<and> (x \<in> set (pool_items s) \<longrightarrow> \<not> m_attached s x) \<and> (use_count s x > 0 \<longrightarrow> m_attached s x)
    \<and> (m_items s = None \<and> (\<forall>x. use_count s x = 0) \<longrightarrow> distinct (deleted s) \<and> set (deleted s) = {..<created s})"
proof -
  note inv = tao_pool_invD [OF tao_pool_inv_reachable [OF assms]]
  have "owners s y = count_list (deleted s) y" if "m_items s = None" "\<forall>x. use_count s x = 0" for y
    using inv(2) that by (simp add: owners_def pool_items_def)
  then have count: "count_list (deleted s) y = (if y < created s then 1 else 0)"
    if "m_items s = None" "\<forall>x. use_count s x = 0" for y
    using inv(1) [of y] that by (auto simp: well_owned_def)
  have "distinct (deleted s) \<and> set (deleted s) = {..<created s}" if "m_items s = None \<and> (\<forall>x. use_count s x = 0)"
    using that by (auto intro!: count_list_distinct simp: count member_count split: if_splits)
  then show ?thesis using inv(1) [of x] by (auto simp: well_owned_def)
qed

theorem connection_has_one_owner_witness:
  "owners (snd (pool_create new_tao_pool)) 0 = 1"
  using connection_has_one_owner [OF reach_step [OF reach_new step_create], of 0]
  by (simp add: new_tao_pool_def pool_create_def Let_def)

text \<open>C33 Equivalence. The loop of \<^verbatim>\<open>get\<close> ends, and gives the valid connection that came back last, attached to the
  pool and with one owner; those that came back later are not valid and are deleted; the others stay. Without a valid
  one it creates a connection. So a connection that is given back by its last user and still valid is the next one
  given out.\<close>
theorem get_returns_last_valid:
  assumes "pool_reachable s" and "m_items s = Some xs"
  shows "pool_get s =
      (case dropWhile (\<lambda>x. \<not> is_valid s x) (rev xs) of
         [] \<Rightarrow> pool_create (s\<lparr>m_items := Some [], deleted := deleted s @ rev xs\<rparr>)
       | x # ys \<Rightarrow>
           (x, s\<lparr>m_items := Some (rev ys), deleted := deleted s @ takeWhile (\<lambda>x. \<not> is_valid s x) (rev xs),
                 m_attached := (m_attached s)(x := True), use_count := (use_count s)(x := 1)\<rparr>))
    \<and> (\<forall>x. use_count s x = 1 \<and> is_valid s x \<longrightarrow>
         fst (pool_get (pool_push x (sp_drop x s))) = x \<and> m_items (snd (pool_get (pool_push x (sp_drop x s)))) = Some xs)"
proof (intro conjI allI impI)
  note inv = tao_pool_inv_reachable [OF assms(1)]
  have idle: "\<forall>x \<in> set xs. \<not> m_attached s x \<and> x \<notin> in_get s"
    using owner_elsewhere(4) [OF inv] tao_pool_items_detached [OF inv assms(2)] assms(2) by (auto simp: pool_items_def)
  show "pool_get s =
      (case dropWhile (\<lambda>x. \<not> is_valid s x) (rev xs) of
         [] \<Rightarrow> pool_create (s\<lparr>m_items := Some [], deleted := deleted s @ rev xs\<rparr>)
       | x # ys \<Rightarrow>
           (x, s\<lparr>m_items := Some (rev ys), deleted := deleted s @ takeWhile (\<lambda>x. \<not> is_valid s x) (rev xs),
                 m_attached := (m_attached s)(x := True), use_count := (use_count s)(x := 1)\<rparr>))"
    by (rule pool_get_eq [OF assms(2) idle])
  fix x
  assume x: "use_count s x = 1 \<and> is_valid s x"
  let ?t = "pool_push x (sp_drop x s)"
  have att: "m_attached s x" using tao_pool_invD(1) [OF inv, of x] x by (simp add: well_owned_def)
  have t: "m_items ?t = Some (xs @ [x])" "is_valid ?t x" "\<forall>y \<in> set (xs @ [x]). \<not> m_attached ?t y \<and> y \<notin> in_get ?t"
    using x assms(2) idle owner_elsewhere(3) [OF inv, of x] by (auto simp: sp_drop_cases [OF att] pool_push_cases)
  then show "fst (pool_get ?t) = x" and "m_items (snd (pool_get ?t)) = Some xs"
    by (simp_all add: pool_get_eq [OF t(1,3)])
qed

text \<open>A pool with one idle connection: created, and dropped by its user.\<close>

definition sample_tao_pool :: tao_pool where
  "sample_tao_pool = pool_push 0 (sp_drop 0 (snd (pool_create new_tao_pool)))"

lemmas sample_pool_defs =
  sample_tao_pool_def new_tao_pool_def pool_create_def sp_drop_def run_deleter_def pool_push_def Let_def

lemma sample_tao_pool_reachable: "pool_reachable sample_tao_pool"
  unfolding sample_tao_pool_def
  by (intro reach_step [OF reach_step [OF reach_step [OF reach_new step_create] step_drop] step_push])
    (simp_all add: new_tao_pool_def pool_create_def sp_drop_def run_deleter_def Let_def)

theorem get_returns_last_valid_witness: "fst (pool_get sample_tao_pool) = 0 \<and> pool_items (snd (pool_get sample_tao_pool)) = []"
proof -
  have "m_items sample_tao_pool = Some [0]" "is_valid sample_tao_pool 0" by (simp_all add: sample_pool_defs)
  then show ?thesis using get_returns_last_valid [OF sample_tao_pool_reachable, of "[0]"] by (simp add: pool_items_def)
qed

end
