(* ===== verification/Tao_Transaction.thy ===== *)
theory Tao_Transaction
  imports Prelude
begin

text \<open>
  \<^verbatim>\<open>tao/pq/connection.hpp\<close> and \<^verbatim>\<open>transaction.hpp\<close>: the transactions of one connection. The connection points to its
  current transaction; a subtransaction remembers the one before it and shares its ownership. The bodies of
  \<^verbatim>\<open>commit\<close>, \<^verbatim>\<open>rollback\<close>, \<^verbatim>\<open>check_current_transaction\<close> and \<^verbatim>\<open>execute_params\<close> are in a library that is not in the
  repository: they are a parameter. A transaction is a number, given out in the order of creation.
\<close>

section \<open>Data\<close>

datatype isolation_level =
  default_isolation_level | serializable | repeatable_read | read_committed | read_uncommitted

datatype tx_class = Autocommit | Top_level isolation_level | Top_level_sub | Nested_sub

text \<open>\<open>tx_connection\<close>: the transaction still has its connection; \<open>tx_users\<close>: the copies of its pointer that users have.\<close>

record tx =
  tx_class :: tx_class
  tx_connection :: bool
  m_previous :: "nat option"
  tx_users :: nat

record tao_connection =
  m_current :: "nat option"
  txs :: "(nat \<times> tx) list"
  made :: nat
  executed :: "string list"

text \<open>
  The library: whether a statement gives a result or throws, whether \<^verbatim>\<open>check_current_transaction\<close> passes, what
  \<^verbatim>\<open>commit\<close> and \<^verbatim>\<open>rollback\<close> get to (the statement, \<^verbatim>\<open>v_reset\<close>), whether the connection is open, and how
  \<^verbatim>\<open>printf\<close> writes a pointer.
\<close>

record tao_lib =
  lib_execute :: "string \<Rightarrow> tao_connection \<Rightarrow> bool"
  lib_check :: "nat \<Rightarrow> tao_connection \<Rightarrow> bool"
  lib_finish :: "bool \<Rightarrow> nat \<Rightarrow> tao_connection \<Rightarrow> bool \<times> bool"
  lib_is_open :: "tao_connection \<Rightarrow> bool"
  lib_pointer :: "nat \<Rightarrow> string"

text \<open>What the transactions rely on: only the current transaction passes the check and is reset.\<close>

definition lib_ok :: "tao_lib \<Rightarrow> bool" where
  "lib_ok lib \<longleftrightarrow>
     (\<forall>t c. lib_check lib t c \<longrightarrow> m_current c = Some t)
     \<and> (\<forall>b t c. snd (lib_finish lib b t c) \<longrightarrow> m_current c = Some t)"

section \<open>Statements\<close>

definition isolation_level_to_statement :: "isolation_level \<Rightarrow> string" where
  "isolation_level_to_statement il =
     (case il of
        default_isolation_level \<Rightarrow> ''START TRANSACTION''
      | serializable \<Rightarrow> ''START TRANSACTION ISOLATION LEVEL SERIALIZABLE''
      | repeatable_read \<Rightarrow> ''START TRANSACTION ISOLATION LEVEL REPEATABLE READ''
      | read_committed \<Rightarrow> ''START TRANSACTION ISOLATION LEVEL READ COMMITTED''
      | read_uncommitted \<Rightarrow> ''START TRANSACTION ISOLATION LEVEL READ UNCOMMITTED'')"

definition savepoint_name :: "tao_lib \<Rightarrow> nat \<Rightarrow> string" where
  "savepoint_name lib t = [CHR 0x22] @ ''TAOPQ_'' @ lib_pointer lib t @ [CHR 0x22]"

text \<open>The statements of the constructors, of \<^verbatim>\<open>v_commit\<close> and of \<^verbatim>\<open>v_rollback\<close>.\<close>

definition start_statement :: "tao_lib \<Rightarrow> tx_class \<Rightarrow> nat \<Rightarrow> string option" where
  "start_statement lib k t =
     (case k of
        Autocommit \<Rightarrow> None
      | Top_level il \<Rightarrow> Some (isolation_level_to_statement il)
      | Top_level_sub \<Rightarrow> Some ''START TRANSACTION''
      | Nested_sub \<Rightarrow> Some (''SAVEPOINT '' @ savepoint_name lib t))"

definition v_commit :: "tao_lib \<Rightarrow> tx_class \<Rightarrow> nat \<Rightarrow> string option" where
  "v_commit lib k t =
     (case k of
        Autocommit \<Rightarrow> None
      | Nested_sub \<Rightarrow> Some (''RELEASE SAVEPOINT '' @ savepoint_name lib t)
      | _ \<Rightarrow> Some ''COMMIT TRANSACTION'')"

definition v_rollback :: "tao_lib \<Rightarrow> tx_class \<Rightarrow> nat \<Rightarrow> string option" where
  "v_rollback lib k t =
     (case k of
        Autocommit \<Rightarrow> None
      | Nested_sub \<Rightarrow> Some (''ROLLBACK TO '' @ savepoint_name lib t)
      | _ \<Rightarrow> Some ''ROLLBACK TRANSACTION'')"

definition v_is_direct :: "tx_class \<Rightarrow> bool" where
  "v_is_direct k = (k = Autocommit)"

definition log_statement :: "string option \<Rightarrow> tao_connection \<Rightarrow> tao_connection" where
  "log_statement s c = c\<lparr>executed := executed c @ (case s of None \<Rightarrow> [] | Some s \<Rightarrow> [s])\<rparr>"

section \<open>Construction\<close>

datatype tx_error = Transaction_order_error | Statement_failed | Null_current

definition executes :: "tao_lib \<Rightarrow> string option \<Rightarrow> tao_connection \<Rightarrow> bool" where
  "executes lib s c = (case s of None \<Rightarrow> True | Some s \<Rightarrow> lib_execute lib s c)"

text \<open>
  The constructor of the base class sets the current transaction. When the statement of the derived class throws, the
  destructor of the base class sets it back, and there is no transaction.
\<close>

definition new_transaction :: "tao_lib \<Rightarrow> tx_class \<Rightarrow> tao_connection \<Rightarrow> (tx_error + nat) \<times> tao_connection" where
  "new_transaction lib k c =
     (let t = made c; s = start_statement lib k t in
      if m_current c \<noteq> None then (Inl Transaction_order_error, c)
      else (let c' = log_statement s (c\<lparr>m_current := Some t, made := t + 1\<rparr>) in
            if executes lib s c'
            then (Inr t, c'\<lparr>txs := (t, \<lparr>tx_class = k, tx_connection = True, m_previous = None, tx_users = 1\<rparr>) # txs c\<rparr>)
            else (Inl Statement_failed, c'\<lparr>m_current := None\<rparr>)))"

definition new_subtransaction :: "tao_lib \<Rightarrow> tx_class \<Rightarrow> tao_connection \<Rightarrow> (tx_error + nat) \<times> tao_connection" where
  "new_subtransaction lib k c =
     (case m_current c of
        None \<Rightarrow> (Inl Null_current, c)
      | Some p \<Rightarrow>
          (let t = made c; s = start_statement lib k t;
               c' = log_statement s (c\<lparr>m_current := Some t, made := t + 1\<rparr>) in
           if executes lib s c'
           then (Inr t, c'\<lparr>txs := (t, \<lparr>tx_class = k, tx_connection = True, m_previous = Some p, tx_users = 1\<rparr>) # txs c\<rparr>)
           else (Inl Statement_failed, c'\<lparr>m_current := Some p\<rparr>)))"

definition direct :: "tao_lib \<Rightarrow> tao_connection \<Rightarrow> (tx_error + nat) \<times> tao_connection" where
  "direct lib = new_transaction lib Autocommit"

definition transaction :: "tao_lib \<Rightarrow> isolation_level \<Rightarrow> tao_connection \<Rightarrow> (tx_error + nat) \<times> tao_connection" where
  "transaction lib il = new_transaction lib (Top_level il)"

definition subtransaction :: "tao_lib \<Rightarrow> nat \<Rightarrow> tao_connection \<Rightarrow> (tx_error + nat) \<times> tao_connection" where
  "subtransaction lib t c =
     (if lib_check lib t c
      then (case map_of (txs c) t of
              None \<Rightarrow> (Inl Transaction_order_error, c)
            | Some x \<Rightarrow> new_subtransaction lib (if v_is_direct (tx_class x) then Top_level_sub else Nested_sub) c)
      else (Inl Transaction_order_error, c))"

section \<open>The end of a transaction\<close>

definition update_tx :: "nat \<Rightarrow> (tx \<Rightarrow> tx) \<Rightarrow> tao_connection \<Rightarrow> tao_connection" where
  "update_tx t f c = c\<lparr>txs := map (\<lambda>(u, x). (u, if u = t then f x else x)) (txs c)\<rparr>"

text \<open>\<^verbatim>\<open>v_reset\<close>: the current transaction is the previous one of a subtransaction, none otherwise.\<close>

definition v_reset :: "nat \<Rightarrow> tao_connection \<Rightarrow> tao_connection" where
  "v_reset t c =
     (case map_of (txs c) t of
        None \<Rightarrow> c
      | Some x \<Rightarrow> update_tx t (\<lambda>x. x\<lparr>tx_connection := False\<rparr>) (c\<lparr>m_current := m_previous x\<rparr>))"

definition finish_transaction :: "tao_lib \<Rightarrow> bool \<Rightarrow> nat \<Rightarrow> tao_connection \<Rightarrow> tao_connection" where
  "finish_transaction lib commit t c =
     (case map_of (txs c) t of
        None \<Rightarrow> c
      | Some x \<Rightarrow>
          (let (called, reset) = lib_finish lib commit t c;
               c = (if called then log_statement ((if commit then v_commit else v_rollback) lib (tx_class x) t) c else c) in
           if reset then v_reset t c else c))"

text \<open>
  The destructors: a transaction that still has an open connection is rolled back, whatever comes of it; then the base
  class takes itself off the connection. Direct transactions have only the second.
\<close>

definition derived_destructor :: "tao_lib \<Rightarrow> nat \<Rightarrow> tx \<Rightarrow> tao_connection \<Rightarrow> tao_connection" where
  "derived_destructor lib t x c =
     (if tx_class x \<noteq> Autocommit \<and> tx_connection x \<and> lib_is_open lib c then finish_transaction lib False t c else c)"

definition base_destructor :: "nat \<Rightarrow> tao_connection \<Rightarrow> tao_connection" where
  "base_destructor t c =
     (case map_of (txs c) t of
        None \<Rightarrow> c
      | Some x \<Rightarrow>
          (let c' = (if tx_connection x then c\<lparr>m_current := m_previous x\<rparr> else c) in
           c'\<lparr>txs := filter (\<lambda>(u, x). u \<noteq> t) (txs c)\<rparr>))"

definition destroy_one :: "tao_lib \<Rightarrow> nat \<Rightarrow> tx \<Rightarrow> tao_connection \<Rightarrow> tao_connection" where
  "destroy_one lib t x c = base_destructor t (derived_destructor lib t x c)"

definition tx_refs :: "tao_connection \<Rightarrow> nat \<Rightarrow> nat" where
  "tx_refs c t =
     (case map_of (txs c) t of None \<Rightarrow> 0 | Some x \<Rightarrow> tx_users x)
     + length (filter (\<lambda>(u, x). m_previous x = Some t) (txs c))"

lemma ids_update_tx [simp]: "map fst (txs (update_tx t f c)) = map fst (txs c)"
  by (simp add: update_tx_def split_def comp_def)

lemma ids_finish: "map fst (txs (finish_transaction lib b t c)) = map fst (txs c)"
proof -
  have reset: "map fst (txs (v_reset t c)) = map fst (txs c)" for c by (simp add: v_reset_def split: option.split)
  have log: "txs (log_statement s c) = txs c" for s c by (simp add: log_statement_def)
  show ?thesis by (simp add: finish_transaction_def reset log Let_def split: option.split prod.split)
qed

lemma length_destroy_one: "map_of (txs c) t = Some x \<Longrightarrow> length (txs (destroy_one lib t x c)) < length (txs c)"
proof -
  assume x: "map_of (txs c) t = Some x"
  let ?d = "derived_destructor lib t x c"
  have ids: "map fst (txs ?d) = map fst (txs c)" by (simp add: derived_destructor_def ids_finish)
  have mem: "t \<in> fst ` set (txs ?d)" using x arg_cong [OF ids, of set] by (force dest: map_of_SomeD)
  then obtain y where y: "map_of (txs ?d) t = Some y" by (auto simp: map_of_eq_None_iff dest: weak_map_of_SomeI)
  have "length (filter (\<lambda>(u, x). u \<noteq> t) (txs ?d)) < length (txs ?d)"
    using mem by (auto intro: length_filter_less)
  then show ?thesis using arg_cong [OF ids, of length] by (simp add: destroy_one_def base_destructor_def y Let_def)
qed

text \<open>A transaction goes away, then its share of the previous one, which may be the last.\<close>

function destroy_tx :: "tao_lib \<Rightarrow> nat \<Rightarrow> tao_connection \<Rightarrow> tao_connection" where
  "destroy_tx lib t c =
     (case map_of (txs c) t of
        None \<Rightarrow> c
      | Some x \<Rightarrow>
          (let c = destroy_one lib t x c in
           case m_previous x of
             None \<Rightarrow> c
           | Some p \<Rightarrow> if tx_refs c p = 0 then destroy_tx lib p c else c))"
  by pat_completeness auto
termination
  by (relation "measure (\<lambda>(lib, t, c). length (txs c))") (simp_all add: length_destroy_one)

declare destroy_tx.simps [simp del]

definition tx_copy :: "nat \<Rightarrow> tao_connection \<Rightarrow> tao_connection" where
  "tx_copy t c = update_tx t (\<lambda>x. x\<lparr>tx_users := tx_users x + 1\<rparr>) c"

definition tx_drop :: "tao_lib \<Rightarrow> nat \<Rightarrow> tao_connection \<Rightarrow> tao_connection" where
  "tx_drop lib t c =
     (let c = update_tx t (\<lambda>x. x\<lparr>tx_users := tx_users x - 1\<rparr>) c in
      if tx_refs c t = 0 then destroy_tx lib t c else c)"

section \<open>Use\<close>

definition users_of :: "tao_connection \<Rightarrow> nat \<Rightarrow> nat" where
  "users_of c t = (case map_of (txs c) t of None \<Rightarrow> 0 | Some x \<Rightarrow> tx_users x)"

inductive tx_step :: "tao_lib \<Rightarrow> tao_connection \<Rightarrow> tao_connection \<Rightarrow> bool" for lib where
  step_direct: "tx_step lib c (snd (direct lib c))"
| step_transaction: "tx_step lib c (snd (transaction lib il c))"
| step_subtransaction: "users_of c t > 0 \<Longrightarrow> tx_step lib c (snd (subtransaction lib t c))"
| step_finish: "users_of c t > 0 \<Longrightarrow> tx_step lib c (finish_transaction lib b t c)"
| step_tx_copy: "users_of c t > 0 \<Longrightarrow> tx_step lib c (tx_copy t c)"
| step_tx_drop: "users_of c t > 0 \<Longrightarrow> tx_step lib c (tx_drop lib t c)"

definition new_tao_connection :: tao_connection where
  "new_tao_connection = \<lparr>m_current = None, txs = [], made = 0, executed = []\<rparr>"

inductive tx_reachable :: "tao_lib \<Rightarrow> tao_connection \<Rightarrow> bool" for lib where
  tx_reach_new: "tx_reachable lib new_tao_connection"
| tx_reach_step: "tx_reachable lib c \<Longrightarrow> tx_step lib c c' \<Longrightarrow> tx_reachable lib c'"

section \<open>The stack of transactions\<close>

text \<open>The transactions that still have their connection, from the current one to the first.\<close>

definition tx_top :: "nat list \<Rightarrow> nat option" where
  "tx_top ts = (case ts of [] \<Rightarrow> None | t # _ \<Rightarrow> Some t)"

lemma tx_top_simps [simp]: "tx_top [] = None" "tx_top (t # ts) = Some t"
  by (simp_all add: tx_top_def)

lemma tx_top_Some: "tx_top ts = Some t \<longleftrightarrow> (\<exists>us. ts = t # us)" and tx_top_None: "tx_top ts = None \<longleftrightarrow> ts = []"
  by (cases ts; simp)+

fun linked :: "(nat \<Rightarrow> tx option) \<Rightarrow> nat list \<Rightarrow> bool" where
  "linked m [] = True"
| "linked m (t # ts) = ((\<exists>x. m t = Some x \<and> tx_connection x \<and> m_previous x = tx_top ts) \<and> linked m ts)"

definition tx_stack :: "tao_connection \<Rightarrow> nat list \<Rightarrow> bool" where
  "tx_stack c ts \<longleftrightarrow>
     linked (map_of (txs c)) ts \<and> distinct ts \<and> m_current c = tx_top ts
     \<and> (\<forall>t x. map_of (txs c) t = Some x \<and> tx_connection x \<longrightarrow> t \<in> set ts)"

text \<open>The ownership: a previous transaction is alive and older.\<close>

definition tx_owned :: "tao_connection \<Rightarrow> bool" where
  "tx_owned c \<longleftrightarrow>
     distinct (map fst (txs c)) \<and> (\<forall>t x. map_of (txs c) t = Some x \<longrightarrow> t < made c)
     \<and> (\<forall>t x p. map_of (txs c) t = Some x \<and> m_previous x = Some p \<longrightarrow> p < t \<and> map_of (txs c) p \<noteq> None)"

definition tx_inv_but :: "nat set \<Rightarrow> tao_connection \<Rightarrow> bool" where
  "tx_inv_but us c \<longleftrightarrow>
     tx_owned c \<and> (\<exists>ts. tx_stack c ts) \<and> (\<forall>t x. map_of (txs c) t = Some x \<and> t \<notin> us \<longrightarrow> tx_refs c t > 0)"

abbreviation tx_inv :: "tao_connection \<Rightarrow> bool" where "tx_inv \<equiv> tx_inv_but {}"

lemma linked_alive: "linked m ts \<Longrightarrow> t \<in> set ts \<Longrightarrow> \<exists>x. m t = Some x \<and> tx_connection x"
  by (induction ts) auto

lemma linked_above: "linked m ts \<Longrightarrow> t \<in> set ts \<Longrightarrow> tx_top ts = Some t \<or> (\<exists>u x. m u = Some x \<and> m_previous x = Some t)"
proof (induction ts)
  case (Cons a ts)
  show ?case
  proof (cases "t = a")
    case False
    then have "tx_top ts = Some t \<or> (\<exists>u x. m u = Some x \<and> m_previous x = Some t)" using Cons by simp
    then show ?thesis using Cons.prems(1) by auto
  qed simp
qed simp

lemma linked_same:
  assumes "linked m ts"
    and "\<And>t x. t \<in> set ts \<Longrightarrow> m t = Some x \<Longrightarrow> \<exists>y. m' t = Some y \<and> tx_connection y = tx_connection x \<and> m_previous y = m_previous x"
  shows "linked m' ts"
  using assms
proof (induction ts)
  case (Cons t ts)
  obtain x where x: "m t = Some x" "tx_connection x" "m_previous x = tx_top ts" using Cons.prems(1) by auto
  obtain y where "m' t = Some y" "tx_connection y" "m_previous y = tx_top ts" using Cons.prems(2) [of t x] x by auto
  moreover have "linked m' ts" using Cons.prems by (intro Cons.IH) auto
  ultimately show ?case by simp
qed simp

lemma map_of_remove: "map_of (filter (\<lambda>(u, x). u \<noteq> t) xs) u = (if u = t then None else map_of xs u)"
  by (induction xs) auto

lemma map_of_update_tx:
  "map_of (txs (update_tx t f c)) u = (if u = t then map_option f (map_of (txs c) t) else map_of (txs c) u)"
proof -
  have "map_of (map (\<lambda>(u, x). (u, if u = t then f x else x)) xs) u = (if u = t then map_option f (map_of xs t) else map_of xs u)"
    for xs by (induction xs) auto
  then show ?thesis by (simp add: update_tx_def)
qed

lemma update_tx_simps [simp]:
  "m_current (update_tx t f c) = m_current c" "made (update_tx t f c) = made c"
  by (simp_all add: update_tx_def)

lemma filter_remove_length:
  assumes "distinct (map fst xs)" and "map_of xs t = Some x"
  shows "length (filter P (filter (\<lambda>(u, x). u \<noteq> t) xs)) + (if P (t, x) then 1 else 0) = length (filter P xs)"
  using assms
proof (induction xs)
  case (Cons a xs)
  show ?case
  proof (cases "fst a = t")
    case True
    then have a: "a = (t, x)" using Cons.prems(2) by (cases a) simp
    have "\<forall>b \<in> set xs. fst b \<noteq> t" using Cons.prems(1) True by (auto simp: image_iff)
    then have "filter (\<lambda>(u, x). u \<noteq> t) xs = xs" by (auto simp: filter_id_conv)
    then show ?thesis using a by simp
  next
    case False
    then show ?thesis using Cons by (cases a) (simp split: if_splits)
  qed
qed simp

lemma no_refs:
  assumes "tx_refs c t = 0" and "map_of (txs c) u = Some y"
  shows "m_previous y \<noteq> Some t"
  using assms map_of_SomeD [OF assms(2)] by (auto simp: tx_refs_def filter_empty_conv split: option.splits)

text \<open>What the destruction of one transaction comes to, whatever the library does.\<close>

lemma finish_cases:
  assumes "map_of (txs c) t = Some x"
  obtains l where "finish_transaction lib b t c = c\<lparr>executed := executed c @ l\<rparr>"
  | l where "snd (lib_finish lib b t c)"
      and "finish_transaction lib b t c =
        update_tx t (\<lambda>x. x\<lparr>tx_connection := False\<rparr>) (c\<lparr>executed := executed c @ l, m_current := m_previous x\<rparr>)"
proof -
  obtain called reset where f: "lib_finish lib b t c = (called, reset)" by fastforce
  have log: "\<exists>l. log_statement s c = c\<lparr>executed := executed c @ l\<rparr>" for s by (auto simp: log_statement_def)
  have "\<exists>l. (if called then log_statement ((if b then v_commit else v_rollback) lib (tx_class x) t) c else c) =
      c\<lparr>executed := executed c @ l\<rparr>"
    using log [of "(if b then v_commit else v_rollback) lib (tx_class x) t"] by (cases called) (auto intro: exI [of _ "[]"])
  then obtain l where l: "(if called then log_statement ((if b then v_commit else v_rollback) lib (tx_class x) t) c else c) =
      c\<lparr>executed := executed c @ l\<rparr>" by blast
  show thesis
  proof (cases reset)
    case True
    then show thesis using that(2) [of l] assms l f by (simp add: finish_transaction_def v_reset_def)
  next
    case False
    then show thesis using that(1) [of l] assms l f by (simp add: finish_transaction_def)
  qed
qed

lemma remove_updated: "filter (\<lambda>(u, x). u \<noteq> t) (txs (update_tx t f c)) = filter (\<lambda>(u, x). u \<noteq> t) (txs c)"
proof -
  have "filter (\<lambda>(u, x). u \<noteq> t) (map (\<lambda>(u, x). (u, if u = t then f x else x)) xs) = filter (\<lambda>(u, x). u \<noteq> t) xs" for xs
    by (induction xs) auto
  then show ?thesis by (simp add: update_tx_def)
qed

lemma destroy_one_eq:
  assumes "map_of (txs c) t = Some x"
  shows "\<exists>l. destroy_one lib t x c =
    c\<lparr>executed := executed c @ l, m_current := (if tx_connection x then m_previous x else m_current c),
      txs := filter (\<lambda>(u, x). u \<noteq> t) (txs c)\<rparr>"
proof -
  let ?ends = "\<lambda>d. \<exists>l. base_destructor t d =
    c\<lparr>executed := executed c @ l, m_current := (if tx_connection x then m_previous x else m_current c),
      txs := filter (\<lambda>(u, x). u \<noteq> t) (txs c)\<rparr>"
  have plain: "?ends (c\<lparr>executed := executed c @ l\<rparr>)" for l
    using assms by (auto simp: base_destructor_def Let_def)
  show ?thesis
  proof (cases "tx_class x \<noteq> Autocommit \<and> tx_connection x \<and> lib_is_open lib c")
    case True
    then have d: "destroy_one lib t x c = base_destructor t (finish_transaction lib False t c)"
      by (simp add: destroy_one_def derived_destructor_def)
    show ?thesis
    proof (rule finish_cases [OF assms, of lib False])
      fix l
      assume "finish_transaction lib False t c = c\<lparr>executed := executed c @ l\<rparr>"
      then show ?thesis using plain [of l] by (simp add: d)
    next
      fix l
      assume f: "finish_transaction lib False t c =
          update_tx t (\<lambda>x. x\<lparr>tx_connection := False\<rparr>) (c\<lparr>executed := executed c @ l, m_current := m_previous x\<rparr>)"
      show ?thesis
        using True by (simp add: d f base_destructor_def map_of_update_tx assms remove_updated) (auto simp: update_tx_def)
    qed
  next
    case False
    then have "destroy_one lib t x c = base_destructor t c" by (auto simp: destroy_one_def derived_destructor_def)
    then show ?thesis using plain [of "[]"] by simp
  qed
qed

section \<open>Invariant\<close>

lemma linked_other: "linked m ts \<Longrightarrow> u \<notin> set ts \<Longrightarrow> linked (m(u := v)) ts"
  by (erule linked_same) auto

text \<open>The destruction of a transaction that nobody refers to: the stack loses it, if it was the current one.\<close>

lemma destroy_one_inv:
  assumes inv: "tx_inv_but {t} c" and x: "map_of (txs c) t = Some x" and refs: "tx_refs c t = 0"
  shows "tx_inv_but (set_option (m_previous x)) (destroy_one lib t x c)"
proof -
  obtain l where d: "destroy_one lib t x c =
      c\<lparr>executed := executed c @ l, m_current := (if tx_connection x then m_previous x else m_current c),
        txs := filter (\<lambda>(u, x). u \<noteq> t) (txs c)\<rparr>"
    using destroy_one_eq [OF x] by blast
  let ?m = "map_of (txs c)" and ?c = "destroy_one lib t x c"
  have m: "map_of (txs ?c) = ?m(t := None)" by (rule ext) (simp add: d map_of_remove)
  have prev: "m_previous y \<noteq> Some t" if "?m u = Some y" for u y using no_refs [OF refs that] .
  obtain ts where ts: "linked ?m ts" "distinct ts" "m_current c = tx_top ts"
      "\<And>u y. ?m u = Some y \<Longrightarrow> tx_connection y \<Longrightarrow> u \<in> set ts"
    using inv unfolding tx_inv_but_def tx_stack_def by blast
  have "\<exists>us. tx_stack ?c us"
  proof (cases "tx_connection x")
    case True
    then have "t \<in> set ts" using ts(4) x by blast
    then obtain us where us: "ts = t # us" using linked_above [OF ts(1)] prev by (auto simp: tx_top_Some)
    then have "linked (?m(t := None)) us" using ts(1,2) by (intro linked_other) simp_all
    moreover have "m_current ?c = tx_top us" using ts(1) x True us by (simp add: d)
    ultimately have "tx_stack ?c us" using ts(2,4) us by (auto simp: tx_stack_def m split: if_splits)
    then show ?thesis by blast
  next
    case False
    then have "t \<notin> set ts" using linked_alive [OF ts(1)] x by fastforce
    then have "tx_stack ?c ts"
      using ts False linked_other [OF ts(1), of t None] unfolding tx_stack_def m
      by (auto simp: d split: if_splits)
    then show ?thesis by blast
  qed
  moreover have "tx_owned ?c"
    unfolding tx_owned_def m
    using inv prev by (auto simp: tx_inv_but_def tx_owned_def d distinct_map_filter split: if_splits)
  moreover have "tx_refs ?c u > 0" if u: "map_of (txs ?c) u = Some y" "u \<notin> set_option (m_previous x)" for u y
  proof -
    have dist: "distinct (map fst (txs c))" using inv by (simp add: tx_inv_but_def tx_owned_def)
    have "m_previous x \<noteq> Some u" "u \<noteq> t" using u m by (auto split: if_splits)
    then have "tx_refs ?c u = tx_refs c u"
      using filter_remove_length [OF dist x, of "\<lambda>(v, z). m_previous z = Some u"] by (simp add: tx_refs_def m) (simp add: d)
    then show ?thesis using inv u \<open>u \<noteq> t\<close> by (simp add: tx_inv_but_def m)
  qed
  ultimately show ?thesis unfolding tx_inv_but_def by blast
qed

lemma destroy_tx_inv: "tx_inv_but {t} c \<Longrightarrow> tx_refs c t = 0 \<Longrightarrow> tx_inv (destroy_tx lib t c)"
proof (induction lib t c rule: destroy_tx.induct)
  case (1 lib t c)
  show ?case
  proof (cases "map_of (txs c) t")
    case None
    then have "tx_inv c" using "1.prems"(1) unfolding tx_inv_but_def by (metis empty_iff option.distinct(1) singletonD)
    then show ?thesis using None by (subst destroy_tx.simps) simp
  next
    case (Some x)
    let ?c = "destroy_one lib t x c"
    have inv: "tx_inv_but (set_option (m_previous x)) ?c" by (rule destroy_one_inv [OF "1.prems"(1) Some "1.prems"(2)])
    show ?thesis
    proof (cases "m_previous x")
      case None
      then show ?thesis using inv Some by (subst destroy_tx.simps) simp
    next
      case p: (Some p)
      show ?thesis
      proof (cases "tx_refs ?c p = 0")
        case True
        then have "tx_inv (destroy_tx lib p ?c)" using "1.IH" [OF Some refl p] inv p by simp
        then show ?thesis using Some p True by (subst destroy_tx.simps) simp
      next
        case False
        then have "tx_inv ?c" using inv p by (auto simp: tx_inv_but_def)
        then show ?thesis using Some p False by (subst destroy_tx.simps) simp
      qed
    qed
  qed
qed

lemma tx_inv_executed [simp]: "tx_inv_but us (c\<lparr>executed := l\<rparr>) = tx_inv_but us c"
  by (simp add: tx_inv_but_def tx_owned_def tx_stack_def tx_refs_def)

lemma refs_update_tx:
  assumes "\<And>x. m_previous (f x) = m_previous x" and "u \<noteq> t \<or> (\<forall>x. tx_users (f x) = tx_users x)"
  shows "tx_refs (update_tx t f c) u = tx_refs c u"
proof -
  have "length (filter (\<lambda>(v, x). m_previous x = Some u) (map (\<lambda>(v, x). (v, if v = t then f x else x)) xs)) =
      length (filter (\<lambda>(v, x). m_previous x = Some u) xs)" for xs
    using assms(1) by (induction xs) (auto split: if_splits)
  then have "length (filter (\<lambda>(v, x). m_previous x = Some u) (txs (update_tx t f c))) =
      length (filter (\<lambda>(v, x). m_previous x = Some u) (txs c))"
    by (simp add: update_tx_def)
  then show ?thesis using assms(2) by (auto simp: tx_refs_def map_of_update_tx split: option.split)
qed

lemma owned_update_tx:
  assumes "tx_owned c" and "\<And>x. m_previous (f x) = m_previous x"
  shows "tx_owned (update_tx t f c)"
  using assms unfolding tx_owned_def by (auto simp: map_of_update_tx split: if_splits) fastforce+

text \<open>Changing the number of users leaves the stack alone.\<close>

lemma users_update_inv:
  assumes "tx_inv c" and f: "\<And>x. m_previous (f x) = m_previous x" "\<And>x. tx_connection (f x) = tx_connection x"
  shows "tx_inv_but {t} (update_tx t f c)"
proof -
  obtain ts where ts: "tx_stack c ts" using assms(1) by (auto simp: tx_inv_but_def)
  have "linked (map_of (txs (update_tx t f c))) ts"
    by (rule linked_same [of "map_of (txs c)"]) (use ts f in \<open>auto simp: tx_stack_def map_of_update_tx\<close>)
  then have "tx_stack (update_tx t f c) ts"
    using ts f(2) by (auto simp: tx_stack_def map_of_update_tx split: if_splits)
  moreover have "tx_refs (update_tx t f c) u > 0" if "map_of (txs (update_tx t f c)) u = Some y" "u \<noteq> t" for u y
    using that assms(1) refs_update_tx [of f u t c] f(1) by (simp add: map_of_update_tx tx_inv_but_def)
  ultimately show ?thesis
    using assms(1) owned_update_tx [of c f t] f(1) unfolding tx_inv_but_def by blast
qed

lemma tx_inv_copy:
  assumes "tx_inv c"
  shows "tx_inv (tx_copy t c)"
proof -
  let ?f = "\<lambda>x. x\<lparr>tx_users := tx_users x + 1\<rparr>"
  have inv: "tx_inv_but {t} (update_tx t ?f c)" by (rule users_update_inv [OF assms]) simp_all
  have "tx_refs (update_tx t ?f c) t > 0" if "map_of (txs (update_tx t ?f c)) t = Some y" for y
    using that by (auto simp: tx_refs_def map_of_update_tx)
  then show ?thesis using inv unfolding tx_inv_but_def tx_copy_def by blast
qed

lemma tx_inv_drop:
  assumes "tx_inv c"
  shows "tx_inv (tx_drop lib t c)"
proof -
  let ?c = "update_tx t (\<lambda>x. x\<lparr>tx_users := tx_users x - 1\<rparr>) c"
  have inv: "tx_inv_but {t} ?c" by (rule users_update_inv [OF assms]) simp_all
  show ?thesis
  proof (cases "tx_refs ?c t = 0")
    case True
    then show ?thesis using destroy_tx_inv [OF inv True] by (simp add: tx_drop_def)
  next
    case False
    then have "tx_inv ?c" using inv by (auto simp: tx_inv_but_def)
    then show ?thesis using False by (simp add: tx_drop_def)
  qed
qed

lemma tx_inv_finish:
  assumes inv: "tx_inv c" and "lib_ok lib"
  shows "tx_inv (finish_transaction lib b t c)"
proof (cases "map_of (txs c) t")
  case None
  then show ?thesis using inv by (simp add: finish_transaction_def)
next
  case (Some x)
  show ?thesis
  proof (rule finish_cases [OF Some, of lib b])
    fix l
    assume "finish_transaction lib b t c = c\<lparr>executed := executed c @ l\<rparr>"
    then show ?thesis using inv by simp
  next
    fix l
    let ?f = "\<lambda>x. x\<lparr>tx_connection := False\<rparr>" and ?d = "c\<lparr>executed := executed c @ l, m_current := m_previous x\<rparr>"
    assume reset: "snd (lib_finish lib b t c)" and f: "finish_transaction lib b t c = update_tx t ?f ?d"
    have cur: "m_current c = Some t" using assms(2) reset by (simp add: lib_ok_def)
    obtain ts where ts: "tx_stack c ts" using inv by (auto simp: tx_inv_but_def)
    then obtain us where "ts = t # us" using cur tx_top_Some [of ts t] by (auto simp: tx_stack_def)
    then have us: "tx_stack c (t # us)" using ts by simp
    then have prev: "m_previous x = tx_top us" using Some by (simp add: tx_stack_def)
    have m: "map_of (txs (update_tx t ?f ?d)) = (map_of (txs c))(t := Some (?f x))"
      by (rule ext) (simp add: map_of_update_tx Some)
    have "linked (map_of (txs (update_tx t ?f ?d))) us"
      unfolding m by (rule linked_other) (use us in \<open>simp_all add: tx_stack_def\<close>)
    then have "tx_stack (update_tx t ?f ?d) us"
      using us prev unfolding tx_stack_def m by (auto split: if_splits)
    moreover have "tx_owned (update_tx t ?f ?d)"
      by (intro owned_update_tx) (use inv in \<open>simp_all add: tx_inv_but_def tx_owned_def del: not_None_eq\<close>)
    moreover have "tx_refs (update_tx t ?f ?d) u = tx_refs c u" for u
      using refs_update_tx [of ?f u t ?d] by (simp add: tx_refs_def)
    moreover have "map_of (txs c) u \<noteq> None" if "map_of (txs (update_tx t ?f ?d)) u = Some y" for u y
      using that Some by (auto simp: m split: if_splits)
    ultimately have "tx_inv (update_tx t ?f ?d)"
      using inv unfolding tx_inv_but_def by (metis not_None_eq)
    then show ?thesis by (simp add: f)
  qed
qed

lemma tx_ownedD:
  assumes "tx_owned c" and "map_of (txs c) t = Some x"
  shows "t < made c" and "m_previous x = Some q \<Longrightarrow> q < t \<and> (\<exists>z. map_of (txs c) q = Some z)"
  using assms unfolding tx_owned_def not_None_eq by blast+

text \<open>A new transaction is put on top of the stack.\<close>

lemma tx_inv_push:
  assumes inv: "tx_inv c" and "m_current c = p"
  shows "tx_inv (c\<lparr>m_current := Some (made c), made := made c + 1, executed := l,
    txs := (made c, \<lparr>tx_class = k, tx_connection = True, m_previous = p, tx_users = 1\<rparr>) # txs c\<rparr>)"
proof -
  let ?x = "\<lparr>tx_class = k, tx_connection = True, m_previous = p, tx_users = 1\<rparr>"
  let ?c = "c\<lparr>m_current := Some (made c), made := made c + 1, executed := l, txs := (made c, ?x) # txs c\<rparr>"
  have owned: "tx_owned c" using inv by (simp add: tx_inv_but_def)
  then have new: "map_of (txs c) (made c) = None" "made c \<notin> set (map fst (txs c))"
    unfolding tx_owned_def by (metis less_irrefl not_None_eq, metis less_irrefl map_of_eq_None_iff not_None_eq list.set_map)
  obtain ts where ts: "tx_stack c ts" using inv by (auto simp: tx_inv_but_def)
  have fresh: "made c \<notin> set ts" using ts new(1) linked_alive unfolding tx_stack_def by fastforce
  have "linked (map_of (txs ?c)) (made c # ts)"
    using ts linked_other [of "map_of (txs c)" ts "made c" "Some ?x"] fresh assms(2) by (simp add: tx_stack_def)
  then have "tx_stack ?c (made c # ts)" using ts fresh by (auto simp: tx_stack_def split: if_splits)
  moreover have "tx_owned ?c"
    unfolding tx_owned_def
  proof (intro conjI allI impI)
    show "distinct (map fst (txs ?c))" using owned new(2) by (simp add: tx_owned_def)
    fix t x
    show "t < made ?c" if "map_of (txs ?c) t = Some x"
      using that owned by (cases "t = made c") (auto simp: tx_owned_def less_Suc_eq)
    fix q
    assume q: "map_of (txs ?c) t = Some x \<and> m_previous x = Some q"
    have "\<exists>z. map_of (txs c) q = Some z" if "t = made c"
    proof -
      have "tx_top ts = Some q" using q that ts assms(2) by (auto simp: tx_stack_def)
      then have "q \<in> set ts" using tx_top_Some [of ts q] by auto
      then show ?thesis using ts linked_alive by (fastforce simp: tx_stack_def)
    qed
    moreover have "\<exists>z. q < t \<and> map_of (txs c) q = Some z" if "t \<noteq> made c"
      using q that tx_ownedD(2) [OF owned, of t x q] by simp
    ultimately have "\<exists>z. map_of (txs c) q = Some z \<and> (t \<noteq> made c \<longrightarrow> q < t)" by blast
    moreover have "q < made c" if "map_of (txs c) q = Some z" for z using tx_ownedD(1) [OF owned that] .
    ultimately show "q < t" and "map_of (txs ?c) q \<noteq> None" by (cases "t = made c"; force)+
  qed
  moreover have "tx_refs ?c u > 0" if "map_of (txs ?c) u = Some y" for u y
    using that inv new by (auto simp: tx_inv_but_def tx_refs_def split: if_splits)
  ultimately show ?thesis unfolding tx_inv_but_def by blast
qed

lemma tx_inv_same:
  assumes "tx_inv c" and same: "txs d = txs c" "m_current d = m_current c" and "made c \<le> made d"
  shows "tx_inv d"
proof -
  have "tx_stack d ts = tx_stack c ts" for ts unfolding tx_stack_def same ..
  moreover have "tx_refs d t = tx_refs c t" for t unfolding tx_refs_def same ..
  moreover have "tx_owned d"
    using assms unfolding tx_owned_def tx_inv_but_def same by (meson less_le_trans)
  ultimately show ?thesis using assms(1) unfolding tx_inv_but_def same by auto
qed

lemma tx_inv_new_transaction:
  assumes "tx_inv c"
  shows "tx_inv (snd (new_transaction lib k c))"
proof -
  have "tx_inv (c\<lparr>made := made c + 1, executed := l, m_current := None\<rparr>)" if "m_current c = None" for l
    by (rule tx_inv_same [OF assms]) (simp_all add: that)
  then show ?thesis
    using assms tx_inv_push [OF assms, of None]
    by (auto simp: new_transaction_def log_statement_def Let_def)
qed

lemma tx_inv_new_subtransaction:
  assumes "tx_inv c"
  shows "tx_inv (snd (new_subtransaction lib k c))"
proof (cases "m_current c")
  case None
  then show ?thesis using assms by (simp add: new_subtransaction_def)
next
  case (Some p)
  have "tx_inv (c\<lparr>made := made c + 1, executed := l, m_current := Some p\<rparr>)" for l
    by (rule tx_inv_same [OF assms]) (simp_all add: Some)
  then show ?thesis
    using tx_inv_push [OF assms Some] Some by (auto simp: new_subtransaction_def log_statement_def Let_def)
qed

lemma tx_inv_step: "tx_step lib c c' \<Longrightarrow> lib_ok lib \<Longrightarrow> tx_inv c \<Longrightarrow> tx_inv c'"
  by (induction rule: tx_step.induct)
    (simp_all add: direct_def transaction_def tx_inv_new_transaction tx_inv_finish tx_inv_copy tx_inv_drop
      subtransaction_def tx_inv_new_subtransaction split: option.split)

lemma tx_inv_reachable: "tx_reachable lib c \<Longrightarrow> lib_ok lib \<Longrightarrow> tx_inv c"
proof (induction rule: tx_reachable.induct)
  case tx_reach_new
  have "tx_stack new_tao_connection []" by (simp add: tx_stack_def new_tao_connection_def)
  then show ?case by (auto simp: tx_inv_but_def tx_owned_def new_tao_connection_def)
qed (rule tx_inv_step)

text \<open>Without users there is no transaction: the newest one would have nobody who refers to it.\<close>

lemma unused_gone:
  assumes "tx_inv c" and "\<forall>t. users_of c t = 0"
  shows "txs c = []"
proof (rule ccontr)
  assume "txs c \<noteq> []"
  let ?t = "Max (fst ` set (txs c))"
  have "?t \<in> fst ` set (txs c)" using \<open>txs c \<noteq> []\<close> by (intro Max_in) auto
  then obtain x where x: "map_of (txs c) ?t = Some x" by (force dest: weak_map_of_SomeI)
  have "tx_refs c ?t > 0" using assms(1) x by (simp add: tx_inv_but_def)
  moreover have "tx_users x = 0" using assms(2) x by (metis users_of_def option.simps(5))
  ultimately obtain u y where "(u, y) \<in> set (txs c)" and prev: "m_previous y = Some ?t"
    using x by (auto simp: tx_refs_def filter_empty_conv)
  have owned: "tx_owned c" using assms(1) by (simp add: tx_inv_but_def)
  then have "map_of (txs c) u = Some y" using \<open>(u, y) \<in> set (txs c)\<close> by (simp add: tx_owned_def)
  then have "?t < u" using tx_ownedD(2) [OF owned _ prev] by blast
  moreover have "u \<le> ?t" using \<open>(u, y) \<in> set (txs c)\<close> by (intro Max_ge) force+
  ultimately show False by simp
qed

section \<open>Properties\<close>

text \<open>C34 Invariant. However transactions and subtransactions of a connection are started, copied, committed, rolled back and
  dropped, in any order and with any statement failing: those that still have the connection are a stack, from the
  current one down to one without a previous; the pointer to the current transaction never dangles, nor that to a
  previous one, which is older; every transaction that exists has an owner, and when the users have dropped all their
  pointers none is left and the connection is free. The library resets only a current transaction.\<close>
theorem transactions_form_stack:
  assumes "lib_ok lib" and "tx_reachable lib c"
  shows "\<exists>ts. m_current c = tx_top ts \<and> linked (map_of (txs c)) ts \<and> distinct ts
      \<and> set ts = {t. \<exists>x. map_of (txs c) t = Some x \<and> tx_connection x}
      \<and> (\<forall>t x. map_of (txs c) t = Some x \<longrightarrow> tx_refs c t > 0)
      \<and> (\<forall>t x p. map_of (txs c) t = Some x \<and> m_previous x = Some p \<longrightarrow> p < t \<and> map_of (txs c) p \<noteq> None)
      \<and> ((\<forall>t. users_of c t = 0) \<longrightarrow> txs c = [] \<and> m_current c = None)"
proof -
  have inv: "tx_inv c" by (rule tx_inv_reachable [OF assms(2,1)])
  then obtain ts where ts: "linked (map_of (txs c)) ts" "distinct ts" "m_current c = tx_top ts"
      "\<And>t x. map_of (txs c) t = Some x \<Longrightarrow> tx_connection x \<Longrightarrow> t \<in> set ts"
    unfolding tx_inv_but_def tx_stack_def by blast
  have set: "set ts = {t. \<exists>x. map_of (txs c) t = Some x \<and> tx_connection x}"
    using ts(4) linked_alive [OF ts(1)] by blast
  have "m_current c = None" if "txs c = []" using set that ts(3) by simp
  then show ?thesis
    using ts set inv unused_gone [OF inv] unfolding tx_inv_but_def tx_owned_def by blast
qed

definition sample_tao_lib :: tao_lib where
  "sample_tao_lib =
     \<lparr>lib_execute = (\<lambda>s c. True), lib_check = (\<lambda>t c. m_current c = Some t),
      lib_finish = (\<lambda>b t c. (m_current c = Some t, m_current c = Some t)), lib_is_open = (\<lambda>c. True),
      lib_pointer = (\<lambda>t. ''0x'' @ std_to_string (int t))\<rparr>"

text \<open>A transaction with a savepoint.\<close>

definition sample_started :: tao_connection where
  "sample_started = snd (transaction sample_tao_lib serializable new_tao_connection)"

definition sample_nested :: tao_connection where
  "sample_nested = snd (subtransaction sample_tao_lib 0 sample_started)"

lemma sample_started_eq: "sample_started =
    \<lparr>m_current = Some 0,
     txs = [(0, \<lparr>tx_class = Top_level serializable, tx_connection = True, m_previous = None, tx_users = 1\<rparr>)],
     made = 1, executed = [''START TRANSACTION ISOLATION LEVEL SERIALIZABLE'']\<rparr>"
  by (simp add: sample_started_def sample_tao_lib_def new_tao_connection_def transaction_def new_transaction_def
      log_statement_def start_statement_def isolation_level_to_statement_def executes_def Let_def)

lemma sample_nested_txs: "txs sample_nested =
    [(1, \<lparr>tx_class = Nested_sub, tx_connection = True, m_previous = Some 0, tx_users = 1\<rparr>),
     (0, \<lparr>tx_class = Top_level serializable, tx_connection = True, m_previous = None, tx_users = 1\<rparr>)]"
  by (simp add: sample_nested_def sample_started_eq sample_tao_lib_def subtransaction_def new_subtransaction_def v_is_direct_def
      log_statement_def start_statement_def executes_def Let_def)

lemma sample_nested_reachable: "tx_reachable sample_tao_lib sample_nested"
proof -
  have "tx_reachable sample_tao_lib sample_started"
    unfolding sample_started_def by (rule tx_reach_step [OF tx_reach_new step_transaction])
  moreover have "users_of sample_started 0 > 0" by (simp add: users_of_def sample_started_eq)
  ultimately show ?thesis unfolding sample_nested_def by (rule tx_reach_step [OF _ step_subtransaction])
qed

theorem transactions_form_stack_witness: "\<exists>ts. m_current sample_nested = tx_top ts \<and> distinct ts \<and> set ts = {0, 1}"
proof -
  have "lib_ok sample_tao_lib" by (simp add: lib_ok_def sample_tao_lib_def)
  from transactions_form_stack [OF this sample_nested_reachable]
  obtain ts where "m_current sample_nested = tx_top ts" "distinct ts"
      "set ts = {t. \<exists>x. map_of (txs sample_nested) t = Some x \<and> tx_connection x}"
    by blast
  moreover have "{t. \<exists>x. map_of (txs sample_nested) t = Some x \<and> tx_connection x} = {0, 1}"
    by (auto simp: sample_nested_txs split: if_splits)
  ultimately show ?thesis by auto
qed

end
