(* ===== verification/Load_Test.thy ===== *)
theory Load_Test
  imports Protocol Server
begin

text \<open>
  The two programs: \<^verbatim>\<open>middleware-cpp/main.cpp\<close>, which starts the server with the numbers of its command line, and
  \<^verbatim>\<open>client-cpp/main.cpp\<close>, the load test: threads that look up a page of names and request each of them over and over.
  \<^verbatim>\<open>rand()\<close> is a sequence of numbers, the network and the database are parameters; an endless loop is the sequence of
  its rounds, so every statement is about any number of them.
\<close>

section \<open>Numbers on the command line\<close>

definition c_space :: "char \<Rightarrow> bool" where
  "c_space c = (c \<in> set [CHR '' '', CHR 0x09, CHR 0x0A, CHR 0x0B, CHR 0x0C, CHR 0x0D])"

definition is_digit :: "char \<Rightarrow> bool" where
  "is_digit c = (48 \<le> (of_char c :: nat) \<and> of_char c < (58 :: nat))"

text \<open>The digits and the sign at the front of a string, after spaces; no digits is no number.\<close>

definition parse_number :: "string \<Rightarrow> int option" where
  "parse_number s =
     (let s = dropWhile c_space s;
          minus = (s \<noteq> [] \<and> hd s = CHR ''-'');
          s = (if s \<noteq> [] \<and> (hd s = CHR ''-'' \<or> hd s = CHR ''+'') then tl s else s);
          digits = takeWhile is_digit s in
      if digits = [] then None else Some ((if minus then - 1 else 1) * int (dec_value digits)))"

text \<open>
  \<^verbatim>\<open>atoi\<close> of the C library: a long, limited to its range, cut down to an int; 0 without a number.
  \<^verbatim>\<open>std::stoi\<close> throws for no number and for one that is no int.
\<close>

definition atoi :: "string \<Rightarrow> cint" where
  "atoi s = (case parse_number s of None \<Rightarrow> 0 | Some v \<Rightarrow> word_of_int (max (- (2 ^ 63)) (min (2 ^ 63 - 1) v)))"

datatype stoi_error = StoiInvalid | StoiOutOfRange

definition stoi :: "string \<Rightarrow> stoi_error + int" where
  "stoi s =
     (case parse_number s of
        None \<Rightarrow> Inl StoiInvalid
      | Some v \<Rightarrow> if - (2 ^ 31) \<le> v \<and> v < 2 ^ 31 then Inr v else Inl StoiOutOfRange)"

section \<open>The server program (middleware-cpp/main.cpp)\<close>

record server_config =
  port :: short
  numOfIOContexts :: cint
  numOfIOThreads :: cint
  numOfDBContexts :: cint
  numOfDBThreads :: cint

definition default_server_config :: server_config where
  "default_server_config =
     \<lparr>port = 4008, numOfIOContexts = 12, numOfIOThreads = 2, numOfDBContexts = 12, numOfDBThreads = 2\<rparr>"

definition parse_server_args :: "string list \<Rightarrow> server_config" where
  "parse_server_args argv =
     (if length argv = 6
      then \<lparr>port = ucast (atoi (argv ! 1)), numOfIOContexts = atoi (argv ! 2), numOfIOThreads = atoi (argv ! 3),
            numOfDBContexts = atoi (argv ! 4), numOfDBThreads = atoi (argv ! 5)\<rparr>
      else default_server_config)"

text \<open>The parameters of the pools are of type \<^verbatim>\<open>size_t\<close>.\<close>

definition pool_number :: "cint \<Rightarrow> nat" where
  "pool_number n = unat (scast n :: size_t)"

definition server_main :: "string list \<Rightarrow> pool_error + Server" where
  "server_main argv =
     (let c = parse_server_args argv in
      new_Server (pool_number (numOfIOContexts c)) (pool_number (numOfIOThreads c))
        (pool_number (numOfDBContexts c)) (pool_number (numOfDBThreads c)))"

section \<open>The load test (client-cpp/main.cpp)\<close>

definition getRandomSecNamePrefix :: "nat \<Rightarrow> string" where
  "getRandomSecNamePrefix r = std_to_string (int (r mod (999 - 100 + 1) + 100))"

text \<open>What a thread does with its client: the replies and the state of the connection afterwards.\<close>

record 's client_ops =
  op_attach :: "'s \<Rightarrow> 's res"
  op_lookup :: "'s \<Rightarrow> bytes \<Rightarrow> short \<Rightarrow> (bytes list \<times> 's) res"
  op_getSecurity :: "'s \<Rightarrow> bytes \<Rightarrow> (cl_Security \<times> 's) res"

text \<open>
  The operations of \<^verbatim>\<open>client.h\<close> over a network: the bytes written make the other side append bytes to those still
  to be read.
\<close>

type_synonym 's socket = "bytes \<times> 's"

definition socket_write :: "('s \<Rightarrow> bytes \<Rightarrow> bytes \<times> 's) \<Rightarrow> 's socket \<Rightarrow> bytes \<Rightarrow> 's socket" where
  "socket_write net k sent = (let (reply, s) = net (snd k) sent in (fst k @ reply, s))"

definition Client_attach ::
    "('s \<Rightarrow> bytes \<Rightarrow> bytes \<times> 's) \<Rightarrow> (nat \<Rightarrow> byte) \<Rightarrow> bytes \<Rightarrow> ('s \<Rightarrow> bool) \<Rightarrow>
     's socket \<Rightarrow> 's socket res" where
  "Client_attach net junk beyond failed k =
     rbind (Client_attach_send junk beyond) (\<lambda>sent.
     let k = socket_write net k sent in
     rbind (Client_attach_recv (failed (snd k)) junk (fst k)) (\<lambda>(response, unread). Inr (unread, snd k)))"

definition Client_lookup ::
    "('s \<Rightarrow> bytes \<Rightarrow> bytes \<times> 's) \<Rightarrow> (nat \<Rightarrow> byte) \<Rightarrow> bytes \<Rightarrow> ('s \<Rightarrow> bool) \<Rightarrow>
     's socket \<Rightarrow> bytes \<Rightarrow> short \<Rightarrow> (bytes list \<times> 's socket) res" where
  "Client_lookup net junk beyond failed k prefix count =
     rbind (Client_lookup_send junk beyond prefix count) (\<lambda>sent.
     let k = socket_write net k sent in
     rbind (Client_lookup_recv (failed (snd k)) junk (fst k)) (\<lambda>(names, unread). Inr (names, (unread, snd k))))"

definition Client_getSecurity ::
    "('s \<Rightarrow> bytes \<Rightarrow> bytes \<times> 's) \<Rightarrow> (nat \<Rightarrow> byte) \<Rightarrow> bytes \<Rightarrow> ('s \<Rightarrow> bool) \<Rightarrow> cl_Security \<Rightarrow>
     's socket \<Rightarrow> bytes \<Rightarrow> (cl_Security \<times> 's socket) res" where
  "Client_getSecurity net junk beyond failed uninit k name =
     rbind (Client_getSecurity_send junk beyond name) (\<lambda>sent.
     let k = socket_write net k sent in
     rbind (Client_getSecurity_recv (failed (snd k)) junk uninit (fst k)) (\<lambda>(sec, unread). Inr (sec, (unread, snd k))))"

definition Client_ops ::
    "('s \<Rightarrow> bytes \<Rightarrow> bytes \<times> 's) \<Rightarrow> (nat \<Rightarrow> byte) \<Rightarrow> bytes \<Rightarrow> ('s \<Rightarrow> bool) \<Rightarrow> cl_Security \<Rightarrow>
     's socket client_ops" where
  "Client_ops net junk beyond failed uninit =
     \<lparr>op_attach = Client_attach net junk beyond failed, op_lookup = Client_lookup net junk beyond failed,
      op_getSecurity = Client_getSecurity net junk beyond failed uninit\<rparr>"







datatype client_exit = Returned int | Terminated stoi_error | Started "(int \<times> string \<times> string) list"

definition client_main :: "string list \<Rightarrow> client_exit" where
  "client_main argv =
     (if length argv \<noteq> 4 then Returned (- 1)
      else (case stoi (argv ! 3) of
              Inl e \<Rightarrow> Terminated e
            | Inr instances \<Rightarrow> Started (map (\<lambda>i. (i, argv ! 1, argv ! 2)) [0..instances - 1])))"

section \<open>Command lines\<close>

lemma dec_digits_digits: "list_all is_digit (dec_digits n) \<and> dec_digits n \<noteq> []"
proof -
  have "list_all is_digit (dec_digits n)"
    using to_string_digits [of n] by (auto simp: to_string_dec_digits list_all_iff is_digit_def)
  moreover have "dec_digits n \<noteq> []" by (subst dec_digits.simps) simp
  ultimately show ?thesis by simp
qed

lemma digit_not_sign: "is_digit c \<Longrightarrow> \<not> c_space c \<and> c \<noteq> CHR ''-'' \<and> c \<noteq> CHR ''+''"
  by (auto simp: is_digit_def c_space_def)

lemma parse_number_digits:
  assumes "list_all is_digit ds" and "ds \<noteq> []"
  shows "parse_number ds = Some (int (dec_value ds)) \<and> parse_number (CHR ''-'' # ds) = Some (- int (dec_value ds))"
proof -
  have "takeWhile is_digit ds = ds" using assms(1) by (auto simp: takeWhile_eq_all_conv list_all_iff)
  moreover have "\<not> c_space (hd ds) \<and> hd ds \<noteq> CHR ''-'' \<and> hd ds \<noteq> CHR ''+''"
    using assms by (intro digit_not_sign) (cases ds; simp)
  then have "dropWhile c_space ds = ds" "hd ds \<noteq> CHR ''-''" "hd ds \<noteq> CHR ''+''"
    by (auto simp: dropWhile_eq_self_iff)
  ultimately show ?thesis using assms(2) by (simp add: parse_number_def Let_def c_space_def del: takeWhile_eq_all_conv)
qed

lemma parse_number_to_string: "parse_number (std_to_string n) = Some n"
  using parse_number_digits [of "dec_digits (nat n)"] parse_number_digits [of "dec_digits (nat (- n))"]
    dec_digits_digits to_string_value [of "nat n"] to_string_value [of "nat (- n)"]
  by (simp add: std_to_string_def to_string_dec_digits)

lemma atoi_to_string: "- (2 ^ 31) \<le> n \<Longrightarrow> n < 2 ^ 31 \<Longrightarrow> atoi (std_to_string n) = word_of_int n"
  by (simp add: atoi_def parse_number_to_string)

lemma pool_number_of: "- (2 ^ 31) \<le> n \<Longrightarrow> n < 2 ^ 31 \<Longrightarrow> pool_number (word_of_int n) = nat (n mod 2 ^ 64)"
  by (simp add: pool_number_def scast_eq signed_of_int signed_take_bit_int_eq_self unat_eq_nat_uint uint_word_of_int)

section \<open>The pages of the load test\<close>












section \<open>Properties\<close>





lemma start_pool: "Server_run s = ([], [])" if "new_Server a 0 b 0 = Inr s" for s
  using that
  by (cases rule: new_Server_cases)
    (auto simp: Server_run_def run_pool_def new_IOContextPool_def getIOContext_def Let_def split: if_splits)

text \<open>Bounds. The command lines, for numbers that are 32-bit ints: the server's port is the first number modulo
  65536, and its pools get the others as they are, or modulo 2 to the power 64 when they are negative; an empty pool
  of contexts is refused, and with no threads for both pools the server starts none and ends at once. Any other
  number of arguments means the defaults. The load test starts as many threads as asked for, numbered from 0, none
  for a negative number; what its clients ask for first is a number of three digits.\<close>
lemma command_lines:
  assumes "list_all (\<lambda>n. - (2 ^ 31) \<le> n \<and> n < 2 ^ 31) [p, a, b, c, d]"
  shows "uint (port (parse_server_args (prog # map std_to_string [p, a, b, c, d]))) = p mod 65536
    \<and> server_main (prog # map std_to_string [p, a, b, c, d]) =
      new_Server (nat (a mod 2 ^ 64)) (nat (b mod 2 ^ 64)) (nat (c mod 2 ^ 64)) (nat (d mod 2 ^ 64))
    \<and> (a = 0 \<longrightarrow> server_main (prog # map std_to_string [p, a, b, c, d]) = Inl (RuntimeError ''IO Context Pool size is 0''))
    \<and> (\<forall>s. b = 0 \<and> d = 0 \<and> server_main (prog # map std_to_string [p, a, b, c, d]) = Inr s \<longrightarrow> Server_run s = ([], []))
    \<and> (\<forall>argv. length argv \<noteq> 6 \<longrightarrow> server_main argv = new_Server 12 2 12 2)
    \<and> (\<exists>ids. client_main [prog, host, prt, std_to_string a] = Started (map (\<lambda>i. (i, host, prt)) ids)
        \<and> length ids = nat a \<and> (\<forall>k < length ids. ids ! k = int k))
    \<and> (\<exists>k \<in> {100..999}. getRandomSecNamePrefix r = std_to_string k)"
proof (intro conjI allI impI)
  have main: "server_main (prog # map std_to_string [p, a, b, c, d]) =
      new_Server (nat (a mod 2 ^ 64)) (nat (b mod 2 ^ 64)) (nat (c mod 2 ^ 64)) (nat (d mod 2 ^ 64))"
    using assms by (simp add: server_main_def parse_server_args_def atoi_to_string pool_number_of)
  then show "server_main (prog # map std_to_string [p, a, b, c, d]) =
      new_Server (nat (a mod 2 ^ 64)) (nat (b mod 2 ^ 64)) (nat (c mod 2 ^ 64)) (nat (d mod 2 ^ 64))" .
  show "uint (port (parse_server_args (prog # map std_to_string [p, a, b, c, d]))) = p mod 65536"
    using assms by (simp add: parse_server_args_def atoi_to_string unsigned_ucast_eq uint_word_of_int)
      (simp add: take_bit_eq_mod mod_mod_cancel)
  show "server_main (prog # map std_to_string [p, a, b, c, d]) = Inl (RuntimeError ''IO Context Pool size is 0'')"
    if "a = 0"
    unfolding main using that by (simp add: new_Server_def new_IOContextPool_def)
  show "Server_run s = ([], [])"
    if "b = 0 \<and> d = 0 \<and> server_main (prog # map std_to_string [p, a, b, c, d]) = Inr s" for s
    using that unfolding main by (auto dest: start_pool)
  show "server_main argv = new_Server 12 2 12 2" if "length argv \<noteq> 6" for argv
    using that by (simp add: server_main_def parse_server_args_def default_server_config_def pool_number_def)
  show "\<exists>ids. client_main [prog, host, prt, std_to_string a] = Started (map (\<lambda>i. (i, host, prt)) ids)
      \<and> length ids = nat a \<and> (\<forall>k < length ids. ids ! k = int k)"
    using assms by (intro exI [of _ "[0..a - 1]"]) (simp add: client_main_def stoi_def parse_number_to_string)
  show "\<exists>k \<in> {100..999}. getRandomSecNamePrefix r = std_to_string k"
    by (intro bexI [of _ "int (r mod 900 + 100)"]) (simp_all add: getRandomSecNamePrefix_def)
qed

end
