(* ===== verification/Spec2Isabelle.thy ===== *)
theory Spec2Isabelle
  imports
    Protocol Resource_Pool Sync_Pool Ozo_IO Ozo_Result Ozo_Failover Ozo_Connect Ozo_Query_Conf Ozo_Time
    Tao_Params Tao_Results Tao_Pool Tao_Transaction Load_Test
begin

text \<open>
  A verification development of a security reference-data server and the code it runs on.

  \<^bold>\<open>The program.\<close> \<^verbatim>\<open>middleware-cpp/server\<close> is a TCP server: it accepts connections, reads length-prefixed binary
  requests (attach, get a security by name, look names up), asks a PostgreSQL database and answers with binary
  frames. \<^verbatim>\<open>client-cpp/client\<close> is the load-test client that speaks the same protocol with its own copy of the message
  classes. The server reaches the database through \<^verbatim>\<open>middleware-cpp/includes/ozo\<close>, an asynchronous client
  library on libpq and Boost.Asio, whose connections are kept in a resource pool of
  \<^verbatim>\<open>middleware-cpp/includes/yamail/resource_pool\<close>. A request thus passes: client, connection handler, message
  object, repository, connection pool, query with its parameters, rows, completion, encoder, socket, client.

  \<^bold>\<open>Theories and sources.\<close>
  \<^item> \<^theory_text>\<open>Prelude\<close>: byte memory with faults (null, out of bounds, use after free, uninitialised), fallible steps,
    little- and big-endian integers, C strings, and the interface \<^theory_text>\<open>codec\<close>.
  \<^item> \<^theory_text>\<open>Server_Messages\<close>, \<^theory_text>\<open>Msg_Processor\<close>: \<^verbatim>\<open>server/protocol\<close>: the message classes with their decode, process and
    encode functions, and the selection of a message by its type field.
  \<^item> \<^theory_text>\<open>Io_Context_Pool\<close>, \<^theory_text>\<open>Repository\<close>, \<^theory_text>\<open>Server_Connection\<close>, \<^theory_text>\<open>Server\<close>: \<^verbatim>\<open>server/io_context_pool.h\<close>,
    \<^verbatim>\<open>db/repository.h\<close>, \<^verbatim>\<open>connection.h\<close> with \<^verbatim>\<open>Connection\<close> of \<^verbatim>\<open>message.h\<close>, \<^verbatim>\<open>secserv.h\<close> with \<^verbatim>\<open>metrics.h\<close>. A
    connection is a record (buffer, index, message, outstanding operation) and \<^theory_text>\<open>conn_step\<close> the relation of its
    completions: reads of any size, database answers, posted writes, in every order the I/O library allows.
  \<^item> \<^theory_text>\<open>Client_Messages\<close>, \<^theory_text>\<open>Protocol\<close>: \<^verbatim>\<open>client-cpp/client\<close>, and client and server composed over the wire.
  \<^item> \<^theory_text>\<open>Ozo_Query_Builder\<close>, \<^theory_text>\<open>Ozo_Error\<close>, \<^theory_text>\<open>Ozo_Deadline\<close>, \<^theory_text>\<open>Ozo_Connection\<close>: \<^verbatim>\<open>ozo/query_builder.h\<close>,
    \<^verbatim>\<open>error.h\<close> with \<^verbatim>\<open>detail/base36.h\<close>, \<^verbatim>\<open>deadline.h\<close> with \<^verbatim>\<open>detail/deadline.h\<close>, \<^verbatim>\<open>connection.h\<close> and
    \<^verbatim>\<open>connection_pool.h\<close> with their \<^verbatim>\<open>impl\<close> files.
  \<^item> \<^theory_text>\<open>Pg_Types\<close>, \<^theory_text>\<open>Ozo_IO\<close>: \<^verbatim>\<open>ozo/pg\<close> and \<^verbatim>\<open>ozo/io\<close>: the table of built-in types and the binary format of values:
    sizes, sending, receiving, arrays, composites, rows, query parameters; \<^theory_text>\<open>Ozo_Result\<close>: \<^verbatim>\<open>ozo/result.h\<close>, rows and values as
    coordinates in a libpq result, their iterators, and the reception through them.
  \<^item> \<^theory_text>\<open>Ozo_Failover\<close>: \<^verbatim>\<open>ozo/failover\<close>: the framework, the retry strategy, the role-based strategy.
  \<^item> \<^theory_text>\<open>Ozo_Request\<close>, \<^theory_text>\<open>Ozo_Connect\<close>: \<^verbatim>\<open>impl/async_request.h\<close> with the asynchronous operations of \<^verbatim>\<open>impl/io.h\<close>,
    the statuses of results and the OID map; \<^verbatim>\<open>impl/async_connect.h\<close>, \<^verbatim>\<open>transaction.h\<close> with its options and \<^verbatim>\<open>BEGIN\<close> statement,
    \<^verbatim>\<open>cancel.h\<close>. Libpq is a record of functions, and an operation a state with its calls of the handler.
  \<^item> \<^theory_text>\<open>Ozo_Query_Conf\<close>, \<^theory_text>\<open>Ozo_Time\<close>: \<^verbatim>\<open>query_conf.h\<close>: the grammars of query files, their queries, descriptions and
    repository; \<^verbatim>\<open>ext/std/duration.h\<close>, \<^verbatim>\<open>time_point.h\<close>, \<^verbatim>\<open>ext/boost/uuid.h\<close>.
  \<^item> \<^theory_text>\<open>Tao_Params\<close>, \<^theory_text>\<open>Tao_Results\<close>, \<^theory_text>\<open>Tao_Pool\<close>, \<^theory_text>\<open>Tao_Transaction\<close>: \<^verbatim>\<open>tao/pq\<close>, a second client library that the server ships: how arguments
    become the arrays of libpq, how the columns of a row become values, the connection pool with its shared pointers, the transactions of a connection.
  \<^item> \<^theory_text>\<open>Load_Test\<close>: the two \<^verbatim>\<open>main.cpp\<close> files and the threads of \<^verbatim>\<open>client-cpp/client/client.h\<close>: command lines and rounds of the load
    test over the operations of \<^theory_text>\<open>Protocol\<close>.
  \<^item> \<^theory_text>\<open>Pool_Storage\<close>, \<^theory_text>\<open>Pool_Queue\<close>, \<^theory_text>\<open>Resource_Pool\<close>: \<^verbatim>\<open>yamail/resource_pool\<close>: cells and their lists, the queue of
    waiting requests with its timers, the asynchronous and the synchronous pool, handles. The step relations interleave
    the critical sections of concurrent calls as the mutex of the pool does; \<^theory_text>\<open>Sync_Pool\<close> has those of the synchronous
    pool with its condition variable and time.

  \<^bold>\<open>Interfaces.\<close> A locale stands where one part relies on another, and each is interpreted on the model of the code:
  \<^theory_text>\<open>codec\<close> (integers and strings in memory, values and frames of \<^theory_text>\<open>Ozo_IO\<close>), \<^theory_text>\<open>response_encoder\<close> (the three
  responses), \<^theory_text>\<open>context_source\<close> (the pool of I/O contexts), \<^theory_text>\<open>two_completions\<close> (an operation and its timer),
  \<^theory_text>\<open>request_queue\<close> (the waiting requests), \<^theory_text>\<open>returning_pool\<close> (what a handle needs of either pool),
  \<^theory_text>\<open>failover_strategy\<close> (what the failover framework needs of a strategy), \<^theory_text>\<open>lexer\<close> (the parsers of query files: what
  they leave is a rest of the input).

  \<^bold>\<open>What is shown.\<close>
  \<^item> Protocol: frames are processed once however they are cut into reads; the three requests and their responses
    survive the way from one side to the other; reachable connections keep their invariant and never use a null
    message. Negative results: a security read from the database is encoded from freed memory, the lookup ignores
    its prefix, the end of the stream and oversized messages loop, a database error strands the connection, the
    client sends bytes beyond its blocks.
  \<^item> Values: placeholders number their parameters; SQLSTATE classes are the prefixes of the states; values of every
    supported type are received as sent, their announced size is what is sent, and whatever bytes arrive, a value
    received without an error has its type; parameters lie where their descriptors say; durations, time points and
    uuids survive the way; receiving through iterators is receiving from the table of columns. Negative results: an empty parameter is sent as null, sizes of arrays of nullables are
    wrong, a received interval just beyond the range of a duration changes its sign, infinite timestamps become the
    year 2000.
  \<^item> Operations on a connection: an operation with a deadline, a connect operation and a cancel request call their
    handler exactly once; only idle, good connections are reused; retried operations end, share the time fairly and
    call the handler once; the role-based strategy goes on with the first later role that can recover. Negative
    result: a request that is answered while its writing side still waits calls its handler a second time when that
    wait fails.
  \<^item> Query files: lines and queries lose nothing of the text; parameters become the placeholders of the members and
    positions they name; a repository is made exactly for well-formed files, and every declared query is in it.
  \<^item> \<^verbatim>\<open>tao/pq\<close>: the arrays filled by index arithmetic hold the columns of the arguments in order; both libraries send
    the same for the same values; nested types take their columns one after the other, and the containers of rows are
    what their kind promises; a connection of the pool has one owner at any time, and \<^verbatim>\<open>get\<close> gives the newest valid
    one; the transactions of a connection are a stack without dangling pointers. Negative results: text is cut at a
    zero byte, an empty span without memory is sent as null, a field of a slice is read from the wrong column.
  \<^item> Resource pool: the queue refines a bounded first-in first-out list with expiry times; every request is answered
    exactly once under every interleaving; values handed out are alive. In the synchronous pool no wake-up
    is lost. Negative results: a wake-up of the asynchronous pool can be lost, a synchronous call can wait without end,
    the handle of a failed synchronous get is unsafe, a mark of invalidation survives a hand-over.
  \<^item> Start-up and load test: what the command lines select, wrap-around included. Negative result: the load test
    requests the same page of names over and over.

  \<^bold>\<open>Bounds and termination.\<close> The byte sizes are those of the sources (a read buffer of its declared size, names of 32
  bytes); integers keep their width where they are stored or sent, and deadlines are integers with the 64-bit
  maximum written out. No definition uses fuel. Loops that need not end are partial functions, whose value is
  \<open>None\<close> then: the tries of an arbitrary failover strategy, which are proved to end for both strategies of the code, and
  the loop that takes results from libpq until there are no more, which is libpq's to end; the two loops that compare
  iterators of rows, which are proved to end. The repetition of a grammar
  ends as its parser consumes input, which the definition tests as the original does not have to; the loop of
  \<open>pool_get\<close> ends as the pool becomes shorter, and that of \<open>destroy_tx\<close> as transactions disappear.

  \<^bold>\<open>Arguments of the model.\<close> libpq, Boost.System, Boost.Asio, the database and the clock are arguments: records of
  functions with their documented behaviour as named hypotheses, or events in any order.

  \<^bold>\<open>Not modelled.\<close> The compile-time side of the library (concepts, traits, executors, allocators, completion tokens)
  and the initiators that only forward to the operations (\<^verbatim>\<open>ozo/request.h\<close>, \<^verbatim>\<open>execute.h\<close>, \<^verbatim>\<open>connector.h\<close>); the bindings of pointers, pairs and tuples, which are the nullable and composite cases of
  the model; of \<^verbatim>\<open>tao/pq\<close> the functions whose bodies are in a library outside the repository (arguments of the model where
  others use them) and its copy of the standard span; the
  metrics of the client, which nothing uses; the Go client, the Java service, scripts and data.
\<close>

end
